(* ===== verification/Prelude.thy ===== *)
theory Prelude
  imports Main "HOL-Library.Word"
begin

section \<open>Prelude: what the components share\<close>

text \<open>
  This theory fixes how the Go code is read: errors as values, the environment an operation
  reads (clocks, randomness, the failures of the database driver), the error monad
  \<open>attempt\<close> for chains of \<^verbatim>\<open>if err != nil { return ... }\<close>, database transactions, and the list
  lemmas behind every table of the model.

  \<^item> Go strings are byte sequences: \<^typ>\<open>string\<close>.
  \<^item> \<open>time.Time\<close> is an \<^typ>\<open>int\<close>, nanoseconds since Go's zero time (1 January of year 1, UTC),
    so \<open>t.IsZero()\<close> is \<open>t = 0\<close>.
  \<^item> A pointer that may be \<open>nil\<close> is an \<open>option\<close>.
\<close>

named_theorems attempt_dests \<open>facts that take a successful chain of calls apart\<close>
named_theorems table_simps \<open>rewriting of table updates, deletions and look-ups\<close>

type_synonym time = int

abbreviation (input) zero_time :: time where "zero_time \<equiv> 0"

definition nanosecond :: time where "nanosecond = 1"
definition second :: time where "second = 1000000000"
definition minute :: time where "minute = 60 * second"

subsection \<open>Errors\<close>

text \<open>
  \<open>Sentinel\<close> is a package-level error variable, compared by identity through its qualified name;
  \<open>NewError\<close> is an anonymous \<open>errors.New\<close> or \<open>fmt.Errorf\<close> without \<open>%w\<close>; \<open>Wrapped\<close> is
  \<open>fmt.Errorf("text: %w", err)\<close>; \<open>WorkerCommand\<close> is \<open>gateway.WorkerCommandError\<close>; \<open>Panic\<close> is a
  run-time panic.
\<close>

datatype go_error =
    Sentinel string
  | NewError string
  | Wrapped string go_error
  | WorkerCommand string string
  | Panic string

fun errors_is :: "go_error \<Rightarrow> go_error \<Rightarrow> bool" where
  "errors_is (Wrapped m e) target = (Wrapped m e = target \<or> errors_is e target)"
| "errors_is e target = (e = target)"

definition ErrNotFound :: go_error where
  "ErrNotFound = Sentinel ''gateway.ErrNotFound''"
definition ErrInvalidToken :: go_error where
  "ErrInvalidToken = Sentinel ''gateway.ErrInvalidToken''"
definition ErrExpiredToken :: go_error where
  "ErrExpiredToken = Sentinel ''gateway.ErrExpiredToken''"
definition ErrPlatformMismatch :: go_error where
  "ErrPlatformMismatch = Sentinel ''gateway.ErrPlatformMismatch''"
definition ErrWorkerOffline :: go_error where
  "ErrWorkerOffline = Sentinel ''gateway.ErrWorkerOffline''"
definition ErrConstraint :: go_error where
  "ErrConstraint = Sentinel ''pgconn.ConstraintViolation''"
definition ErrContextCanceled :: go_error where
  "ErrContextCanceled = Sentinel ''context.Canceled''"
definition ErrDeadlineExceeded :: go_error where
  "ErrDeadlineExceeded = Sentinel ''context.DeadlineExceeded''"

lemmas sentinel_defs = ErrNotFound_def ErrInvalidToken_def ErrExpiredToken_def
  ErrPlatformMismatch_def ErrWorkerOffline_def ErrConstraint_def ErrContextCanceled_def
  ErrDeadlineExceeded_def

subsection \<open>The error monad\<close>

definition attempt :: "'e + 'a \<Rightarrow> ('a \<Rightarrow> 'e + 'b) \<Rightarrow> 'e + 'b" where
  "attempt x f = (case x of Inl e \<Rightarrow> Inl e | Inr v \<Rightarrow> f v)"

definition fail_if :: "bool \<Rightarrow> 'e \<Rightarrow> 'e + unit" where
  "fail_if c e = (if c then Inl e else Inr ())"

lemma attempt_simps [simp]:
  "attempt (Inl e) f = Inl e" "attempt (Inr v) f = f v"
  by (simp_all add: attempt_def)

lemma attempt_eq_Inr [attempt_dests]:
  "attempt x f = Inr y \<longleftrightarrow> (\<exists>v. x = Inr v \<and> f v = Inr y)"
  by (cases x) simp_all

lemma attempt_eq_Inl:
  "attempt x f = Inl e \<longleftrightarrow> x = Inl e \<or> (\<exists>v. x = Inr v \<and> f v = Inl e)"
  by (cases x) auto

lemma fail_if_eq_Inr [simp]: "fail_if c e = Inr u \<longleftrightarrow> \<not> c"
  by (simp add: fail_if_def)

lemma fail_if_eq_Inl [simp]: "fail_if c e = Inl e' \<longleftrightarrow> c \<and> e' = e"
  by (auto simp: fail_if_def)

lemma fail_if_False [simp]: "fail_if False e = Inr ()"
  and fail_if_True [simp]: "fail_if True e = Inl e"
  by (simp_all add: fail_if_def)

subsection \<open>What an operation reads from outside\<close>

text \<open>
  \<open>clock\<close> is \<open>time.Now().UTC()\<close> in the API process, \<open>db_clock\<close> is \<open>now()\<close> inside the database
  transaction. \<open>rand_fault e i\<close> is the error of the \<open>i\<close>-th read of the operating system's random
  source (\<open>None\<close> when it succeeds) and \<open>entropy e i k\<close> its \<open>k\<close>-th byte. \<open>db_fault e k\<close> is the error
  the driver reports for the operation's \<open>k\<close>-th statement, for every reason that is outside the
  schema (connection lost, context cancelled, a text the server cannot store); the statements of
  an operation are numbered in source order, starting at 0 with \<open>Begin\<close>.
\<close>

record env =
  clock :: time
  db_clock :: time
  rand_fault :: "nat \<Rightarrow> go_error option"
  entropy :: "nat \<Rightarrow> nat \<Rightarrow> 8 word"
  db_fault :: "nat \<Rightarrow> go_error option"

text \<open>
  \<open>stmt e k msg r\<close> runs statement \<open>k\<close>: it fails with the driver's error or, when \<open>r\<close> is \<open>None\<close>, with
  a constraint violation; either is wrapped with the text of the source.
\<close>

definition stmt :: "env \<Rightarrow> nat \<Rightarrow> string \<Rightarrow> 'a option \<Rightarrow> go_error + 'a" where
  "stmt e k msg r =
     (case db_fault e k of
        Some err \<Rightarrow> Inl (Wrapped msg err)
      | None \<Rightarrow> (case r of None \<Rightarrow> Inl (Wrapped msg ErrConstraint) | Some v \<Rightarrow> Inr v))"

text \<open>
  \<open>query_row e k msg none r\<close> is \<open>QueryRow(...).Scan(...)\<close> where the source tests
  \<open>pgx.ErrNoRows\<close> first and answers it with \<open>none\<close>.
\<close>

definition query_row :: "env \<Rightarrow> nat \<Rightarrow> string \<Rightarrow> go_error \<Rightarrow> 'a option \<Rightarrow> go_error + 'a" where
  "query_row e k msg none r =
     (case db_fault e k of
        Some err \<Rightarrow> Inl (Wrapped msg err)
      | None \<Rightarrow> (case r of None \<Rightarrow> Inl none | Some v \<Rightarrow> Inr v))"

text \<open>A call during which neither the random source nor the driver fails.\<close>

definition healthy :: "env \<Rightarrow> bool" where
  "healthy e \<longleftrightarrow> (\<forall>i. rand_fault e i = None) \<and> (\<forall>k. db_fault e k = None)"

lemma healthy_simps [simp]:
  "healthy e \<Longrightarrow> rand_fault e i = None" "healthy e \<Longrightarrow> db_fault e k = None"
  by (simp_all add: healthy_def)

text \<open>A concrete environment for worked examples.\<close>

definition sample_env :: "time \<Rightarrow> env" where
  "sample_env t = \<lparr>clock = t, db_clock = t, rand_fault = (\<lambda>_. None),
     entropy = (\<lambda>i k. word_of_nat (i + k)), db_fault = (\<lambda>_. None)\<rparr>"

lemma sample_env_simps [simp]:
  "healthy (sample_env t)" "clock (sample_env t) = t" "db_clock (sample_env t) = t"
  "rand_fault (sample_env t) i = None" "db_fault (sample_env t) i = None"
  by (simp_all add: sample_env_def healthy_def)

lemma stmt_eq_Inr [attempt_dests]:
  "stmt e k msg r = Inr v \<longleftrightarrow> db_fault e k = None \<and> r = Some v"
  by (simp add: stmt_def split: option.split)

lemma query_row_eq_Inr [attempt_dests]:
  "query_row e k msg none r = Inr v \<longleftrightarrow> db_fault e k = None \<and> r = Some v"
  by (simp add: query_row_def split: option.split)

lemma stmt_ok [simp]: "db_fault e k = None \<Longrightarrow> stmt e k msg (Some v) = Inr v"
  by (simp add: stmt_def)

lemma query_row_ok [simp]: "db_fault e k = None \<Longrightarrow> query_row e k msg none (Some v) = Inr v"
  by (simp add: query_row_def)

lemma query_row_none [simp]: "db_fault e k = None \<Longrightarrow> query_row e k msg none None = Inl none"
  by (simp add: query_row_def)

text \<open>
  A transaction runs its body on the database; an error on the way, the commit included, leaves
  the database as it was (\<open>defer tx.Rollback(ctx)\<close>).
\<close>

definition in_tx :: "('db \<Rightarrow> 'e + 'a \<times> 'db) \<Rightarrow> 'db \<Rightarrow> ('e + 'a) \<times> 'db" where
  "in_tx body db = (case body db of Inl e \<Rightarrow> (Inl e, db) | Inr (v, db') \<Rightarrow> (Inr v, db'))"

lemma in_tx_Inl: "in_tx body db = (Inl e, db') \<Longrightarrow> db' = db"
  by (auto simp: in_tx_def split: sum.splits prod.splits)

lemma in_tx_Inr: "in_tx body db = (Inr v, db') \<longleftrightarrow> body db = Inr (v, db')"
  by (auto simp: in_tx_def split: sum.splits prod.splits)

lemma in_tx_cases:
  obtains (Fail) e where "body db = Inl e" "in_tx body db = (Inl e, db)"
  | (Done) v db' where "body db = Inr (v, db')" "in_tx body db = (Inr v, db')"
  by (cases "body db") (auto simp: in_tx_def)

lemma in_tx_snd:
  assumes "\<And>v db'. body db = Inr (v, db') \<Longrightarrow> P db'" "P db"
  shows "P (snd (in_tx body db))"
  using assms by (cases rule: in_tx_cases [of body db]) simp_all

subsection \<open>Strings\<close>

definition has_prefix :: "string \<Rightarrow> string \<Rightarrow> bool" where
  "has_prefix s p \<longleftrightarrow> take (length p) s = p"

definition trim_prefix :: "string \<Rightarrow> string \<Rightarrow> string" where
  "trim_prefix s p = (if has_prefix s p then drop (length p) s else s)"

definition has_suffix :: "string \<Rightarrow> string \<Rightarrow> bool" where
  "has_suffix s p \<longleftrightarrow> length p \<le> length s \<and> drop (length s - length p) s = p"

lemma has_prefix_iff: "has_prefix s p \<longleftrightarrow> (\<exists>r. s = p @ r)"
  unfolding has_prefix_def by (metis append_eq_conv_conj append_take_drop_id)

lemma has_prefix_append [simp]: "has_prefix (p @ r) p"
  by (simp add: has_prefix_def)

lemma trim_prefix_append [simp]: "trim_prefix (p @ r) p = r"
  by (simp add: trim_prefix_def)

lemma has_suffix_append [simp]: "has_suffix (r @ p) p"
  by (simp add: has_suffix_def)

lemma has_suffix_iff: "has_suffix s p \<longleftrightarrow> (\<exists>r. s = r @ p)"
  unfolding has_suffix_def
  by (metis append_take_drop_id append_eq_append_conv_if diff_le_self length_append
      has_suffix_append has_suffix_def)


text \<open>
  \<open>strings.TrimSpace\<close>: the characters of Go's \<open>unicode.IsSpace\<close>, in UTF-8, are taken off both ends.
\<close>

definition utf8_bytes :: "nat list \<Rightarrow> string" where
  "utf8_bytes = map char_of"

definition white_space :: "string list" where
  "white_space = map (\<lambda>b. utf8_bytes [b]) [9, 10, 11, 12, 13, 32] @
     [utf8_bytes [0xC2, 0x85], utf8_bytes [0xC2, 0xA0], utf8_bytes [0xE1, 0x9A, 0x80]] @
     map (\<lambda>b. utf8_bytes [0xE2, 0x80, b]) ([0x80..<0x8B] @ [0xA8, 0xA9, 0xAF]) @
     [utf8_bytes [0xE2, 0x81, 0x9F], utf8_bytes [0xE3, 0x80, 0x80]]"

function trim_left :: "string list \<Rightarrow> string \<Rightarrow> string" where
  "trim_left spaces s =
     (case List.find (\<lambda>p. p \<noteq> [] \<and> s \<noteq> [] \<and> has_prefix s p) spaces of
        None \<Rightarrow> s
      | Some p \<Rightarrow> trim_left spaces (drop (length p) s))"
  by auto
termination
proof (relation "measure (\<lambda>(spaces, s). length s)")
  fix spaces s p
  assume "List.find (\<lambda>p. p \<noteq> [] \<and> s \<noteq> [] \<and> has_prefix s p) spaces = Some p"
  then have "p \<noteq> [] \<and> s \<noteq> []" unfolding find_Some_iff by (elim exE conjE) simp
  then show "((spaces, drop (length p) s), spaces, s) \<in> measure (\<lambda>(spaces, s). length s)"
    by (cases p; cases s) simp_all
qed simp

declare trim_left.simps [simp del]

definition trim_space :: "string \<Rightarrow> string" where
  "trim_space s = rev (trim_left (map rev white_space) (rev (trim_left white_space s)))"

lemma trim_left_suffix: "\<exists>p. s = p @ trim_left spaces s"
proof (induction spaces s rule: trim_left.induct)
  case (1 spaces s)
  show ?case
  proof (cases "List.find (\<lambda>p. p \<noteq> [] \<and> s \<noteq> [] \<and> has_prefix s p) spaces")
    case (Some p)
    with 1 obtain q where "drop (length p) s = q @ trim_left spaces (drop (length p) s)" by blast
    moreover have "trim_left spaces s = trim_left spaces (drop (length p) s)"
      using Some by (subst trim_left.simps) simp
    ultimately have "s = (take (length p) s @ q) @ trim_left spaces s"
      using append_take_drop_id [of "length p" s] by simp
    then show ?thesis by blast
  qed (simp add: trim_left.simps)
qed

lemma trim_space_infix: "\<exists>p q. s = p @ trim_space s @ q"
proof -
  obtain p where "s = p @ trim_left white_space s" using trim_left_suffix by blast
  moreover obtain q where "rev (trim_left white_space s) = q @ rev (trim_space s)"
    using trim_left_suffix [of "rev (trim_left white_space s)"] by (auto simp: trim_space_def)
  then have "trim_left white_space s = trim_space s @ rev q"
    by (metis rev_append rev_rev_ident)
  ultimately show ?thesis by metis
qed

lemma trim_space_Nil [simp]: "trim_space [] = []"
  using trim_space_infix [of "[]"] by simp

lemma trim_left_id:
  assumes "hd s \<notin> hd ` set spaces"
  shows "trim_left spaces s = s"
proof -
  have "List.find (\<lambda>p. p \<noteq> [] \<and> s \<noteq> [] \<and> has_prefix s p) spaces = None"
    using assms by (force simp: find_None_iff has_prefix_iff neq_Nil_conv)
  then show ?thesis by (simp add: trim_left.simps)
qed

lemma trim_space_id:
  assumes "hd s \<notin> hd ` set white_space" "last s \<notin> last ` set white_space"
  shows "trim_space s = s"
  using assms by (simp add: trim_space_def trim_left_id hd_rev image_image)

lemma white_heads: "hd ` set white_space \<subseteq> {c. of_char c < (33::nat) \<or> of_char c > (127::nat)}"
  "last ` set white_space \<subseteq> {c. of_char c < (33::nat) \<or> of_char c > (127::nat)}"
  by (auto simp: white_space_def utf8_bytes_def take_bit_eq_mod)

lemma trim_space_ascii:
  assumes "of_char (hd s) \<in> {33..127 :: nat}" "of_char (last s) \<in> {33..127 :: nat}"
  shows "trim_space s = s"
  by (rule trim_space_id) (use assms white_heads in fastforce)+

subsection \<open>Tables\<close>

text \<open>
  A database table is the list of its rows. \<open>row_by\<close> is a look-up by key, \<open>update_where\<close> an
  \<open>UPDATE ... WHERE\<close>, \<open>filter\<close> a \<open>DELETE\<close> (of the rows it drops), \<open>unique_by\<close> a key or a
  \<open>UNIQUE\<close> constraint over all rows.
\<close>

definition row_by :: "('r \<Rightarrow> 'k) \<Rightarrow> 'k \<Rightarrow> 'r list \<Rightarrow> 'r option" where
  "row_by key k rows = List.find (\<lambda>r. key r = k) rows"

definition update_where :: "('r \<Rightarrow> bool) \<Rightarrow> ('r \<Rightarrow> 'r) \<Rightarrow> 'r list \<Rightarrow> 'r list" where
  "update_where P f rows = map (\<lambda>r. if P r then f r else r) rows"

definition unique_by :: "('r \<Rightarrow> 'k) \<Rightarrow> 'r list \<Rightarrow> bool" where
  "unique_by key rows \<longleftrightarrow> distinct (map key rows)"

lemma find_None_iff_ball: "List.find P xs = None \<longleftrightarrow> (\<forall>x \<in> set xs. \<not> P x)"
  by (auto simp: find_None_iff)

lemma find_SomeD: "List.find P xs = Some x \<Longrightarrow> x \<in> set xs \<and> P x"
  by (auto simp: find_Some_iff)

lemma find_unique:
  assumes "x \<in> set xs" "P x" "\<And>y. y \<in> set xs \<Longrightarrow> P y \<Longrightarrow> y = x"
  shows "List.find P xs = Some x"
proof (cases "List.find P xs")
  case None
  with assms(1,2) show ?thesis by (auto simp: find_None_iff)
next
  case (Some y)
  then have "y \<in> set xs" "P y" by (auto dest: find_SomeD)
  with assms(3) Some show ?thesis by simp
qed

lemma row_byD: "row_by key k rows = Some r \<Longrightarrow> r \<in> set rows \<and> key r = k"
  unfolding row_by_def by (rule find_SomeD)

lemma row_by_key: "row_by key k rows = Some r \<Longrightarrow> key r = k"
  by (drule row_byD) simp

lemma row_by_mem: "row_by key k rows = Some r \<Longrightarrow> r \<in> set rows"
  by (drule row_byD) simp

lemma row_by_None: "row_by key k rows = None \<longleftrightarrow> k \<notin> key ` set rows"
  by (auto simp: row_by_def find_None_iff)

lemma row_by_Nil [simp]: "row_by key k [] = None"
  by (simp add: row_by_def)

lemma row_by_Cons [simp]:
  "row_by key k (r # rs) = (if key r = k then Some r else row_by key k rs)"
  by (simp add: row_by_def)

lemma row_by_append [table_simps]:
  "row_by key k (xs @ ys) = (case row_by key k xs of None \<Rightarrow> row_by key k ys | Some r \<Rightarrow> Some r)"
  by (induction xs) auto

lemma unique_by_memD:
  "unique_by key rows \<Longrightarrow> r \<in> set rows \<Longrightarrow> s \<in> set rows \<Longrightarrow> key r = key s \<Longrightarrow> r = s"
  by (auto simp: unique_by_def distinct_map dest: inj_onD)

lemma row_by_unique: "unique_by key rows \<Longrightarrow> r \<in> set rows \<Longrightarrow> row_by key (key r) rows = Some r"
  unfolding row_by_def by (rule find_unique) (auto dest: unique_by_memD)

lemma row_by_Some_iff:
  "unique_by key rows \<Longrightarrow> row_by key k rows = Some r \<longleftrightarrow> r \<in> set rows \<and> key r = k"
  by (auto dest: row_byD row_by_unique)

lemma unique_by_Nil [simp]: "unique_by key []"
  by (simp add: unique_by_def)

lemma unique_by_snoc [table_simps]:
  "unique_by key (rows @ [r]) \<longleftrightarrow> unique_by key rows \<and> key r \<notin> key ` set rows"
  by (auto simp: unique_by_def)

lemma unique_by_filter [intro]: "unique_by key rows \<Longrightarrow> unique_by key (filter P rows)"
  by (simp add: unique_by_def distinct_map_filter)

lemma map_update_where:
  "(\<And>r. r \<in> set rows \<Longrightarrow> P r \<Longrightarrow> key (f r) = key r) \<Longrightarrow>
   map key (update_where P f rows) = map key rows"
  by (simp add: update_where_def)

lemma unique_by_update_where:
  "(\<And>r. r \<in> set rows \<Longrightarrow> P r \<Longrightarrow> key (f r) = key r) \<Longrightarrow>
   unique_by key (update_where P f rows) \<longleftrightarrow> unique_by key rows"
  by (simp add: unique_by_def map_update_where)

lemma set_update_where [table_simps]:
  "set (update_where P f rows) = (\<lambda>r. if P r then f r else r) ` set rows"
  by (simp add: update_where_def)

lemma ball_update_where [table_simps]:
  "(\<forall>r \<in> set (update_where P f rows). Q r) \<longleftrightarrow> (\<forall>r \<in> set rows. Q (if P r then f r else r))"
  by (induction rows) (simp_all add: update_where_def)

lemma image_update_where:
  "(\<And>r. r \<in> set rows \<Longrightarrow> P r \<Longrightarrow> key (f r) = key r) \<Longrightarrow>
   key ` set (update_where P f rows) = key ` set rows"
  by (metis list.set_map map_update_where)

lemma row_by_update_where:
  assumes "\<And>r. P r \<Longrightarrow> key (f r) = key r"
  shows "row_by key k (update_where P f rows) =
         map_option (\<lambda>r. if P r then f r else r) (row_by key k rows)"
  using assms by (induction rows) (auto simp: update_where_def)

lemma row_by_filter_None: "row_by key k rows = None \<Longrightarrow> row_by key k (filter P rows) = None"
  by (auto simp: row_by_None)

lemma row_by_filter:
  assumes "\<And>r. r \<in> set rows \<Longrightarrow> key r = k \<Longrightarrow> P r"
  shows "row_by key k (filter P rows) = row_by key k rows"
  using assms by (induction rows) auto

lemma row_by_filter_keep:
  "row_by key k rows = Some r \<Longrightarrow> P r \<Longrightarrow> row_by key k (filter P rows) = Some r"
  by (induction rows) (auto split: if_splits)

lemma find_by_key:
  assumes "unique_by key rows"
  shows "List.find (\<lambda>r. key r = k \<and> P r) rows =
    (case row_by key k rows of None \<Rightarrow> None | Some r \<Rightarrow> if P r then Some r else None)"
proof (cases "row_by key k rows")
  case None
  then have "List.find (\<lambda>r. key r = k \<and> P r) rows = None"
    by (auto simp: row_by_None find_None_iff)
  with None show ?thesis by simp
next
  case (Some r)
  then have r: "r \<in> set rows" "key r = k" by (auto dest: row_byD)
  have only: "y = r" if "y \<in> set rows" "key y = k" for y
    using assms that r by (auto dest: unique_by_memD)
  show ?thesis
  proof (cases "P r")
    case True
    have "List.find (\<lambda>r. key r = k \<and> P r) rows = Some r"
      by (rule find_unique) (use r True only in blast)+
    with Some True show ?thesis by simp
  next
    case False
    have "List.find (\<lambda>r. key r = k \<and> P r) rows = None"
      unfolding find_None_iff using False only by blast
    with Some False show ?thesis by simp
  qed
qed

lemma row_by_filter_drop:
  assumes "\<And>r. r \<in> set rows \<Longrightarrow> key r = k \<Longrightarrow> \<not> P r"
  shows "row_by key k (filter P rows) = None"
  using assms by (induction rows) auto

lemma length_update_where [simp]: "length (update_where P f rows) = length rows"
  by (simp add: update_where_def)

lemma update_where_none:
  "(\<And>r. r \<in> set rows \<Longrightarrow> \<not> P r) \<Longrightarrow> update_where P f rows = rows"
  by (induction rows) (auto simp: update_where_def)

subsection \<open>Runs\<close>

text \<open>
  A component with several goroutines, or several copies of it, is a partial step function on its state:
  an event names the one that moves next and what its environment does; \<open>None\<close> means that this
  cannot happen now. A run is a list of events. \<open>step_invariant\<close> is what a component owes for an
  invariant to hold in all its runs.
\<close>

fun run_steps :: "('e \<Rightarrow> 's \<Rightarrow> 's option) \<Rightarrow> 'e list \<Rightarrow> 's \<Rightarrow> 's option" where
  "run_steps step [] s = Some s"
| "run_steps step (e # es) s = Option.bind (step e s) (run_steps step es)"

lemma run_steps_append:
  "run_steps step (ds @ es) s = Option.bind (run_steps step ds s) (run_steps step es)"
  by (induction ds arbitrary: s) (simp_all split: Option.bind_split)

locale step_invariant =
  fixes step :: "'e \<Rightarrow> 's \<Rightarrow> 's option" and inv :: "'s \<Rightarrow> bool"
  assumes step_keeps: "inv s \<Longrightarrow> step e s = Some s' \<Longrightarrow> inv s'"
begin

lemma run_keeps: "run_steps step es s = Some s' \<Longrightarrow> inv s \<Longrightarrow> inv s'"
  by (induction es arbitrary: s) (auto simp: bind_eq_Some_conv intro: step_keeps)

end

end
