(* ===== verification/Migrations.thy ===== *)
theory Migrations
  imports Prelude "HOL-Library.List_Lexorder" "HOL-Library.Char_ord"
begin

section \<open>Migrations of the database\<close>

text \<open>
  \<^verbatim>\<open>internal/postgres/database.go\<close>: \<open>Open\<close> and \<open>Migrate\<close>. Any number of API processes start against
  one database; each runs \<open>Migrate\<close>, one statement at a time, and their statements interleave. A
  statement can fail, a session can be lost between any two statements (the server then drops its
  open transaction and its advisory lock), and a commit can take effect although its reply is lost.
  Shown: in all such runs the schema is what the first \<open>n\<close> migrations in the order of their names
  make, the table \<open>schema_migrations\<close> lists exactly these, and a call that returns without an error
  has \<open>n\<close> at the number of all migrations.

  What the server makes of the text of a migration is a parameter: \<open>exec\<close> maps the text and the schema
  to the new schema, or to \<open>None\<close> for an error. The names of a directory are distinct.
\<close>

subsection \<open>The embedded files\<close>

record 'q dir_entry =
  de_name :: string
  de_is_dir :: bool
  de_content :: 'q

definition sorted_entries :: "'q dir_entry list \<Rightarrow> 'q dir_entry list" where
  "sorted_entries files = sort_key de_name files"

definition migrations :: "'q dir_entry list \<Rightarrow> 'q dir_entry list" where
  "migrations files = filter (\<lambda>x. \<not> de_is_dir x) (sorted_entries files)"

subsection \<open>A call of Migrate\<close>

text \<open>
  The statement a call stands before. The entries still to come are an argument; \<open>Unlocking\<close> and
  \<open>Releasing\<close> are the deferred statements, with the result the call is going to return.
\<close>

datatype 'q migrator =
    Acquiring
  | Locking
  | Creating
  | Reading
  | Checking "'q dir_entry list"
  | Loading "'q dir_entry" "'q dir_entry list"
  | Beginning "'q dir_entry" "'q dir_entry list"
  | Applying "'q dir_entry" "'q dir_entry list"
  | Recording "'q dir_entry" "'q dir_entry list"
  | Committing "'q dir_entry" "'q dir_entry list"
  | RollingBack go_error
  | Unlocking "go_error + unit"
  | Releasing "go_error + unit"
  | Returned "go_error + unit"

text \<open>
  The server and its sessions: the holder of the advisory lock, the rows of \<open>schema_migrations\<close>
  (\<open>None\<close>: no such table), the schema, the working copy of each session's open transaction, the
  sessions that are lost, and the calls.
\<close>

record ('q, 's) cluster =
  cl_lock :: "nat option"
  cl_table :: "string list option"
  cl_schema :: 's
  cl_tx :: "nat \<Rightarrow> (string list \<times> 's) option"
  cl_lost :: "nat set"
  cl_calls :: "nat \<Rightarrow> 'q migrator option"

definition cl_applied :: "('q, 's) cluster \<Rightarrow> string list" where
  "cl_applied s = (case cl_table s of None \<Rightarrow> [] | Some names \<Rightarrow> names)"

definition go_to :: "nat \<Rightarrow> 'q migrator \<Rightarrow> ('q, 's) cluster \<Rightarrow> ('q, 's) cluster" where
  "go_to p c s = s\<lparr>cl_calls := (cl_calls s)(p \<mapsto> c)\<rparr>"

definition set_tx :: "nat \<Rightarrow> (string list \<times> 's) option \<Rightarrow> ('q, 's) cluster \<Rightarrow> ('q, 's) cluster" where
  "set_tx p t s = s\<lparr>cl_tx := (cl_tx s)(p := t)\<rparr>"

text \<open>The session ends, on either side.\<close>

definition drop_session :: "nat \<Rightarrow> ('q, 's) cluster \<Rightarrow> ('q, 's) cluster" where
  "drop_session p s = set_tx p None
     (s\<lparr>cl_lost := insert p (cl_lost s), cl_lock := (if cl_lock s = Some p then None else cl_lock s)\<rparr>)"

definition commit_tx :: "nat \<Rightarrow> ('q, 's) cluster \<Rightarrow> ('q, 's) cluster" where
  "commit_tx p s = (case cl_tx s p of
       None \<Rightarrow> s
     | Some (names, schema) \<Rightarrow> set_tx p None (s\<lparr>cl_table := Some names, cl_schema := schema\<rparr>))"

text \<open>A statement of the call fails with \<open>err\<close>.\<close>

fun stmt_failed :: "nat \<Rightarrow> go_error \<Rightarrow> 'q migrator \<Rightarrow> ('q, 's) cluster \<Rightarrow> ('q, 's) cluster option" where
  "stmt_failed p err Acquiring s = Some (go_to p (Returned (Inl (Wrapped ''acquire migration connection'' err))) s)"
| "stmt_failed p err Locking s = Some (go_to p (Releasing (Inl (Wrapped ''lock migrations'' err))) s)"
| "stmt_failed p err Creating s = Some (go_to p (Unlocking (Inl (Wrapped ''create migration table'' err))) s)"
| "stmt_failed p err Reading s = Some (go_to p (Unlocking (Inl (Wrapped ''read migrations'' err))) s)"
| "stmt_failed p err (Checking []) s = None"
| "stmt_failed p err (Checking (x # xs)) s =
     (if de_is_dir x then None
      else Some (go_to p (Unlocking (Inl (Wrapped (''check migration '' @ de_name x) err))) s))"
| "stmt_failed p err (Loading x xs) s = Some (go_to p (Unlocking (Inl (Wrapped (''read migration '' @ de_name x) err))) s)"
| "stmt_failed p err (Beginning x xs) s = Some (go_to p (Unlocking (Inl (Wrapped (''begin migration '' @ de_name x) err))) s)"
| "stmt_failed p err (Applying x xs) s = Some (go_to p (RollingBack (Wrapped (''apply migration '' @ de_name x) err)) s)"
| "stmt_failed p err (Recording x xs) s = Some (go_to p (RollingBack (Wrapped (''record migration '' @ de_name x) err)) s)"
| "stmt_failed p err (Committing x xs) s =
     Some (go_to p (Unlocking (Inl (Wrapped (''commit migration '' @ de_name x) err))) (set_tx p None s))"
| "stmt_failed p err (RollingBack e) s = Some (go_to p (Unlocking (Inl e)) (drop_session p s))"
| "stmt_failed p err (Unlocking r) s = Some (go_to p (Releasing r) s)"
| "stmt_failed p err (Releasing r) s = None"
| "stmt_failed p err (Returned r) s = None"

text \<open>
  The next statement of the call is carried out; \<open>None\<close> when it cannot be: the session is lost, the
  lock is held by another one, or the call has returned.
\<close>

fun done_stmt ::
  "('q \<Rightarrow> 's \<Rightarrow> 's option) \<Rightarrow> 'q dir_entry list \<Rightarrow> nat \<Rightarrow> 'q migrator \<Rightarrow> ('q, 's) cluster \<Rightarrow> ('q, 's) cluster option"
where
  "done_stmt exec files p Acquiring s = Some (go_to p Locking s)"
| "done_stmt exec files p Locking s =
     (if p \<in> cl_lost s \<or> cl_lock s \<notin> {None, Some p} then None
      else Some (go_to p Creating (s\<lparr>cl_lock := Some p\<rparr>)))"
| "done_stmt exec files p Creating s =
     (if p \<in> cl_lost s then None
      else Some (go_to p Reading (s\<lparr>cl_table := Some (cl_applied s)\<rparr>)))"
| "done_stmt exec files p Reading s = Some (go_to p (Checking (sorted_entries files)) s)"
| "done_stmt exec files p (Checking []) s = Some (go_to p (Unlocking (Inr ())) s)"
| "done_stmt exec files p (Checking (x # xs)) s =
     (if de_is_dir x then Some (go_to p (Checking xs) s)
      else if p \<in> cl_lost s then None
      else if de_name x \<in> set (cl_applied s) then Some (go_to p (Checking xs) s)
      else Some (go_to p (Loading x xs) s))"
| "done_stmt exec files p (Loading x xs) s = Some (go_to p (Beginning x xs) s)"
| "done_stmt exec files p (Beginning x xs) s =
     (if p \<in> cl_lost s then None
      else Some (go_to p (Applying x xs) (set_tx p (Some (cl_applied s, cl_schema s)) s)))"
| "done_stmt exec files p (Applying x xs) s =
     (if p \<in> cl_lost s then None
      else case cl_tx s p of
        None \<Rightarrow> None
      | Some (names, schema) \<Rightarrow>
          (case exec (de_content x) schema of
             None \<Rightarrow> stmt_failed p ErrConstraint (Applying x xs) s
           | Some schema' \<Rightarrow> Some (go_to p (Recording x xs) (set_tx p (Some (names, schema')) s))))"
| "done_stmt exec files p (Recording x xs) s =
     (if p \<in> cl_lost s then None
      else case cl_tx s p of
        None \<Rightarrow> None
      | Some (names, schema) \<Rightarrow>
          (if de_name x \<in> set names then stmt_failed p ErrConstraint (Recording x xs) s
           else Some (go_to p (Committing x xs) (set_tx p (Some (names @ [de_name x], schema)) s))))"
| "done_stmt exec files p (Committing x xs) s =
     (if p \<in> cl_lost s then None else Some (go_to p (Checking xs) (commit_tx p s)))"
| "done_stmt exec files p (RollingBack e) s =
     (if p \<in> cl_lost s then None else Some (go_to p (Unlocking (Inl e)) (set_tx p None s)))"
| "done_stmt exec files p (Unlocking r) s =
     (if p \<in> cl_lost s then None
      else Some (go_to p (Releasing r) (if cl_lock s = Some p then s\<lparr>cl_lock := None\<rparr> else s)))"
| "done_stmt exec files p (Releasing r) s = Some (go_to p (Returned r) s)"
| "done_stmt exec files p (Returned r) s = None"

text \<open>
  \<open>Start\<close>: a process calls \<open>Migrate\<close>. \<open>Done\<close> and \<open>Fail\<close>: its next statement. \<open>Landed\<close>: the server
  commits, the session ends, and the process sees an error. \<open>Drop\<close>: the session ends.
\<close>

datatype mg_event = Start nat | Done nat | Fail nat go_error | Landed nat go_error | Drop nat

fun mg_step ::
  "('q \<Rightarrow> 's \<Rightarrow> 's option) \<Rightarrow> 'q dir_entry list \<Rightarrow> mg_event \<Rightarrow> ('q, 's) cluster \<Rightarrow> ('q, 's) cluster option"
where
  "mg_step exec files (Start p) s = (if cl_calls s p = None then Some (go_to p Acquiring s) else None)"
| "mg_step exec files (Done p) s = Option.bind (cl_calls s p) (\<lambda>c. done_stmt exec files p c s)"
| "mg_step exec files (Fail p err) s = Option.bind (cl_calls s p) (\<lambda>c. stmt_failed p err c s)"
| "mg_step exec files (Landed p err) s =
     (case cl_calls s p of
        Some (Committing x xs) \<Rightarrow>
          if p \<in> cl_lost s then None
          else stmt_failed p err (Committing x xs) (drop_session p (commit_tx p s))
      | _ \<Rightarrow> None)"
| "mg_step exec files (Drop p) s = Some (drop_session p s)"

abbreviation mg_run ::
  "('q \<Rightarrow> 's \<Rightarrow> 's option) \<Rightarrow> 'q dir_entry list \<Rightarrow> mg_event list \<Rightarrow> ('q, 's) cluster \<Rightarrow> ('q, 's) cluster option"
where
  "mg_run exec files \<equiv> run_steps (mg_step exec files)"

text \<open>A database no version of the program has touched.\<close>

definition new_cluster :: "'s \<Rightarrow> ('q, 's) cluster" where
  "new_cluster s0 = \<lparr>cl_lock = None, cl_table = None, cl_schema = s0, cl_tx = (\<lambda>_. None), cl_lost = {},
     cl_calls = (\<lambda>_. None)\<rparr>"

text \<open>What the migrations make of a schema, one after the other.\<close>

fun exec_all :: "('q \<Rightarrow> 's \<Rightarrow> 's option) \<Rightarrow> 'q list \<Rightarrow> 's \<Rightarrow> 's option" where
  "exec_all exec [] s = Some s"
| "exec_all exec (q # qs) s = Option.bind (exec q s) (exec_all exec qs)"

lemma exec_all_snoc: "exec_all exec (qs @ [q]) s = Option.bind (exec_all exec qs s) (exec q)"
  by (induction qs arbitrary: s) (simp_all add: bind_eq_Some_conv split: Option.bind_split)


subsection \<open>The invariant\<close>

text \<open>
  The schema is what a prefix of the migrations makes. A call that is past its \<open>Locking\<close> holds the
  lock as long as its session lives; every migration before the entries still to come is recorded; and
  the working copy of its transaction is the schema with the migration at hand.
\<close>

definition schema_at :: "('q \<Rightarrow> 's \<Rightarrow> 's option) \<Rightarrow> 'q dir_entry list \<Rightarrow> 's \<Rightarrow> nat \<Rightarrow> ('q, 's) cluster \<Rightarrow> bool" where
  "schema_at exec files s0 n s \<longleftrightarrow> n \<le> length (migrations files) \<and>
     cl_applied s = take n (map de_name (migrations files)) \<and>
     exec_all exec (take n (map de_content (migrations files))) s0 = Some (cl_schema s)"

definition holds_lock :: "('q, 's) cluster \<Rightarrow> nat \<Rightarrow> bool" where
  "holds_lock s p \<longleftrightarrow> p \<notin> cl_lost s \<longrightarrow> cl_lock s = Some p"

definition progress :: "'q dir_entry list \<Rightarrow> ('q, 's) cluster \<Rightarrow> 'q dir_entry list \<Rightarrow> bool" where
  "progress files s es \<longleftrightarrow> (\<exists>past. sorted_entries files = past @ es \<and>
     de_name ` set (filter (\<lambda>x. \<not> de_is_dir x) past) \<subseteq> set (cl_applied s))"

definition at_entry ::
  "'q dir_entry list \<Rightarrow> ('q, 's) cluster \<Rightarrow> nat \<Rightarrow> 'q dir_entry \<Rightarrow> 'q dir_entry list \<Rightarrow> bool" where
  "at_entry files s p x xs \<longleftrightarrow> holds_lock s p \<and> progress files s (x # xs) \<and> \<not> de_is_dir x \<and>
     (p \<notin> cl_lost s \<longrightarrow> de_name x \<notin> set (cl_applied s))"

fun call_ok ::
  "('q \<Rightarrow> 's \<Rightarrow> 's option) \<Rightarrow> 'q dir_entry list \<Rightarrow> ('q, 's) cluster \<Rightarrow> nat \<Rightarrow> 'q migrator \<Rightarrow> bool"
where
  "call_ok exec files s p Acquiring = True"
| "call_ok exec files s p Locking = True"
| "call_ok exec files s p Creating = holds_lock s p"
| "call_ok exec files s p Reading = holds_lock s p"
| "call_ok exec files s p (Checking es) = (holds_lock s p \<and> progress files s es)"
| "call_ok exec files s p (Loading x xs) = at_entry files s p x xs"
| "call_ok exec files s p (Beginning x xs) = at_entry files s p x xs"
| "call_ok exec files s p (Applying x xs) =
     (at_entry files s p x xs \<and> (p \<notin> cl_lost s \<longrightarrow> cl_tx s p = Some (cl_applied s, cl_schema s)))"
| "call_ok exec files s p (Recording x xs) =
     (at_entry files s p x xs \<and> (p \<notin> cl_lost s \<longrightarrow>
        (\<exists>t. exec (de_content x) (cl_schema s) = Some t \<and> cl_tx s p = Some (cl_applied s, t))))"
| "call_ok exec files s p (Committing x xs) =
     (at_entry files s p x xs \<and> (p \<notin> cl_lost s \<longrightarrow>
        (\<exists>t. exec (de_content x) (cl_schema s) = Some t \<and> cl_tx s p = Some (cl_applied s @ [de_name x], t))))"
| "call_ok exec files s p (RollingBack e) = holds_lock s p"
| "call_ok exec files s p (Unlocking r) = (holds_lock s p \<and> (r = Inr () \<longrightarrow> progress files s []))"
| "call_ok exec files s p (Releasing r) = (r = Inr () \<longrightarrow> progress files s [])"
| "call_ok exec files s p (Returned r) = (r = Inr () \<longrightarrow> progress files s [])"

definition mg_inv :: "('q \<Rightarrow> 's \<Rightarrow> 's option) \<Rightarrow> 'q dir_entry list \<Rightarrow> 's \<Rightarrow> ('q, 's) cluster \<Rightarrow> bool" where
  "mg_inv exec files s0 s \<longleftrightarrow> (\<exists>n. schema_at exec files s0 n s) \<and>
     (\<forall>p c. cl_calls s p = Some c \<longrightarrow> call_ok exec files s p c)"

lemma mg_inv_call: "mg_inv exec files s0 s \<Longrightarrow> cl_calls s p = Some c \<Longrightarrow> call_ok exec files s p c"
  by (simp add: mg_inv_def)

named_theorems cluster_simps \<open>the parts of a cluster after an update\<close>

lemma go_to_simps [cluster_simps, simp]:
  "cl_lock (go_to p c s) = cl_lock s" "cl_table (go_to p c s) = cl_table s"
  "cl_schema (go_to p c s) = cl_schema s" "cl_tx (go_to p c s) = cl_tx s"
  "cl_lost (go_to p c s) = cl_lost s" "cl_calls (go_to p c s) = (cl_calls s)(p \<mapsto> c)"
  "cl_applied (go_to p c s) = cl_applied s"
  by (simp_all add: go_to_def cl_applied_def)

lemma set_tx_simps [cluster_simps, simp]:
  "cl_lock (set_tx p t s) = cl_lock s" "cl_table (set_tx p t s) = cl_table s"
  "cl_schema (set_tx p t s) = cl_schema s" "cl_tx (set_tx p t s) = (cl_tx s)(p := t)"
  "cl_lost (set_tx p t s) = cl_lost s" "cl_calls (set_tx p t s) = cl_calls s"
  "cl_applied (set_tx p t s) = cl_applied s"
  by (simp_all add: set_tx_def cl_applied_def)

lemma drop_session_simps [cluster_simps, simp]:
  "cl_lock (drop_session p s) = (if cl_lock s = Some p then None else cl_lock s)"
  "cl_table (drop_session p s) = cl_table s" "cl_schema (drop_session p s) = cl_schema s"
  "cl_tx (drop_session p s) = (cl_tx s)(p := None)" "cl_lost (drop_session p s) = insert p (cl_lost s)"
  "cl_calls (drop_session p s) = cl_calls s" "cl_applied (drop_session p s) = cl_applied s"
  by (simp_all add: drop_session_def cl_applied_def)

lemma commit_tx_simps [cluster_simps, simp]:
  "cl_lock (commit_tx p s) = cl_lock s" "cl_lost (commit_tx p s) = cl_lost s" "cl_calls (commit_tx p s) = cl_calls s"
  by (simp_all add: commit_tx_def set_tx_def split: option.split)

lemma commit_tx_Some:
  "cl_tx s p = Some (names, t) \<Longrightarrow>
   cl_applied (commit_tx p s) = names \<and> cl_schema (commit_tx p s) = t \<and> cl_tx (commit_tx p s) = (cl_tx s)(p := None)"
  by (simp add: commit_tx_def cl_applied_def)

lemma lock_update_simps [cluster_simps, simp]: "cl_applied (s\<lparr>cl_lock := l\<rparr>) = cl_applied s"
  "cl_applied (s\<lparr>cl_table := Some names\<rparr>) = names"
  by (simp_all add: cl_applied_def)

text \<open>What other sessions do keeps the condition of a call.\<close>

lemma progress_mono: "progress files s es \<Longrightarrow> set (cl_applied s) \<subseteq> set (cl_applied s') \<Longrightarrow> progress files s' es"
  by (auto simp: progress_def)

lemma call_ok_frame:
  assumes "call_ok exec files s q c" "set (cl_applied s) \<subseteq> set (cl_applied s')" "cl_lost s \<subseteq> cl_lost s'"
    and "q \<notin> cl_lost s' \<Longrightarrow> cl_lock s = Some q \<Longrightarrow>
      cl_lock s' = Some q \<and> cl_applied s' = cl_applied s \<and> cl_schema s' = cl_schema s \<and> cl_tx s' q = cl_tx s q"
  shows "call_ok exec files s' q c"
proof -
  note mono = progress_mono [OF _ assms(2)]
  have lock: "holds_lock s q \<Longrightarrow> holds_lock s' q"
    using assms(3,4) by (auto simp: holds_lock_def)
  have entry: "at_entry files s q x xs \<Longrightarrow> at_entry files s' q x xs" for x xs
    using assms(3,4) lock mono by (auto simp: at_entry_def holds_lock_def)
  from assms(1) show ?thesis
    using assms(3,4) lock mono entry by (cases c) (auto simp: at_entry_def holds_lock_def)
qed


lemma quiet_move:
  assumes inv: "mg_inv exec files s0 s"
    and same: "cl_calls s' = (cl_calls s)(p \<mapsto> c)" "cl_applied s' = cl_applied s" "cl_schema s' = cl_schema s"
    and lost: "cl_lost s \<subseteq> cl_lost s'"
    and others: "\<And>q. q \<noteq> p \<Longrightarrow> cl_tx s' q = cl_tx s q" "\<And>q. q \<noteq> p \<Longrightarrow> cl_lock s = Some q \<Longrightarrow> cl_lock s' = Some q"
    and ok: "call_ok exec files s' p c"
  shows "mg_inv exec files s0 s'"
proof -
  have "call_ok exec files s' q d" if "q \<noteq> p" "cl_calls s q = Some d" for q d
    by (rule call_ok_frame [of exec files s]) (use inv that same lost others in \<open>auto simp: mg_inv_def\<close>)
  with inv same ok show ?thesis by (auto simp: mg_inv_def schema_at_def)
qed

text \<open>What a statement other than a commit does to the cluster.\<close>

definition quiet_stmt :: "nat \<Rightarrow> ('q, 's) cluster \<Rightarrow> ('q, 's) cluster \<Rightarrow> bool" where
  "quiet_stmt p s t \<longleftrightarrow> cl_calls t = cl_calls s \<and> cl_applied t = cl_applied s \<and> cl_schema t = cl_schema s \<and>
     cl_lost s \<subseteq> cl_lost t \<and>
     (\<forall>q. q \<noteq> p \<longrightarrow> cl_tx t q = cl_tx s q \<and> (cl_lock s = Some q \<longrightarrow> cl_lock t = Some q))"

lemma quiet_stmt_intros [simp, intro]:
  "quiet_stmt p s s" "quiet_stmt p s (set_tx p u s)" "quiet_stmt p s (drop_session p s)"
  "quiet_stmt p s (s\<lparr>cl_table := Some (cl_applied s)\<rparr>)"
  "cl_lock s = None \<or> cl_lock s = Some p \<Longrightarrow> quiet_stmt p s (s\<lparr>cl_lock := l\<rparr>)"
  by (auto simp: quiet_stmt_def cl_applied_def)

lemma quiet_go_to:
  assumes "mg_inv exec files s0 s" "quiet_stmt p s t" "call_ok exec files (go_to p d t) p d"
  shows "mg_inv exec files s0 (go_to p d t)"
  by (rule quiet_move [OF assms(1) _ _ _ _ _ _ assms(3)]) (use assms(2) in \<open>auto simp: quiet_stmt_def\<close>)

lemmas call_simps = at_entry_def holds_lock_def progress_def

lemma failed_inv:
  assumes inv: "mg_inv exec files s0 s" and c: "cl_calls s p = Some c" and step: "stmt_failed p err c s = Some s'"
  shows "mg_inv exec files s0 s'"
proof -
  note mg_inv_call [OF inv c]
  with step show ?thesis
    by (cases "(p, err, c, s)" rule: stmt_failed.cases)
      (auto intro!: quiet_go_to [OF inv] simp: call_simps split: if_splits)
qed

text \<open>The entry of a live call is the first migration that is not recorded.\<close>

lemma entry_is_next:
  assumes at: "schema_at exec files s0 n s" and entry: "at_entry files s p x xs" and live: "p \<notin> cl_lost s"
    and names: "distinct (map de_name files)"
  shows "n < length (migrations files)" "migrations files ! n = x"
proof -
  let ?keep = "filter (\<lambda>x. \<not> de_is_dir x)"
  from entry obtain past where past: "sorted_entries files = past @ x # xs"
      "de_name ` set (?keep past) \<subseteq> set (cl_applied s)" "\<not> de_is_dir x"
    by (auto simp: at_entry_def progress_def)
  have ms: "migrations files = ?keep past @ x # ?keep xs"
    using past by (simp add: migrations_def)
  have dist: "distinct (map de_name (migrations files))"
    using names unfolding migrations_def sorted_entries_def
    by (auto simp: distinct_map intro: inj_on_subset)
  have applied: "set (cl_applied s) = de_name ` set (take n (migrations files))"
    using at by (simp add: schema_at_def take_map)
  have fresh: "de_name x \<notin> de_name ` set (take n (migrations files))"
    using entry live applied by (simp add: at_entry_def)
  let ?k = "length (?keep past)"
  have "n \<le> ?k"
  proof (rule ccontr)
    assume "\<not> n \<le> ?k"
    then have "x \<in> set (take n (migrations files))"
      by (auto simp: ms take_Cons' not_le)
    with fresh show False by blast
  qed
  moreover have "?k \<le> n"
  proof (rule ccontr)
    assume "\<not> ?k \<le> n"
    then have n: "n < ?k" by simp
    then have "de_name (?keep past ! n) \<in> de_name ` set (take n (?keep past))"
      using past(2) applied by (auto simp: ms dest!: nth_mem)
    then obtain i where i: "i < n" "de_name (?keep past ! i) = de_name (?keep past ! n)"
      using n by (auto simp: in_set_conv_nth)
    moreover have "distinct (map de_name (?keep past))" using dist by (simp add: ms)
    ultimately show False using nth_eq_iff_index_eq [of "map de_name (?keep past)" i n] n by simp
  qed
  ultimately have "n = ?k" by simp
  then show "n < length (migrations files)" "migrations files ! n = x" by (simp_all add: ms)
qed


lemma commit_inv:
  assumes inv: "mg_inv exec files s0 s" and names: "distinct (map de_name files)"
    and c: "cl_calls s p = Some (Committing x xs)" and live: "p \<notin> cl_lost s"
    and t: "t = commit_tx p s \<or> t = drop_session p (commit_tx p s)"
    and d: "d = Checking xs \<or> d = Unlocking (Inl err)"
  shows "mg_inv exec files s0 (go_to p d t)"
proof -
  obtain n where at: "schema_at exec files s0 n s" using inv by (auto simp: mg_inv_def)
  note mg_inv_call [OF inv c]
  then obtain v where entry: "at_entry files s p x xs" and v: "exec (de_content x) (cl_schema s) = Some v"
      "cl_tx s p = Some (cl_applied s @ [de_name x], v)"
    using live by auto
  note next_entry = entry_is_next [OF at entry live names]
  have lock: "cl_lock s = Some p" using entry live by (simp add: at_entry_def holds_lock_def)
  have t': "cl_applied t = cl_applied s @ [de_name x]" "cl_schema t = v" "cl_calls t = cl_calls s"
      "cl_lost s \<subseteq> cl_lost t" "p \<notin> cl_lost t \<Longrightarrow> cl_lock t = Some p"
    using t lock commit_tx_Some [OF v(2)] by auto
  have "schema_at exec files s0 (Suc n) (go_to p d t)"
    using at next_entry v(1) t' by (simp add: schema_at_def take_Suc_conv_app_nth exec_all_snoc)
  moreover have "call_ok exec files (go_to p d t) p d"
    using d entry t' by (fastforce simp: call_simps)
  moreover have "call_ok exec files (go_to p d t) q b" if "q \<noteq> p" "cl_calls s q = Some b" for q b
    by (rule call_ok_frame [of exec files s]) (use inv that t' lock in \<open>auto simp: mg_inv_def\<close>)
  ultimately show ?thesis using t' by (auto simp: mg_inv_def)
qed

lemma done_inv:
  assumes inv: "mg_inv exec files s0 s" and names: "distinct (map de_name files)"
    and c: "cl_calls s p = Some c" and step: "done_stmt exec files p c s = Some s'"
  shows "mg_inv exec files s0 s'"
proof (cases "\<exists>x xs. c = Committing x xs")
  case True
  with step c show ?thesis by (auto intro!: commit_inv [OF inv names] split: if_splits)
next
  case False
  note mg_inv_call [OF inv c]
  with step False show ?thesis
    by (cases "(exec, files, p, c, s)" rule: done_stmt.cases)
      (auto intro!: quiet_go_to [OF inv] simp: call_simps image_subset_iff split: if_splits option.splits)
qed

lemma mg_step_inv:
  assumes inv: "mg_inv exec files s0 s" and names: "distinct (map de_name files)"
    and step: "mg_step exec files e s = Some s'"
  shows "mg_inv exec files s0 s'"
proof (cases e)
  case (Start p)
  with step show ?thesis by (auto intro!: quiet_go_to [OF inv] split: if_splits)
next
  case (Done p)
  with step show ?thesis by (auto simp: bind_eq_Some_conv intro: done_inv [OF inv names])
next
  case (Fail p err)
  with step show ?thesis by (auto simp: bind_eq_Some_conv intro: failed_inv [OF inv])
next
  case (Landed p err)
  with step obtain x xs where c: "cl_calls s p = Some (Committing x xs)" "p \<notin> cl_lost s"
      "stmt_failed p err (Committing x xs) (drop_session p (commit_tx p s)) = Some s'"
    by (auto split: option.splits migrator.splits if_splits)
  have "set_tx p None (drop_session p (commit_tx p s)) = drop_session p (commit_tx p s)"
    by (simp add: set_tx_def drop_session_def)
  with c show ?thesis by (auto intro: commit_inv [OF inv names c(1,2)])
next
  case (Drop p)
  have "call_ok exec files s' q c" if "cl_calls s q = Some c" for q c
    by (rule call_ok_frame [of exec files s]) (use inv that step Drop in \<open>auto simp: mg_inv_def\<close>)
  with step Drop inv show ?thesis by (auto simp: mg_inv_def schema_at_def)
qed

interpretation starts: step_invariant "mg_step exec files"
    "\<lambda>s. distinct (map de_name files) \<and> mg_inv exec files s0 s"
  for exec files s0
  by unfold_locales (blast intro: mg_step_inv)

lemma mg_run_inv:
  assumes "mg_run exec files es s = Some s'" "mg_inv exec files s0 s" "distinct (map de_name files)"
  shows "mg_inv exec files s0 s'"
  using conjunct2 [OF starts.run_keeps [OF assms(1) conjI [OF assms(3,2)]]] .

lemma mg_inv_new: "mg_inv exec files s0 (new_cluster s0)"
  by (auto simp: mg_inv_def schema_at_def new_cluster_def cl_applied_def intro!: exI [of _ 0])


text \<open>No entry is left to come only when all migrations are recorded.\<close>

lemma recorded_length:
  assumes "progress files s []" "schema_at exec files s0 n s" "distinct (map de_name files)"
  shows "n = length (migrations files)"
proof -
  let ?names = "map de_name (migrations files)"
  have "set ?names \<subseteq> set (take n ?names)"
    using assms(1,2) by (auto simp: progress_def schema_at_def migrations_def)
  moreover have "distinct ?names"
    using assms(3) unfolding migrations_def sorted_entries_def
    by (auto simp: distinct_map intro: inj_on_subset)
  ultimately have "card (set ?names) \<le> card (set (take n ?names))" "distinct (take n ?names)"
    by (auto intro: card_mono)
  with \<open>distinct ?names\<close> have "length ?names \<le> length (take n ?names)" by (simp only: distinct_card)
  with assms(2) show ?thesis by (simp add: schema_at_def)
qed

lemma all_recorded:
  assumes "progress files s []" "schema_at exec files s0 n s" "distinct (map de_name files)"
  shows "cl_applied s = map de_name (migrations files)"
  using recorded_length [OF assms] assms(2) by (simp add: schema_at_def)

subsection \<open>The schema is what a prefix of the migrations makes\<close>

text \<open>
  C7. Migrations are applied once and in order. However many processes start against one database, and
  however their statements interleave, fail, lose their session or commit without hearing of it: the
  table of the migrations lists exactly the first \<open>n\<close> in the order of their names, the schema is what
  these \<open>n\<close> make of the schema before, one after the other, and a call returns without an error only
  when these are all migrations.
\<close>

theorem migrations_in_order:
  assumes "mg_run exec files es (new_cluster s0) = Some s" "distinct (map de_name files)"
  shows "\<exists>n \<le> length (migrations files).
    cl_applied s = take n (map de_name (migrations files)) \<and>
    exec_all exec (take n (map de_content (migrations files))) s0 = Some (cl_schema s) \<and>
    ((\<exists>p. cl_calls s p = Some (Returned (Inr ()))) \<longrightarrow> n = length (migrations files))"
proof -
  have inv: "mg_inv exec files s0 s" by (rule mg_run_inv [OF assms(1) mg_inv_new assms(2)])
  then obtain n where at: "schema_at exec files s0 n s" by (auto simp: mg_inv_def)
  have "n = length (migrations files)" if "cl_calls s p = Some (Returned (Inr ()))" for p
    using mg_inv_call [OF inv that] recorded_length [OF _ at assms(2)] by simp
  with at show ?thesis by (auto simp: schema_at_def)
qed

subsection \<open>A call ends\<close>

text \<open>How many statements are left to a call at most.\<close>

fun moves_left :: "'q dir_entry list \<Rightarrow> 'q migrator \<Rightarrow> nat" where
  "moves_left files Acquiring = 7 + 6 * length files"
| "moves_left files Locking = 6 + 6 * length files"
| "moves_left files Creating = 5 + 6 * length files"
| "moves_left files Reading = 4 + 6 * length files"
| "moves_left files (Checking es) = 3 + 6 * length es"
| "moves_left files (Loading x xs) = 8 + 6 * length xs"
| "moves_left files (Beginning x xs) = 7 + 6 * length xs"
| "moves_left files (Applying x xs) = 6 + 6 * length xs"
| "moves_left files (Recording x xs) = 5 + 6 * length xs"
| "moves_left files (Committing x xs) = 4 + 6 * length xs"
| "moves_left files (RollingBack e) = 3"
| "moves_left files (Unlocking r) = 2"
| "moves_left files (Releasing r) = 1"
| "moves_left files (Returned r) = 0"

lemma failed_moves:
  assumes "stmt_failed p err c s = Some s'"
  obtains d where "cl_calls s' = (cl_calls s)(p \<mapsto> d)" "moves_left files d < moves_left files c"
  using assms by (cases "(p, err, c, s)" rule: stmt_failed.cases) (auto split: if_splits)

lemma done_moves:
  assumes "done_stmt exec files p c s = Some s'"
  obtains d where "cl_calls s' = (cl_calls s)(p \<mapsto> d)" "moves_left files d < moves_left files c"
  using assms
  by (cases "(exec, files, p, c, s)" rule: done_stmt.cases)
    (auto simp: sorted_entries_def split: if_splits option.splits)

fun moves :: "nat \<Rightarrow> mg_event \<Rightarrow> bool" where
  "moves p (Done q) = (p = q)"
| "moves p (Fail q err) = (p = q)"
| "moves p (Landed q err) = (p = q)"
| "moves p _ = False"

lemma step_moves:
  assumes "mg_step exec files e s = Some s'" "cl_calls s p = Some c"
  obtains d where "cl_calls s' p = Some d"
    "moves_left files d + (if moves p e then 1 else 0) \<le> moves_left files c"
proof (cases e)
  case (Done q)
  with assms show ?thesis
    by (cases "q = p") (auto simp: bind_eq_Some_conv elim!: done_moves intro: that)
next
  case (Fail q err)
  with assms show ?thesis
    by (cases "q = p") (auto simp: bind_eq_Some_conv elim!: failed_moves [where files = files] intro: that)
next
  case (Landed q err)
  with assms show ?thesis
    by (cases "q = p") (auto split: option.splits migrator.splits if_splits intro: that)
next
  case (Start q)
  with assms show ?thesis by (cases "q = p") (auto split: if_splits intro: that)
next
  case (Drop q)
  with assms show ?thesis by (auto intro: that)
qed

lemma run_moves:
  "mg_run exec files es s = Some s' \<Longrightarrow> cl_calls s p = Some c \<Longrightarrow>
   length (filter (moves p) es) \<le> moves_left files c"
proof (induction es arbitrary: s c)
  case (Cons e es)
  then obtain t where t: "mg_step exec files e s = Some t" "mg_run exec files es t = Some s'"
    by (auto simp: bind_eq_Some_conv)
  obtain d where "cl_calls t p = Some d" "moves_left files d + (if moves p e then 1 else 0) \<le> moves_left files c"
    by (rule step_moves [OF t(1) Cons.prems(2)])
  with Cons.IH [OF t(2), of d] show ?case by (auto split: if_splits)
qed simp

text \<open>A call whose session lives and that no other session keeps waiting can go on.\<close>

lemma never_stuck:
  assumes "mg_inv exec files s0 s" "cl_calls s p = Some c" "p \<notin> cl_lost s" "cl_lock s \<in> {None, Some p}"
    and "\<And>r. c \<noteq> Returned r"
  shows "mg_step exec files (Done p) s \<noteq> None"
  using mg_inv_call [OF assms(1,2)] assms(2-5)
  by (cases "(exec, files, p, c, s)" rule: done_stmt.cases) (auto split: option.splits)


subsection \<open>A call that nothing disturbs completes\<close>

lemma exec_all_append: "exec_all exec (qs @ rs) s = Option.bind (exec_all exec qs s) (exec_all exec rs)"
  by (induction qs arbitrary: s) (simp_all split: Option.bind_split)

lemma entry_executes:
  assumes at: "schema_at exec files s0 n s" and entry: "at_entry files s p x xs" and live: "p \<notin> cl_lost s"
    and names: "distinct (map de_name files)"
    and good: "exec_all exec (map de_content (migrations files)) s0 \<noteq> None"
  shows "exec (de_content x) (cl_schema s) \<noteq> None"
proof -
  note next_entry = entry_is_next [OF at entry live names]
  let ?qs = "map de_content (migrations files)"
  have "exec_all exec (take (Suc n) ?qs @ drop (Suc n) ?qs) s0 \<noteq> None" using good by simp
  then have "exec_all exec (take (Suc n) ?qs) s0 \<noteq> None"
    unfolding exec_all_append by (auto simp: bind_eq_Some_conv)
  with at next_entry show ?thesis
    by (simp add: schema_at_def take_Suc_conv_app_nth exec_all_snoc)
qed

text \<open>A call no statement of which has failed.\<close>

fun unharmed :: "'q migrator \<Rightarrow> bool" where
  "unharmed (RollingBack e) = False"
| "unharmed (Unlocking r) = (r = Inr ())"
| "unharmed (Releasing r) = (r = Inr ())"
| "unharmed (Returned r) = (r = Inr ())"
| "unharmed _ = True"

lemma unharmed_step:
  assumes inv: "mg_inv exec files s0 s" and names: "distinct (map de_name files)"
    and good: "exec_all exec (map de_content (migrations files)) s0 \<noteq> None"
    and c: "cl_calls s p = Some c" "unharmed c" "p \<notin> cl_lost s" "cl_lock s \<in> {None, Some p}"
      "c \<noteq> Returned (Inr ())"
  obtains s' d where "mg_step exec files (Done p) s = Some s'" "cl_calls s' p = Some d" "unharmed d"
    "p \<notin> cl_lost s'" "cl_lock s' \<in> {None, Some p}"
proof -
  obtain n where at: "schema_at exec files s0 n s" using inv by (auto simp: mg_inv_def)
  have exec: "exec (de_content x) (cl_schema s) \<noteq> None" if "at_entry files s p x xs" for x xs
    by (rule entry_executes [OF at that c(3) names good])
  have entry: "de_name x \<notin> set (cl_applied s)" if "at_entry files s p x xs" for x xs
    using that c(3) by (simp add: at_entry_def)
  have "c \<noteq> Returned r" for r using c(2,5) by auto
  with never_stuck [OF inv c(1,3,4)] obtain s' where s': "mg_step exec files (Done p) s = Some s'" by blast
  then have "done_stmt exec files p c s = Some s'" using c(1) by simp
  then have "(\<exists>d. cl_calls s' p = Some d \<and> unharmed d) \<and> p \<notin> cl_lost s' \<and> cl_lock s' \<in> {None, Some p}"
    using mg_inv_call [OF inv c(1)] c(2,3,4) exec entry
    by (cases "(exec, files, p, c, s)" rule: done_stmt.cases)
      (force simp: split: if_splits option.splits)+
  with s' that show ?thesis by blast
qed

lemma unharmed_completes:
  assumes names: "distinct (map de_name files)"
    and good: "exec_all exec (map de_content (migrations files)) s0 \<noteq> None"
  shows "mg_inv exec files s0 s \<Longrightarrow> cl_calls s p = Some c \<Longrightarrow> unharmed c \<Longrightarrow> p \<notin> cl_lost s \<Longrightarrow>
    cl_lock s \<in> {None, Some p} \<Longrightarrow>
    \<exists>k s'. mg_run exec files (replicate k (Done p)) s = Some s' \<and> cl_calls s' p = Some (Returned (Inr ()))"
proof (induction "moves_left files c" arbitrary: s c rule: less_induct)
  case less
  show ?case
  proof (cases "c = Returned (Inr ())")
    case True
    with less.prems(2) have "mg_run exec files (replicate 0 (Done p)) s = Some s" by simp
    with True less.prems(2) show ?thesis by blast
  next
    case False
    obtain t d where t: "mg_step exec files (Done p) s = Some t" "cl_calls t p = Some d" "unharmed d"
      "p \<notin> cl_lost t" "cl_lock t \<in> {None, Some p}"
      using unharmed_step [OF less.prems(1) names good less.prems(2-5) False] .
    have "moves_left files d < moves_left files c"
      using step_moves [OF t(1) less.prems(2)] t(2) by fastforce
    from less.hyps [OF this mg_step_inv [OF less.prems(1) names t(1)] t(2-5)]
    obtain k s' where "mg_run exec files (replicate k (Done p)) t = Some s'"
        "cl_calls s' p = Some (Returned (Inr ()))" by blast
    then show ?thesis using t(1) by (intro exI [of _ "Suc k"]) auto
  qed
qed

text \<open>
  C16. A start that nothing disturbs completes: after any run of other starts, failed or lost ones
  included, a new call whose session lives and that finds the lock free returns without an error after at
  most \<open>7 + 6 * length files\<close> statements, if the migrations, one after the other, can be carried out at all.
\<close>

theorem migrate_completes:
  assumes "mg_run exec files es (new_cluster s0) = Some s" "distinct (map de_name files)"
    and "exec_all exec (map de_content (migrations files)) s0 \<noteq> None"
    and "cl_calls s p = None" "p \<notin> cl_lost s" "cl_lock s = None"
  shows "\<exists>k \<le> 7 + 6 * length files. \<exists>s'. mg_run exec files (Start p # replicate k (Done p)) s = Some s' \<and>
    cl_calls s' p = Some (Returned (Inr ())) \<and> cl_applied s' = map de_name (migrations files)"
proof -
  let ?s = "go_to p Acquiring s"
  have start: "mg_step exec files (Start p) s = Some ?s" using assms(4) by simp
  have inv: "mg_inv exec files s0 ?s"
    by (rule mg_step_inv [OF mg_run_inv [OF assms(1) mg_inv_new assms(2)] assms(2) start])
  obtain k s' where k: "mg_run exec files (replicate k (Done p)) ?s = Some s'"
      "cl_calls s' p = Some (Returned (Inr ()))"
    using unharmed_completes [OF assms(2,3) inv, of p Acquiring] assms(5,6) by auto
  have "progress files s' []"
    using mg_inv_call [OF mg_run_inv [OF k(1) inv assms(2)] k(2)] by simp
  moreover obtain n where "schema_at exec files s0 n s'"
    using mg_run_inv [OF k(1) inv assms(2)] by (auto simp: mg_inv_def)
  ultimately have "cl_applied s' = map de_name (migrations files)"
    by (rule all_recorded [OF _ _ assms(2)])
  moreover have "k \<le> 7 + 6 * length files"
    using run_moves [OF k(1), of p Acquiring] by simp
  ultimately show ?thesis using k start by (intro exI [of _ k]) auto
qed


subsection \<open>Worked examples\<close>

text \<open>Two migrations; the text of one names the object it adds, and an object exists only once.\<close>

definition sample_files :: "string dir_entry list" where
  "sample_files = [\<lparr>de_name = ''002.sql'', de_is_dir = False, de_content = ''messages''\<rparr>,
     \<lparr>de_name = ''001.sql'', de_is_dir = False, de_content = ''users''\<rparr>]"

definition sample_exec :: "string \<Rightarrow> string list \<Rightarrow> string list option" where
  "sample_exec q schema = (if q \<in> set schema then None else Some (schema @ [q]))"

text \<open>
  The first process migrates \<open>001.sql\<close>, commits \<open>002.sql\<close> without hearing of it, and fails; the second
  one waits for the lock and finds nothing left to do.
\<close>

definition sample_starts :: "mg_event list" where
  "sample_starts = [Start 0, Start 1, Done 1] @ replicate 15 (Done 0) @
     [Landed 0 ErrDeadlineExceeded, Fail 0 ErrDeadlineExceeded] @
     replicate 8 (Done 1)"

lemma sorted_sample: "sorted_entries sample_files = rev sample_files"
  by (simp add: sorted_entries_def sample_files_def less_eq_list_code)


lemma sample_starts_run:
  "map_option (\<lambda>s. (cl_applied s, cl_schema s, cl_calls s 1, cl_lock s, cl_calls s 2, cl_lost s))
     (mg_run sample_exec sample_files sample_starts (new_cluster [])) =
   Some ([''001.sql'', ''002.sql''], [''users'', ''messages''], Some (Returned (Inr ())), None, None, {0})"
  by (simp add: sample_starts_def new_cluster_def eval_nat_numeral sorted_sample [unfolded sample_files_def]
      sample_files_def sample_exec_def cl_applied_def go_to_def set_tx_def drop_session_def commit_tx_def)


lemma sample_good: "distinct (map de_name sample_files)"
  "exec_all sample_exec (map de_content (migrations sample_files)) [] \<noteq> None"
  "map de_name (migrations sample_files) = [''001.sql'', ''002.sql'']"
  "map de_content (migrations sample_files) = [''users'', ''messages'']"
  by (simp_all add: sample_files_def migrations_def sorted_sample [unfolded sample_files_def] sample_exec_def)

theorem migrations_in_order_witness:
  "\<exists>s. mg_run sample_exec sample_files sample_starts (new_cluster []) = Some s \<and>
     cl_calls s 1 = Some (Returned (Inr ())) \<and> cl_applied s = [''001.sql'', ''002.sql'']"
proof -
  obtain s where s: "mg_run sample_exec sample_files sample_starts (new_cluster []) = Some s"
      "cl_calls s 1 = Some (Returned (Inr ()))"
    using sample_starts_run by auto
  obtain n where "cl_applied s = take n (map de_name (migrations sample_files))"
      "n = length (migrations sample_files)"
    using migrations_in_order [OF s(1) sample_good(1)] s(2) by blast
  moreover have "length (migrations sample_files) = 2"
    using arg_cong [OF sample_good(3), of length] by simp
  ultimately show ?thesis using s sample_good(3) by simp
qed

theorem migrate_completes_witness:
  "\<exists>s k s'. mg_run sample_exec sample_files sample_starts (new_cluster []) = Some s \<and> k \<le> 19 \<and>
     mg_run sample_exec sample_files (Start 2 # replicate k (Done 2)) s = Some s' \<and>
     cl_calls s' 2 = Some (Returned (Inr ()))"
proof -
  obtain s where s: "mg_run sample_exec sample_files sample_starts (new_cluster []) = Some s"
      "cl_calls s 2 = None" "2 \<notin> cl_lost s" "cl_lock s = None"
    using sample_starts_run by auto
  have "7 + 6 * length sample_files = 19" by (simp add: sample_files_def)
  with migrate_completes [OF s(1) sample_good(1,2) s(2-4)] s(1) show ?thesis by metis
qed

subsection \<open>Open\<close>

text \<open>
  \<open>Open\<close>, over the results of the pool's calls and of \<open>Migrate\<close>: what it returns, and whether it has
  closed the pool it opened.
\<close>

definition open_database :: "go_error + unit \<Rightarrow> go_error + unit \<Rightarrow> go_error + unit \<Rightarrow> go_error + unit \<Rightarrow> (go_error + unit) \<times> bool" where
  "open_database parsed opened pinged migrated =
     (case parsed of Inl err \<Rightarrow> (Inl (Wrapped ''parse database URL'' err), False)
      | Inr _ \<Rightarrow>
     (case opened of Inl err \<Rightarrow> (Inl (Wrapped ''open database'' err), False)
      | Inr _ \<Rightarrow>
     (case pinged of Inl err \<Rightarrow> (Inl (Wrapped ''ping database'' err), True)
      | Inr _ \<Rightarrow>
     (case migrated of Inl err \<Rightarrow> (Inl err, True) | Inr _ \<Rightarrow> (Inr (), False)))))"

text \<open>A pool that was opened is either returned, with all migrations done, or closed.\<close>

lemma open_keeps_no_pool:
  "opened = Inr () \<Longrightarrow> parsed = Inr () \<Longrightarrow> open_database parsed opened pinged migrated = (r, closed) \<Longrightarrow>
   closed \<longleftrightarrow> r \<noteq> Inr ()"
  by (auto simp: open_database_def split: sum.splits)

end
