(* ===== verification/Protocol.thy ===== *)
theory Protocol
  imports Prelude
begin

section \<open>The worker protocol\<close>

text \<open>
  The envelope both ends exchange (\<^verbatim>\<open>internal/protocol/envelope.go\<close>), the payloads
  (\<^verbatim>\<open>internal/protocol/payloads.go\<close>) and the random identifiers (\<^verbatim>\<open>internal/random/value.go\<close>).
  Lemmas: an accepted envelope is well formed; decoding the payload of a freshly built envelope
  gives the value back; identifiers carry their prefix, have a fixed length and determine the bytes
  they were made from.
\<close>

subsection \<open>Random identifiers\<close>

definition hex_digit :: "nat \<Rightarrow> char" where
  "hex_digit n = ''0123456789abcdef'' ! (n mod 16)"

definition hex_byte :: "8 word \<Rightarrow> string" where
  "hex_byte b = [hex_digit (unat b div 16), hex_digit (unat b mod 16)]"

definition hex_encode :: "8 word list \<Rightarrow> string" where
  "hex_encode bs = concat (map hex_byte bs)"

text \<open>\<open>random_value e i prefix n\<close>: the \<open>i\<close>-th call of \<open>random.Value\<close> in an operation.\<close>

definition random_value :: "env \<Rightarrow> nat \<Rightarrow> string \<Rightarrow> nat \<Rightarrow> go_error + string" where
  "random_value e i prefix n =
     (case rand_fault e i of
        Some err \<Rightarrow> Inl (Wrapped ''read random bytes'' err)
      | None \<Rightarrow> Inr (prefix @ hex_encode (map (entropy e i) [0..<n])))"

lemma hex_digit_inj: "m < 16 \<Longrightarrow> n < 16 \<Longrightarrow> hex_digit m = hex_digit n \<longleftrightarrow> m = n"
proof -
  assume "m < 16" "n < 16"
  moreover have "distinct ''0123456789abcdef''" by simp
  ultimately show ?thesis
    by (simp add: hex_digit_def nth_eq_iff_index_eq del: nth_Cons_numeral)
qed

lemma hex_byte_inj: "hex_byte a = hex_byte b \<longleftrightarrow> a = b"
proof
  assume eq: "hex_byte a = hex_byte b"
  have "unat a < 2 ^ LENGTH(8)" "unat b < 2 ^ LENGTH(8)" by (rule unsigned_less)+
  then have "unat a div 16 < 16" "unat b div 16 < 16" by simp_all
  with eq have "unat a div 16 = unat b div 16" "unat a mod 16 = unat b mod 16"
    by (simp_all add: hex_byte_def hex_digit_inj)
  then have "unat a = unat b" by (metis div_mult_mod_eq)
  then show "a = b" by (simp add: word_unat_eq_iff)
qed simp

lemma length_hex_byte [simp]: "length (hex_byte b) = 2"
  by (simp add: hex_byte_def)

lemma length_hex_encode [simp]: "length (hex_encode bs) = 2 * length bs"
  by (induction bs) (simp_all add: hex_encode_def)

lemma hex_encode_inj: "length as = length bs \<Longrightarrow> hex_encode as = hex_encode bs \<longleftrightarrow> as = bs"
  by (induction as bs rule: list_induct2) (auto simp: hex_encode_def hex_byte_inj)

lemma random_value_eq_Inr [attempt_dests]:
  "random_value e i p n = Inr v \<longleftrightarrow>
   rand_fault e i = None \<and> v = p @ hex_encode (map (entropy e i) [0..<n])"
  by (auto simp: random_value_def split: option.split)

lemma random_value_ok [simp]:
  "rand_fault e i = None \<Longrightarrow>
   random_value e i p n = Inr (p @ hex_encode (map (entropy e i) [0..<n]))"
  by (simp add: random_value_def)

text \<open>
  An identifier starts with its prefix, is exactly two characters per random byte longer, and
  two identifiers of one kind are equal only if they were made from the same bytes: no entropy is
  lost on the way from the random source to the identifier.
\<close>

theorem random_value_faithful:
  assumes "random_value e i prefix n = Inr v" "random_value e' j prefix n = Inr w"
  shows "has_prefix v prefix \<and> length v = length prefix + 2 * n \<and>
         (v = w \<longleftrightarrow> (\<forall>k < n. entropy e i k = entropy e' j k))"
proof -
  have "map (entropy e i) [0..<n] = map (entropy e' j) [0..<n] \<longleftrightarrow>
        (\<forall>k < n. entropy e i k = entropy e' j k)"
    by auto
  with assms show ?thesis
    by (auto simp: random_value_eq_Inr hex_encode_inj)
qed

theorem random_value_faithful_witness:
  "has_prefix ''cmd_0102'' ''cmd_'' \<and> length ''cmd_0102'' = length ''cmd_'' + 2 * 2 \<and>
   (''cmd_0102'' = ''cmd_0203'' \<longleftrightarrow>
    (\<forall>k < 2. entropy (sample_env 0) 1 k = entropy (sample_env 0) 2 k))"
  by (rule random_value_faithful)
    (simp_all add: random_value_eq_Inr sample_env_def hex_encode_def hex_byte_def hex_digit_def upt_rec)

subsection \<open>JSON values\<close>

text \<open>
  \<open>json.RawMessage\<close> fields arrive from \<open>ReadJSON\<close>, which has already checked their syntax, so a
  raw payload is an absent value or a JSON value. An object keeps its members in order, duplicates
  included: \<open>json.Unmarshal\<close> assigns them one after the other.
\<close>

datatype json =
    JNull
  | JBool bool
  | JNum int
  | JStr string
  | JArr "json list"
  | JObj "(string \<times> json) list"

definition to_lower_char :: "char \<Rightarrow> char" where
  "to_lower_char c =
     (if of_char c \<in> {65..90::nat} then char_of (of_char c + 32 :: nat) else c)"

definition fold_key :: "string \<Rightarrow> string" where
  "fold_key = map to_lower_char"

text \<open>
  Decoding one string field of a struct: a member whose name equals the field's up to case is
  assigned; \<open>null\<close> leaves the field as it is; any other kind of value is a type error.
\<close>

fun decode_string :: "string \<Rightarrow> string \<Rightarrow> (string \<times> json) list \<Rightarrow> string option" where
  "decode_string name v [] = Some v"
| "decode_string name v ((k, j) # ms) =
     (if fold_key k = fold_key name then
        (case j of
           JStr s \<Rightarrow> decode_string name s ms
         | JNull \<Rightarrow> decode_string name v ms
         | _ \<Rightarrow> None)
      else decode_string name v ms)"

text \<open>
  A struct whose fields are all strings, given by their JSON names in order: an object assigns
  them, \<open>null\<close> leaves all of them empty, anything else is a type error.
\<close>

fun decode_fields :: "string list \<Rightarrow> (string \<times> json) list \<Rightarrow> string list option" where
  "decode_fields [] ms = Some []"
| "decode_fields (n # ns) ms =
     (case (decode_string n [] ms, decode_fields ns ms) of
        (Some v, Some vs) \<Rightarrow> Some (v # vs)
      | _ \<Rightarrow> None)"

fun decode_strings :: "string list \<Rightarrow> json \<Rightarrow> string list option" where
  "decode_strings ns (JObj ms) = decode_fields ns ms"
| "decode_strings ns JNull = Some (replicate (length ns) [])"
| "decode_strings ns _ = None"

text \<open>Encoding a string field with and without \<open>omitempty\<close>.\<close>

definition enc :: "string \<Rightarrow> string \<Rightarrow> (string \<times> json) list" where
  "enc name v = [(name, JStr v)]"

definition enc_omitempty :: "string \<Rightarrow> string \<Rightarrow> (string \<times> json) list" where
  "enc_omitempty name v = (if v = [] then [] else [(name, JStr v)])"

lemma decode_string_append:
  "decode_string n v (xs @ ys) =
   (case decode_string n v xs of None \<Rightarrow> None | Some w \<Rightarrow> decode_string n w ys)"
  by (induction n v xs rule: decode_string.induct) (auto split: json.split)

lemma decode_string_enc [simp]:
  "decode_string n v (enc m w @ ms) =
   decode_string n (if fold_key m = fold_key n then w else v) ms"
  "decode_string n v (enc m w) = Some (if fold_key m = fold_key n then w else v)"
  by (simp_all add: enc_def)

lemma decode_string_enc_omitempty [simp]:
  "decode_string n v (enc_omitempty m w @ ms) =
   decode_string n (if fold_key m = fold_key n \<and> w \<noteq> [] then w else v) ms"
  "decode_string n v (enc_omitempty m w) =
   Some (if fold_key m = fold_key n \<and> w \<noteq> [] then w else v)"
  by (simp_all add: enc_omitempty_def)


subsection \<open>Envelopes\<close>

definition Version :: int where "Version = 1"

definition TypeHello :: string where "TypeHello = ''hello''"
definition TypeReady :: string where "TypeReady = ''ready''"
definition TypeHeartbeat :: string where "TypeHeartbeat = ''heartbeat''"
definition TypeSend :: string where "TypeSend = ''send''"
definition TypeConversations :: string where "TypeConversations = ''conversations''"
definition TypeMessages :: string where "TypeMessages = ''messages''"
definition TypeLinkStart :: string where "TypeLinkStart = ''link.start''"
definition TypeLinkFinish :: string where "TypeLinkFinish = ''link.finish''"
definition TypeMessageNew :: string where "TypeMessageNew = ''message.new''"
definition TypeAccountStatus :: string where "TypeAccountStatus = ''account.status''"
definition TypeEventAck :: string where "TypeEventAck = ''event.ack''"

lemmas type_defs = TypeHello_def TypeReady_def TypeHeartbeat_def TypeSend_def
  TypeConversations_def TypeMessages_def TypeLinkStart_def TypeLinkFinish_def
  TypeMessageNew_def TypeAccountStatus_def TypeEventAck_def

record protocol_error =
  pe_code :: string
  pe_message :: string

record envelope =
  env_version :: int
  env_id :: string
  env_type :: string
  env_generation :: "64 word"
  env_status :: string
  env_error :: "protocol_error option"
  env_payload :: "json option"

text \<open>The zero value every composite literal of the source starts from.\<close>

definition empty_envelope :: envelope where
  "empty_envelope = \<lparr>env_version = 0, env_id = [], env_type = [], env_generation = 0,
     env_status = [], env_error = None, env_payload = None\<rparr>"

text \<open>
  \<open>NewEnvelope\<close> gets the payload already marshalled; \<open>Inl\<close> is a marshalling error.
\<close>

definition new_envelope :: "string \<Rightarrow> go_error + json \<Rightarrow> go_error + envelope" where
  "new_envelope kind payload =
     (case payload of
        Inl err \<Rightarrow> Inl (Wrapped (''marshal '' @ kind @ '' payload'') err)
      | Inr raw \<Rightarrow> Inr (empty_envelope
          \<lparr>env_version := Version, env_type := kind, env_payload := Some raw\<rparr>))"

definition error_envelope :: "string \<Rightarrow> string \<Rightarrow> envelope" where
  "error_envelope code message = empty_envelope
     \<lparr>env_version := Version, env_type := ''error'', env_status := ''error'',
      env_error := Some \<lparr>pe_code = code, pe_message = message\<rparr>\<rparr>"

text \<open>
  \<open>DecodePayload\<close>, over the decoder of the wanted type; \<open>None\<close> from the decoder is the error of
  \<open>json.Unmarshal\<close>.
\<close>

definition decode_payload :: "(json \<Rightarrow> 'a option) \<Rightarrow> envelope \<Rightarrow> go_error + 'a" where
  "decode_payload decoder envelope =
     (case env_payload envelope of
        None \<Rightarrow> Inl (NewError ''payload is required'')
      | Some raw \<Rightarrow>
          (case decoder raw of
             None \<Rightarrow> Inl (Wrapped (''decode '' @ env_type envelope @ '' payload'')
                            (NewError ''json''))
           | Some v \<Rightarrow> Inr v))"

definition validate :: "envelope \<Rightarrow> go_error + unit" where
  "validate e =
     (if env_version e \<noteq> Version then Inl (NewError ''unsupported protocol version'')
      else if env_type e = [] then Inl (NewError ''type is required'')
      else if env_status e \<noteq> [] \<and> env_status e \<noteq> ''ok'' \<and> env_status e \<noteq> ''error''
        then Inl (NewError ''invalid status'')
      else Inr ())"

subsection \<open>Payloads\<close>

record hello =
  hello_token :: string
  hello_platform :: string
  hello_version :: string

record ready =
  ready_account_id :: string
  ready_worker_id :: string
  ready_credential :: string
  ready_generation :: "64 word"

record account_status =
  as_state :: string
  as_external_id :: string
  as_detail :: string

record send_command =
  sc_conversation_id :: string
  sc_body :: string
  sc_idempotency_key :: string

record wire_conversation =
  wc_provider_id :: string
  wc_title :: string
  wc_kind :: string

record wire_message =
  wm_provider_message_id :: string
  wm_conversation_id :: string
  wm_author_id :: string
  wm_author_name :: string
  wm_body :: string
  wm_sent_at :: time
  wm_direction :: string

definition encode_hello :: "hello \<Rightarrow> json" where
  "encode_hello h = JObj (enc ''token'' (hello_token h) @ enc ''platform'' (hello_platform h)
     @ enc ''worker_version'' (hello_version h))"

definition decode_hello :: "json \<Rightarrow> hello option" where
  "decode_hello j =
     (case decode_strings [''token'', ''platform'', ''worker_version''] j of
        Some [t, p, v] \<Rightarrow> Some \<lparr>hello_token = t, hello_platform = p, hello_version = v\<rparr>
      | _ \<Rightarrow> None)"

definition encode_ready :: "ready \<Rightarrow> json" where
  "encode_ready r = JObj (enc ''account_id'' (ready_account_id r)
     @ enc ''worker_id'' (ready_worker_id r) @ enc_omitempty ''credential'' (ready_credential r)
     @ [(''generation'', JNum (uint (ready_generation r)))])"

definition encode_account_status :: "account_status \<Rightarrow> json" where
  "encode_account_status a = JObj (enc ''state'' (as_state a)
     @ enc_omitempty ''external_id'' (as_external_id a)
     @ enc_omitempty ''detail'' (as_detail a))"

definition decode_account_status :: "json \<Rightarrow> account_status option" where
  "decode_account_status j =
     (case decode_strings [''state'', ''external_id'', ''detail''] j of
        Some [s, x, d] \<Rightarrow> Some \<lparr>as_state = s, as_external_id = x, as_detail = d\<rparr>
      | _ \<Rightarrow> None)"

definition encode_send_command :: "send_command \<Rightarrow> json" where
  "encode_send_command c = JObj (enc ''conversation_id'' (sc_conversation_id c)
     @ enc ''body'' (sc_body c) @ enc ''idempotency_key'' (sc_idempotency_key c))"

definition decode_send_command :: "json \<Rightarrow> send_command option" where
  "decode_send_command j =
     (case decode_strings [''conversation_id'', ''body'', ''idempotency_key''] j of
        Some [c, b, k] \<Rightarrow> Some \<lparr>sc_conversation_id = c, sc_body = b, sc_idempotency_key = k\<rparr>
      | _ \<Rightarrow> None)"

text \<open>
  Payloads with times and lists. \<open>parse_time\<close> is \<open>time.Time.UnmarshalJSON\<close> on a string; \<open>null\<close> leaves a
  time as it is. A list is decoded into the elements that an earlier member of the same name has
  left, as \<open>json.Unmarshal\<close> does it; \<open>null\<close> empties it.
\<close>

fun decode_time :: "(string \<Rightarrow> time option) \<Rightarrow> string \<Rightarrow> time \<Rightarrow> (string \<times> json) list \<Rightarrow> time option" where
  "decode_time parse_time name t [] = Some t"
| "decode_time parse_time name t ((k, j) # ms) =
     (if fold_key k = fold_key name then
        (case j of
           JStr s \<Rightarrow> Option.bind (parse_time s) (\<lambda>t. decode_time parse_time name t ms)
         | JNull \<Rightarrow> decode_time parse_time name t ms
         | _ \<Rightarrow> None)
      else decode_time parse_time name t ms)"

fun decode_elements :: "('a \<Rightarrow> json \<Rightarrow> 'a option) \<Rightarrow> 'a \<Rightarrow> 'a list \<Rightarrow> json list \<Rightarrow> 'a list option" where
  "decode_elements f zero old [] = Some []"
| "decode_elements f zero old (j # js) =
     Option.bind (f (case old of [] \<Rightarrow> zero | v # _ \<Rightarrow> v) j) (\<lambda>v.
     map_option (Cons v) (decode_elements f zero (tl old) js))"

fun decode_list ::
  "('a \<Rightarrow> json \<Rightarrow> 'a option) \<Rightarrow> 'a \<Rightarrow> string \<Rightarrow> 'a list \<Rightarrow> (string \<times> json) list \<Rightarrow> 'a list option"
where
  "decode_list f zero name vs [] = Some vs"
| "decode_list f zero name vs ((k, j) # ms) =
     (if fold_key k = fold_key name then
        (case j of
           JArr js \<Rightarrow> Option.bind (decode_elements f zero vs js) (\<lambda>vs. decode_list f zero name vs ms)
         | JNull \<Rightarrow> decode_list f zero name [] ms
         | _ \<Rightarrow> None)
      else decode_list f zero name vs ms)"

definition empty_wire_conversation :: wire_conversation where
  "empty_wire_conversation = \<lparr>wc_provider_id = [], wc_title = [], wc_kind = []\<rparr>"

fun decode_wire_conversation :: "wire_conversation \<Rightarrow> json \<Rightarrow> wire_conversation option" where
  "decode_wire_conversation c (JObj ms) =
     Option.bind (decode_string ''provider_id'' (wc_provider_id c) ms) (\<lambda>provider_id.
     Option.bind (decode_string ''title'' (wc_title c) ms) (\<lambda>title.
     Option.bind (decode_string ''kind'' (wc_kind c) ms) (\<lambda>kind.
     Some \<lparr>wc_provider_id = provider_id, wc_title = title, wc_kind = kind\<rparr>)))"
| "decode_wire_conversation c JNull = Some c"
| "decode_wire_conversation c _ = None"

definition empty_wire_message :: wire_message where
  "empty_wire_message = \<lparr>wm_provider_message_id = [], wm_conversation_id = [], wm_author_id = [],
     wm_author_name = [], wm_body = [], wm_sent_at = zero_time, wm_direction = []\<rparr>"

fun decode_wire_message ::
  "(string \<Rightarrow> time option) \<Rightarrow> wire_message \<Rightarrow> json \<Rightarrow> wire_message option"
where
  "decode_wire_message parse_time m (JObj ms) =
     Option.bind (decode_string ''provider_message_id'' (wm_provider_message_id m) ms) (\<lambda>provider_id.
     Option.bind (decode_string ''conversation_id'' (wm_conversation_id m) ms) (\<lambda>conversation_id.
     Option.bind (decode_string ''author_id'' (wm_author_id m) ms) (\<lambda>author_id.
     Option.bind (decode_string ''author_name'' (wm_author_name m) ms) (\<lambda>author_name.
     Option.bind (decode_string ''body'' (wm_body m) ms) (\<lambda>body.
     Option.bind (decode_time parse_time ''sent_at'' (wm_sent_at m) ms) (\<lambda>sent_at.
     Option.bind (decode_string ''direction'' (wm_direction m) ms) (\<lambda>direction.
     Some \<lparr>wm_provider_message_id = provider_id, wm_conversation_id = conversation_id,
       wm_author_id = author_id, wm_author_name = author_name, wm_body = body,
       wm_sent_at = sent_at, wm_direction = direction\<rparr>)))))))"
| "decode_wire_message parse_time m JNull = Some m"
| "decode_wire_message parse_time m _ = None"

fun decode_conversations_result :: "json \<Rightarrow> wire_conversation list option" where
  "decode_conversations_result (JObj ms) =
     Option.bind (decode_string ''next_cursor'' [] ms) (\<lambda>_.
     decode_list decode_wire_conversation empty_wire_conversation ''conversations'' [] ms)"
| "decode_conversations_result JNull = Some []"
| "decode_conversations_result _ = None"

fun decode_messages_result :: "(string \<Rightarrow> time option) \<Rightarrow> json \<Rightarrow> wire_message list option" where
  "decode_messages_result parse_time (JObj ms) =
     Option.bind (decode_string ''next_cursor'' [] ms) (\<lambda>_.
     decode_list (decode_wire_message parse_time) empty_wire_message ''messages'' [] ms)"
| "decode_messages_result parse_time JNull = Some []"
| "decode_messages_result parse_time _ = None"

text \<open>\<open>SendResult\<close>: the provider's message id and the time of sending.\<close>

fun decode_send_result :: "(string \<Rightarrow> time option) \<Rightarrow> json \<Rightarrow> (string \<times> time) option" where
  "decode_send_result parse_time (JObj ms) =
     Option.bind (decode_string ''provider_message_id'' [] ms) (\<lambda>provider_id.
     Option.bind (decode_time parse_time ''sent_at'' zero_time ms) (\<lambda>sent_at.
     Some (provider_id, sent_at)))"
| "decode_send_result parse_time JNull = Some ([], zero_time)"
| "decode_send_result parse_time _ = None"

text \<open>The commands without a cursor, and the two commands that link an account.\<close>

definition encode_conversations_command :: json where
  "encode_conversations_command = JObj []"

definition encode_messages_command :: "string \<Rightarrow> json" where
  "encode_messages_command conversation_id = JObj (enc ''conversation_id'' conversation_id)"

definition encode_link_start :: "string \<Rightarrow> string \<Rightarrow> json" where
  "encode_link_start device_name phone_number =
     JObj (enc_omitempty ''device_name'' device_name @ enc_omitempty ''phone_number'' phone_number)"

definition encode_link_finish :: "string \<Rightarrow> string \<Rightarrow> string \<Rightarrow> json" where
  "encode_link_finish device_name code password =
     JObj (enc_omitempty ''device_name'' device_name @ enc_omitempty ''code'' code
       @ enc_omitempty ''password'' password)"

lemma validate_ok_iff:
  "validate e = Inr u \<longleftrightarrow>
   env_version e = Version \<and> env_type e \<noteq> [] \<and>
   env_status e \<in> {[], ''ok'', ''error''}"
  by (auto simp: validate_def)

lemma validate_new_envelope:
  "new_envelope kind (Inr raw) = Inr e \<Longrightarrow> kind \<noteq> [] \<Longrightarrow> validate e = Inr ()"
  by (auto simp: new_envelope_def validate_def empty_envelope_def)

lemmas fold_key_simps = fold_key_def to_lower_char_def

lemma decode_encode_hello: "decode_hello (encode_hello h) = Some h"
  by (simp add: decode_hello_def encode_hello_def fold_key_simps)

lemma decode_encode_account_status:
  "decode_account_status (encode_account_status a) = Some a"
  by (simp add: decode_account_status_def encode_account_status_def fold_key_simps)

lemma decode_encode_send_command: "decode_send_command (encode_send_command c) = Some c"
  by (simp add: decode_send_command_def encode_send_command_def fold_key_simps)


text \<open>
  Payload round trip: whatever the sender puts into an envelope with \<open>NewEnvelope\<close>, the
  receiver gets back with \<open>DecodePayload\<close>, for the handshake, the account status and the send
  command, with empty optional fields left out of the JSON text or not.
\<close>

theorem payload_roundtrip:
  "attempt (new_envelope TypeHello (Inr (encode_hello h))) (decode_payload decode_hello) = Inr h \<and>
   attempt (new_envelope TypeAccountStatus (Inr (encode_account_status a)))
     (decode_payload decode_account_status) = Inr a \<and>
   attempt (new_envelope TypeSend (Inr (encode_send_command c)))
     (decode_payload decode_send_command) = Inr c"
  by (simp_all add: new_envelope_def decode_payload_def decode_encode_hello
      decode_encode_account_status decode_encode_send_command)

end
