(* ===== verification/AccountStore.thy ===== *)
theory AccountStore
  imports Protocol
begin

section \<open>The account store interface\<close>

text \<open>
  The Go interface \<open>gateway.AccountStore\<close> (\<^verbatim>\<open>internal/gateway/store.go\<close>) is a record with one field
  per method; the in-memory \<open>gateway.Store\<close> and the Postgres \<open>postgres.AccountStore\<close> are two values
  of it. The locale \<open>account_store_laws\<close> is the contract the hub and the HTTP API rely on. Its
  lemmas, about single calls and about any sequence of calls, hold for both implementations through
  the interpretations in \<open>MemoryStore\<close> and \<open>PgAccounts\<close>.
\<close>

record account =
  acc_id :: string
  acc_user_id :: string
  acc_platform :: string
  acc_external_id :: string
  acc_display_name :: string
  acc_status :: string
  acc_hosting_mode :: string
  acc_worker_id :: string
  acc_generation :: "64 word"
  acc_last_seen_at :: "time option"
  acc_created_at :: time
  acc_enrollment_end :: time

record worker_auth =
  wa_account :: account
  wa_credential :: string

type_synonym ('s, 'a) store_op = "'s \<Rightarrow> (go_error + 'a) \<times> 's"

record 's account_store =
  store_create :: "env \<Rightarrow> string \<Rightarrow> string \<Rightarrow> string \<Rightarrow> ('s, account \<times> string) store_op"
  store_list :: "env \<Rightarrow> string \<Rightarrow> 's \<Rightarrow> go_error + account list"
  store_get :: "env \<Rightarrow> string \<Rightarrow> string \<Rightarrow> 's \<Rightarrow> go_error + account"
  store_delete :: "env \<Rightarrow> string \<Rightarrow> string \<Rightarrow> ('s, unit) store_op"
  store_auth :: "env \<Rightarrow> string \<Rightarrow> string \<Rightarrow> ('s, worker_auth) store_op"
  store_set_status :: "env \<Rightarrow> string \<Rightarrow> 64 word \<Rightarrow> string \<Rightarrow> ('s, unit) store_op"
  store_set_identity ::
    "env \<Rightarrow> string \<Rightarrow> 64 word \<Rightarrow> string \<Rightarrow> string \<Rightarrow> ('s, unit) store_op"
  store_touch :: "env \<Rightarrow> string \<Rightarrow> 64 word \<Rightarrow> ('s, unit) store_op"

subsection \<open>Sequences of calls\<close>

text \<open>The calls that may change the store, and what a sequence of them leaves behind.\<close>

datatype store_call =
    Create string string string
  | Delete string string
  | Auth string string
  | SetStatus string "64 word" string
  | SetIdentity string "64 word" string string
  | Touch string "64 word"

fun run_call :: "'s account_store \<Rightarrow> env \<Rightarrow> store_call \<Rightarrow> 's \<Rightarrow> 's" where
  "run_call S e (Create u p n) s = snd (store_create S e u p n s)"
| "run_call S e (Delete u a) s = snd (store_delete S e u a s)"
| "run_call S e (Auth t p) s = snd (store_auth S e t p s)"
| "run_call S e (SetStatus a g st) s = snd (store_set_status S e a g st s)"
| "run_call S e (SetIdentity a g st x) s = snd (store_set_identity S e a g st x s)"
| "run_call S e (Touch a g) s = snd (store_touch S e a g s)"

fun run_calls :: "'s account_store \<Rightarrow> (env \<times> store_call) list \<Rightarrow> 's \<Rightarrow> 's" where
  "run_calls S [] s = s"
| "run_calls S ((e, c) # cs) s = run_calls S cs (run_call S e c s)"

text \<open>\<open>all_fresh\<close>: every call of the sequence draws identifiers and tokens that are new.\<close>

fun all_fresh ::
  "'s account_store \<Rightarrow> (env \<Rightarrow> store_call \<Rightarrow> 's \<Rightarrow> bool) \<Rightarrow> (env \<times> store_call) list \<Rightarrow> 's \<Rightarrow> bool"
where
  "all_fresh S fresh [] s = True"
| "all_fresh S fresh ((e, c) # cs) s = (fresh e c s \<and> all_fresh S fresh cs (run_call S e c s))"

text \<open>The worker writes: calls that carry a generation.\<close>

fun write_target :: "store_call \<Rightarrow> (string \<times> 64 word) option" where
  "write_target (SetStatus a g st) = Some (a, g)"
| "write_target (SetIdentity a g st x) = Some (a, g)"
| "write_target (Touch a g) = Some (a, g)"
| "write_target _ = None"

text \<open>What no worker write may change: everything but the status fields.\<close>

definition same_identity :: "account \<Rightarrow> account \<Rightarrow> bool" where
  "same_identity a b \<longleftrightarrow>
     acc_id b = acc_id a \<and> acc_user_id b = acc_user_id a \<and> acc_platform b = acc_platform a \<and>
     acc_display_name b = acc_display_name a \<and> acc_hosting_mode b = acc_hosting_mode a \<and>
     acc_created_at b = acc_created_at a"

definition same_worker :: "account \<Rightarrow> account \<Rightarrow> bool" where
  "same_worker a b \<longleftrightarrow>
     acc_worker_id b = acc_worker_id a \<and> acc_generation b = acc_generation a"

lemma same_identity_refl [simp]: "same_identity a a"
  and same_worker_refl [simp]: "same_worker a a"
  by (simp_all add: same_identity_def same_worker_def)

lemma same_identity_trans: "same_identity a b \<Longrightarrow> same_identity b c \<Longrightarrow> same_identity a c"
  by (simp add: same_identity_def)

subsection \<open>The contract\<close>

locale account_store_laws =
  fixes S :: "'s account_store"
    and view :: "'s \<Rightarrow> string \<Rightarrow> account option"
    and ok :: "'s \<Rightarrow> bool"
    and fresh :: "env \<Rightarrow> store_call \<Rightarrow> 's \<Rightarrow> bool"
  assumes ok_step: "ok s \<Longrightarrow> fresh e c s \<Longrightarrow> ok (run_call S e c s)"
    and generation_bound: "ok s \<Longrightarrow> view s a = Some acc \<Longrightarrow> acc_generation acc \<in> {0, 1}"
    and get_visible: "ok s \<Longrightarrow> store_get S e u a s = Inr acc \<Longrightarrow>
      view s a = Some acc \<and> acc_user_id acc = u"
    and get_hidden: "ok s \<Longrightarrow> healthy e \<Longrightarrow>
      (\<And>acc. view s a = Some acc \<Longrightarrow> acc_user_id acc \<noteq> u) \<Longrightarrow>
      store_get S e u a s = Inl ErrNotFound"
    and create_frame: "ok s \<Longrightarrow> fresh e (Create u p n) s \<Longrightarrow> view s a = Some acc \<Longrightarrow>
      view (run_call S e (Create u p n) s) a = Some acc"
    and delete_frame: "ok s \<Longrightarrow> view s b = Some acc \<Longrightarrow> b \<noteq> a \<or> acc_user_id acc \<noteq> u \<Longrightarrow>
      view (run_call S e (Delete u a) s) b = Some acc"
    and write_frame: "ok s \<Longrightarrow> write_target c = Some (a, g) \<Longrightarrow>
      b \<noteq> a \<or> (\<forall>acc. view s a = Some acc \<longrightarrow> acc_generation acc \<noteq> g) \<Longrightarrow>
      view (run_call S e c s) b = view s b"
    and write_current: "ok s \<Longrightarrow> write_target c = Some (a, g) \<Longrightarrow> view s a = Some acc \<Longrightarrow>
      \<exists>acc'. view (run_call S e c s) a = Some acc' \<and> same_identity acc acc' \<and> same_worker acc acc'"
    and auth_ok: "ok s \<Longrightarrow> fresh e (Auth t p) s \<Longrightarrow> store_auth S e t p s = (Inr w, s') \<Longrightarrow>
      view s' (acc_id (wa_account w)) = Some (wa_account w) \<and> acc_platform (wa_account w) = p"
    and auth_frame: "ok s \<Longrightarrow> fresh e (Auth t p) s \<Longrightarrow> view s a = Some acc \<Longrightarrow>
      view (run_call S e (Auth t p) s) a = Some acc \<or>
      (\<exists>acc'. view (run_call S e (Auth t p) s) a = Some acc' \<and> same_identity acc acc' \<and>
         acc_generation acc = 0 \<and> acc_generation acc' = 1)"
    and auth_once: "ok s \<Longrightarrow> fresh e (Auth t p) s \<Longrightarrow> store_auth S e t p s = (Inr w, s') \<Longrightarrow>
      wa_credential w \<noteq> [] \<Longrightarrow> healthy e' \<Longrightarrow>
      store_auth S e' t q s' = (Inl ErrInvalidToken, s')"
    and auth_credential: "ok s \<Longrightarrow> fresh e (Auth t p) s \<Longrightarrow> store_auth S e t p s = (Inr w, s') \<Longrightarrow>
      wa_credential w \<noteq> [] \<Longrightarrow> healthy e' \<Longrightarrow>
      store_auth S e' (wa_credential w) p s' =
        (Inr \<lparr>wa_account = wa_account w, wa_credential = []\<rparr>, s')"
begin

text \<open>One call keeps an account's identity, unless it deletes the account.\<close>

lemma call_identity:
  assumes "ok s" "fresh e c s" "view s a = Some acc" "\<And>u. c \<noteq> Delete u a"
  shows "\<exists>acc'. view (run_call S e c s) a = Some acc' \<and> same_identity acc acc' \<and>
           unat (acc_generation acc) \<le> unat (acc_generation acc')"
proof (cases "write_target c")
  case None
  then show ?thesis
  proof (cases c)
    case (Create u p n)
    with assms create_frame show ?thesis by auto
  next
    case (Delete u b)
    with assms have "b \<noteq> a" by auto
    with Delete assms delete_frame show ?thesis by fastforce
  next
    case (Auth t p)
    with assms auth_frame [of s e t p a acc] show ?thesis by (auto simp del: run_call.simps)
  qed auto
next
  case (Some bg)
  obtain b g where bg: "bg = (b, g)" by (cases bg)
  show ?thesis
  proof (cases "b = a")
    case True
    with Some bg assms write_current show ?thesis by (fastforce simp: same_worker_def)
  next
    case False
    with Some bg assms write_frame [of s c b g a e] show ?thesis by auto
  qed
qed

text \<open>Over any sequence of calls, likewise.\<close>

lemma calls_identity:
  assumes "ok s" "all_fresh S fresh cs s" "view s a = Some acc"
    and "\<And>e u. (e, Delete u a) \<notin> set cs"
  shows "\<exists>acc'. view (run_calls S cs s) a = Some acc' \<and> same_identity acc acc' \<and>
           unat (acc_generation acc) \<le> unat (acc_generation acc')"
  using assms
proof (induction cs arbitrary: s acc)
  case Nil
  then show ?case by simp
next
  case (Cons ec cs)
  obtain e c where ec: "ec = (e, c)" by (cases ec)
  with Cons.prems call_identity [of s e c a acc] obtain acc1 where
    acc1: "view (run_call S e c s) a = Some acc1" "same_identity acc acc1"
      "unat (acc_generation acc) \<le> unat (acc_generation acc1)"
    by fastforce
  have "ok (run_call S e c s)" using Cons.prems ec ok_step by simp
  moreover have "all_fresh S fresh cs (run_call S e c s)" using Cons.prems ec by simp
  ultimately obtain acc2 where
    "view (run_calls S cs (run_call S e c s)) a = Some acc2" "same_identity acc1 acc2"
    "unat (acc_generation acc1) \<le> unat (acc_generation acc2)"
    using Cons.IH [of "run_call S e c s" acc1] Cons.prems(4) acc1(1) by fastforce
  then show ?case using ec acc1 same_identity_trans by fastforce
qed

lemma calls_ok: "ok s \<Longrightarrow> all_fresh S fresh cs s \<Longrightarrow> ok (run_calls S cs s)"
proof (induction cs arbitrary: s)
  case (Cons ec cs)
  then show ?case by (cases ec) (simp add: ok_step)
qed simp

text \<open>
  A worker of an older generation is locked out: once the account has moved to another generation,
  no write that carries the old one changes any account.
\<close>

lemma stale_write_ignored:
  assumes "ok s" "write_target c = Some (a, g)" "view s a = Some acc" "acc_generation acc \<noteq> g"
  shows "view (run_call S e c s) = view s"
proof
  fix b
  show "view (run_call S e c s) b = view s b"
    using assms write_frame [of s c a g b e] by simp
qed

text \<open>Users are isolated: nothing a user's own calls do reaches another user's account.\<close>

lemma get_isolated:
  "ok s \<Longrightarrow> healthy e \<Longrightarrow> view s a = Some acc \<Longrightarrow> acc_user_id acc \<noteq> u \<Longrightarrow>
   store_get S e u a s = Inl ErrNotFound"
  by (rule get_hidden) auto

lemma user_isolation:
  "ok s \<Longrightarrow> view s a = Some acc \<Longrightarrow> acc_user_id acc \<noteq> u \<Longrightarrow>
   c = Delete u b \<or> c = Create u p n \<and> fresh e c s \<Longrightarrow>
   view (run_call S e c s) a = Some acc"
  using delete_frame create_frame by blast

end

end
