(* ===== verification/Database.thy ===== *)
theory Database
  imports Protocol
begin

section \<open>The database schema\<close>

text \<open>
  The tables of \<^verbatim>\<open>internal/postgres/migrations/001_initial.sql\<close> the stores use: one record per row
  type, one list of rows per table, the columns the code reads or writes. The \<open>insert_\<close> functions
  are \<open>INSERT\<close> statements with the schema's constraints (primary keys, \<open>UNIQUE\<close>, \<open>REFERENCES\<close>,
  \<open>CHECK\<close>): \<open>None\<close> is a violation. The \<open>delete_\<close> functions are \<open>DELETE\<close> statements with the
  foreign keys' \<open>ON DELETE\<close> actions. \<open>db_ok\<close> is what the schema guarantees, and every statement
  here keeps it.

  Byte strings (\<open>bytea\<close>) are values of the type parameter \<open>'h\<close>. \<open>timestamptz\<close> has microsecond
  resolution: \<open>pg_time\<close> is what a Go time becomes when it is stored.
\<close>

definition pg_time :: "time \<Rightarrow> time" where
  "pg_time t = t - t mod 1000"

lemma pg_time_idem [simp]: "pg_time (pg_time t) = pg_time t"
  by (simp add: pg_time_def)

lemma pg_time_mono: "s \<le> t \<Longrightarrow> pg_time s \<le> pg_time t"
  by (simp add: pg_time_def minus_mod_eq_div_mult zdiv_mono1)

record user_row =
  u_id :: string
  u_email :: string

record account_row =
  a_id :: string
  a_user_id :: string
  a_platform :: string
  a_external_id :: "string option"
  a_display_name :: string
  a_status :: string
  a_hosting_mode :: string
  a_worker_id :: "string option"
  a_generation :: int
  a_last_seen_at :: "time option"
  a_linked_at :: "time option"
  a_created_at :: time

record 'h pairing_row =
  p_id :: string
  p_account_id :: string
  p_token_hash :: 'h
  p_expires_at :: time
  p_redeemed_at :: "time option"
  p_revoked_at :: "time option"

record 'h credential_row =
  w_id :: string
  w_account_id :: string
  w_token_hash :: 'h
  w_revoked_at :: "time option"

record conversation_row =
  c_id :: string
  c_account_id :: string
  c_provider_id :: string
  c_title :: string
  c_kind :: string
  c_unread_count :: int
  c_last_message_at :: "time option"
  c_updated_at :: time

record message_row =
  m_id :: string
  m_conversation_id :: string
  m_provider_id :: "string option"
  m_author_id :: string
  m_author_name :: string
  m_body :: string
  m_sent_at :: time
  m_direction :: string
  m_status :: string

record command_row =
  k_id :: string
  k_account_id :: string
  k_message_id :: "string option"
  k_idempotency_key :: string
  k_command_type :: string
  k_payload :: send_command
  k_status :: string
  k_provider_result :: "json option"
  k_expires_at :: time
  k_updated_at :: time

text \<open>The message as the API shows it (\<open>postgres.Message\<close>), also the payload of an outbox event.\<close>

record message =
  msg_id :: string
  msg_conversation_id :: string
  msg_provider_id :: string
  msg_author_name :: string
  msg_body :: string
  msg_sent_at :: time
  msg_direction :: string
  msg_status :: string

record outbox_row =
  o_id :: int
  o_user_id :: string
  o_event_type :: string
  o_payload :: message
  o_delivered_at :: "time option"

text \<open>\<open>db_next_outbox\<close> is the identity sequence behind \<open>outbox.id\<close>.\<close>

record 'h db =
  db_users :: "user_row list"
  db_accounts :: "account_row list"
  db_pairing_tokens :: "'h pairing_row list"
  db_worker_credentials :: "'h credential_row list"
  db_conversations :: "conversation_row list"
  db_messages :: "message_row list"
  db_commands :: "command_row list"
  db_outbox :: "outbox_row list"
  db_next_outbox :: int

definition empty_db :: "'h db" where
  "empty_db = \<lparr>db_users = [], db_accounts = [], db_pairing_tokens = [],
     db_worker_credentials = [], db_conversations = [], db_messages = [], db_commands = [],
     db_outbox = [], db_next_outbox = 1\<rparr>"

subsection \<open>Inserting rows\<close>

definition account_statuses :: "string list" where
  "account_statuses = [''unlinked'', ''linking'', ''live'', ''offline'', ''upgrade_required'']"

definition account_check :: "account_row \<Rightarrow> bool" where
  "account_check r \<longleftrightarrow> a_platform r \<in> set [''signal'', ''telegram''] \<and>
     a_status r \<in> set account_statuses \<and>
     a_hosting_mode r \<in> set [''desktop'', ''self_hosted'', ''hosted''] \<and> a_generation r \<ge> 0"

definition insert_account :: "account_row \<Rightarrow> 'h db \<Rightarrow> 'h db option" where
  "insert_account r db =
     (if account_check r \<and> a_id r \<notin> a_id ` set (db_accounts db) \<and>
         a_user_id r \<in> u_id ` set (db_users db)
      then Some (db\<lparr>db_accounts := db_accounts db @ [r]\<rparr>) else None)"

definition insert_pairing_token :: "'h pairing_row \<Rightarrow> 'h db \<Rightarrow> 'h db option" where
  "insert_pairing_token r db =
     (if p_id r \<notin> p_id ` set (db_pairing_tokens db) \<and>
         p_token_hash r \<notin> p_token_hash ` set (db_pairing_tokens db) \<and>
         p_account_id r \<in> a_id ` set (db_accounts db)
      then Some (db\<lparr>db_pairing_tokens := db_pairing_tokens db @ [r]\<rparr>) else None)"

definition insert_worker_credential :: "'h credential_row \<Rightarrow> 'h db \<Rightarrow> 'h db option" where
  "insert_worker_credential r db =
     (if w_id r \<notin> w_id ` set (db_worker_credentials db) \<and>
         w_token_hash r \<notin> w_token_hash ` set (db_worker_credentials db) \<and>
         (w_revoked_at r = None \<longrightarrow>
            w_account_id r \<notin> w_account_id ` set (filter (\<lambda>w. w_revoked_at w = None)
              (db_worker_credentials db))) \<and>
         w_account_id r \<in> a_id ` set (db_accounts db)
      then Some (db\<lparr>db_worker_credentials := db_worker_credentials db @ [r]\<rparr>) else None)"

definition conversation_key :: "conversation_row \<Rightarrow> string \<times> string" where
  "conversation_key r = (c_account_id r, c_provider_id r)"

text \<open>The plain insert; \<open>ON CONFLICT\<close> clauses are part of the statements that have them.\<close>

definition insert_conversation :: "conversation_row \<Rightarrow> 'h db \<Rightarrow> 'h db option" where
  "insert_conversation r db =
     (if c_id r \<notin> c_id ` set (db_conversations db) \<and>
         conversation_key r \<notin> conversation_key ` set (db_conversations db) \<and>
         c_account_id r \<in> a_id ` set (db_accounts db) \<and> c_unread_count r \<ge> 0
      then Some (db\<lparr>db_conversations := db_conversations db @ [r]\<rparr>) else None)"

definition message_check :: "message_row \<Rightarrow> bool" where
  "message_check r \<longleftrightarrow> m_direction r \<in> set [''incoming'', ''outgoing''] \<and>
     m_status r \<in> set [''pending'', ''sent'', ''failed'', ''unknown'']"

text \<open>The partial unique index on messages: rows without a provider id do not take part.\<close>

definition provider_key :: "message_row \<Rightarrow> string \<times> string option" where
  "provider_key r = (m_conversation_id r, m_provider_id r)"

definition has_provider_key :: "string \<Rightarrow> string \<Rightarrow> message_row \<Rightarrow> bool" where
  "has_provider_key conversation provider r \<longleftrightarrow> provider_key r = (conversation, Some provider)"

definition identified :: "message_row list \<Rightarrow> message_row list" where
  "identified rows = filter (\<lambda>r. m_provider_id r \<noteq> None) rows"

definition insert_message :: "message_row \<Rightarrow> 'h db \<Rightarrow> 'h db option" where
  "insert_message r db =
     (if message_check r \<and> m_id r \<notin> m_id ` set (db_messages db) \<and>
         (m_provider_id r \<noteq> None \<longrightarrow> provider_key r \<notin> provider_key ` set (db_messages db)) \<and>
         m_conversation_id r \<in> c_id ` set (db_conversations db)
      then Some (db\<lparr>db_messages := db_messages db @ [r]\<rparr>) else None)"

definition command_key :: "command_row \<Rightarrow> string \<times> string" where
  "command_key r = (k_account_id r, k_idempotency_key r)"

definition command_statuses :: "string list" where
  "command_statuses =
     [''pending'', ''dispatched'', ''completed'', ''failed'', ''unknown'', ''expired'']"

definition insert_command :: "command_row \<Rightarrow> 'h db \<Rightarrow> 'h db option" where
  "insert_command r db =
     (if k_status r \<in> set command_statuses \<and> k_id r \<notin> k_id ` set (db_commands db) \<and>
         command_key r \<notin> command_key ` set (db_commands db) \<and>
         k_account_id r \<in> a_id ` set (db_accounts db) \<and>
         (\<forall>m \<in> set_option (k_message_id r). m \<in> m_id ` set (db_messages db))
      then Some (db\<lparr>db_commands := db_commands db @ [r]\<rparr>) else None)"

definition insert_outbox_row :: "string \<Rightarrow> string \<Rightarrow> message \<Rightarrow> 'h db \<Rightarrow> 'h db option" where
  "insert_outbox_row user event_type payload db =
     (if user \<in> u_id ` set (db_users db)
      then Some (db\<lparr>db_outbox := db_outbox db @
             [\<lparr>o_id = db_next_outbox db, o_user_id = user, o_event_type = event_type,
               o_payload = payload, o_delivered_at = None\<rparr>],
           db_next_outbox := db_next_outbox db + 1\<rparr>)
      else None)"

subsection \<open>Deleting rows\<close>

definition delete_messages :: "(message_row \<Rightarrow> bool) \<Rightarrow> 'h db \<Rightarrow> 'h db" where
  "delete_messages P db =
     (let gone = m_id ` set (filter P (db_messages db)) in
      db\<lparr>db_messages := filter (\<lambda>r. \<not> P r) (db_messages db),
         db_commands := update_where
           (\<lambda>k. case k_message_id k of None \<Rightarrow> False | Some m \<Rightarrow> m \<in> gone)
           (\<lambda>k. k\<lparr>k_message_id := None\<rparr>) (db_commands db)\<rparr>)"

definition delete_conversations :: "(conversation_row \<Rightarrow> bool) \<Rightarrow> 'h db \<Rightarrow> 'h db" where
  "delete_conversations P db =
     (let gone = c_id ` set (filter P (db_conversations db)) in
      delete_messages (\<lambda>m. m_conversation_id m \<in> gone)
        (db\<lparr>db_conversations := filter (\<lambda>r. \<not> P r) (db_conversations db)\<rparr>))"

definition delete_accounts :: "(account_row \<Rightarrow> bool) \<Rightarrow> 'h db \<Rightarrow> 'h db" where
  "delete_accounts P db =
     (let gone = a_id ` set (filter P (db_accounts db)) in
      delete_conversations (\<lambda>c. c_account_id c \<in> gone)
        (db\<lparr>db_accounts := filter (\<lambda>r. \<not> P r) (db_accounts db),
            db_pairing_tokens := filter (\<lambda>p. p_account_id p \<notin> gone) (db_pairing_tokens db),
            db_worker_credentials :=
              filter (\<lambda>w. w_account_id w \<notin> gone) (db_worker_credentials db),
            db_commands := filter (\<lambda>k. k_account_id k \<notin> gone) (db_commands db)\<rparr>))"


subsection \<open>What the schema guarantees\<close>

text \<open>Each table's constraints, given the keys of the tables it refers to.\<close>

definition users_ok :: "user_row list \<Rightarrow> bool" where
  "users_ok us \<longleftrightarrow> unique_by u_id us \<and> unique_by u_email us"

definition accounts_ok :: "string set \<Rightarrow> account_row list \<Rightarrow> bool" where
  "accounts_ok users rs \<longleftrightarrow> unique_by a_id rs \<and>
     (\<forall>r \<in> set rs. account_check r \<and> a_user_id r \<in> users)"

definition pairing_ok :: "string set \<Rightarrow> 'h pairing_row list \<Rightarrow> bool" where
  "pairing_ok accounts rs \<longleftrightarrow> unique_by p_id rs \<and> unique_by p_token_hash rs \<and>
     (\<forall>r \<in> set rs. p_account_id r \<in> accounts)"

definition credentials_ok :: "string set \<Rightarrow> 'h credential_row list \<Rightarrow> bool" where
  "credentials_ok accounts rs \<longleftrightarrow> unique_by w_id rs \<and> unique_by w_token_hash rs \<and>
     unique_by w_account_id (filter (\<lambda>w. w_revoked_at w = None) rs) \<and>
     (\<forall>r \<in> set rs. w_account_id r \<in> accounts)"

definition conversations_ok :: "string set \<Rightarrow> conversation_row list \<Rightarrow> bool" where
  "conversations_ok accounts rs \<longleftrightarrow> unique_by c_id rs \<and> unique_by conversation_key rs \<and>
     (\<forall>r \<in> set rs. c_account_id r \<in> accounts \<and> c_unread_count r \<ge> 0)"

definition messages_ok :: "string set \<Rightarrow> message_row list \<Rightarrow> bool" where
  "messages_ok conversations rs \<longleftrightarrow> unique_by m_id rs \<and> unique_by provider_key (identified rs) \<and>
     (\<forall>r \<in> set rs. message_check r \<and> m_conversation_id r \<in> conversations)"

definition commands_ok :: "string set \<Rightarrow> string set \<Rightarrow> command_row list \<Rightarrow> bool" where
  "commands_ok accounts messages rs \<longleftrightarrow> unique_by k_id rs \<and> unique_by command_key rs \<and>
     (\<forall>r \<in> set rs. k_account_id r \<in> accounts \<and> k_status r \<in> set command_statuses \<and>
        (\<forall>m. k_message_id r = Some m \<longrightarrow> m \<in> messages))"

definition outbox_ok :: "string set \<Rightarrow> int \<Rightarrow> outbox_row list \<Rightarrow> bool" where
  "outbox_ok users next rs \<longleftrightarrow> sorted_wrt (<) (map o_id rs) \<and>
     (\<forall>r \<in> set rs. o_user_id r \<in> users \<and> o_id r < next)"

abbreviation user_ids :: "'h db \<Rightarrow> string set" where
  "user_ids db \<equiv> u_id ` set (db_users db)"
abbreviation account_ids :: "'h db \<Rightarrow> string set" where
  "account_ids db \<equiv> a_id ` set (db_accounts db)"
abbreviation conversation_ids :: "'h db \<Rightarrow> string set" where
  "conversation_ids db \<equiv> c_id ` set (db_conversations db)"
abbreviation message_ids :: "'h db \<Rightarrow> string set" where
  "message_ids db \<equiv> m_id ` set (db_messages db)"

definition db_ok :: "'h db \<Rightarrow> bool" where
  "db_ok db \<longleftrightarrow>
     users_ok (db_users db) \<and>
     accounts_ok (user_ids db) (db_accounts db) \<and>
     pairing_ok (account_ids db) (db_pairing_tokens db) \<and>
     credentials_ok (account_ids db) (db_worker_credentials db) \<and>
     conversations_ok (account_ids db) (db_conversations db) \<and>
     messages_ok (conversation_ids db) (db_messages db) \<and>
     commands_ok (account_ids db) (message_ids db) (db_commands db) \<and>
     outbox_ok (user_ids db) (db_next_outbox db) (db_outbox db)"

lemmas table_ok_defs = users_ok_def accounts_ok_def pairing_ok_def credentials_ok_def
  conversations_ok_def messages_ok_def commands_ok_def outbox_ok_def

lemma db_okD:
  assumes "db_ok db"
  shows db_ok_users: "users_ok (db_users db)"
    and db_ok_accounts: "accounts_ok (user_ids db) (db_accounts db)"
    and db_ok_pairing: "pairing_ok (account_ids db) (db_pairing_tokens db)"
    and db_ok_credentials: "credentials_ok (account_ids db) (db_worker_credentials db)"
    and db_ok_conversations: "conversations_ok (account_ids db) (db_conversations db)"
    and db_ok_messages: "messages_ok (conversation_ids db) (db_messages db)"
    and db_ok_commands: "commands_ok (account_ids db) (message_ids db) (db_commands db)"
    and db_ok_outbox: "outbox_ok (user_ids db) (db_next_outbox db) (db_outbox db)"
  using assms by (simp_all add: db_ok_def)

lemma db_ok_empty: "db_ok empty_db"
  by (simp add: db_ok_def empty_db_def table_ok_defs identified_def)

subsubsection \<open>Keys\<close>

lemma db_ok_unique:
  assumes "db_ok db"
  shows unique_accounts: "unique_by a_id (db_accounts db)"
    and unique_conversations: "unique_by c_id (db_conversations db)"
    and unique_conversation_keys: "unique_by conversation_key (db_conversations db)"
    and unique_messages: "unique_by m_id (db_messages db)"
    and unique_provider_keys: "unique_by provider_key (identified (db_messages db))"
    and unique_commands: "unique_by k_id (db_commands db)"
    and unique_command_keys: "unique_by command_key (db_commands db)"
  using db_okD [OF assms] by (simp_all add: table_ok_defs)

lemma identified_append [simp]:
  "identified (xs @ ys) = identified xs @ identified ys"
  by (simp add: identified_def)

lemma set_identified: "set (identified rs) = {r \<in> set rs. m_provider_id r \<noteq> None}"
  by (simp add: identified_def)

lemma has_provider_keyD:
  "has_provider_key c p r \<Longrightarrow> m_conversation_id r = c \<and> m_provider_id r = Some p"
  by (simp add: has_provider_key_def provider_key_def)

subsubsection \<open>Inserts keep the schema\<close>

text \<open>A table stays valid when a table it refers to gains a row.\<close>

lemma tables_grow:
  "pairing_ok A ps \<Longrightarrow> pairing_ok (insert a A) ps"
  "credentials_ok A ws \<Longrightarrow> credentials_ok (insert a A) ws"
  "conversations_ok A cs \<Longrightarrow> conversations_ok (insert a A) cs"
  "messages_ok C ms \<Longrightarrow> messages_ok (insert c C) ms"
  "commands_ok A M ks \<Longrightarrow> commands_ok (insert a A) M ks"
  "commands_ok A M ks \<Longrightarrow> commands_ok A (insert m M) ks"
  by (simp_all add: pairing_ok_def credentials_ok_def conversations_ok_def messages_ok_def
      commands_ok_def)

text \<open>The table itself gains a row that the statement has checked.\<close>

lemma insert_account_ok:
  assumes "insert_account r db = Some db'" "db_ok db"
  shows "db_ok db'"
proof -
  from assms(1) have "db' = db\<lparr>db_accounts := db_accounts db @ [r]\<rparr>" "account_check r"
    "a_id r \<notin> account_ids db" "a_user_id r \<in> user_ids db"
    by (simp_all add: insert_account_def split: if_splits)
  with db_okD [OF assms(2)] show ?thesis
    by (simp add: db_ok_def tables_grow) (simp add: accounts_ok_def table_simps)
qed

lemma insert_pairing_token_ok: "insert_pairing_token r db = Some db' \<Longrightarrow> db_ok db \<Longrightarrow> db_ok db'"
  by (auto simp: insert_pairing_token_def db_ok_def pairing_ok_def table_simps split: if_splits)

lemma insert_worker_credential_ok:
  assumes "insert_worker_credential r db = Some db'" "db_ok db"
  shows "db_ok db'"
proof -
  from assms(1) have "db' = db\<lparr>db_worker_credentials := db_worker_credentials db @ [r]\<rparr>"
    by (simp add: insert_worker_credential_def split: if_splits)
  moreover have "credentials_ok (account_ids db) (db_worker_credentials db @ [r])"
    using assms(1) db_ok_credentials [OF assms(2)]
    by (simp add: insert_worker_credential_def credentials_ok_def table_simps split: if_splits)
  ultimately show ?thesis using db_okD [OF assms(2)] by (simp add: db_ok_def)
qed

lemma insert_conversation_ok:
  assumes "insert_conversation r db = Some db'" "db_ok db"
  shows "db_ok db'"
proof -
  from assms(1) have "db' = db\<lparr>db_conversations := db_conversations db @ [r]\<rparr>"
    "c_id r \<notin> conversation_ids db" "conversation_key r \<notin> conversation_key ` set (db_conversations db)"
    "c_account_id r \<in> account_ids db" "c_unread_count r \<ge> 0"
    by (simp_all add: insert_conversation_def split: if_splits)
  with db_okD [OF assms(2)] show ?thesis
    by (simp add: db_ok_def tables_grow) (simp add: conversations_ok_def table_simps)
qed

lemma insert_message_ok:
  assumes "insert_message r db = Some db'" "db_ok db"
  shows "db_ok db'"
proof -
  from assms(1) have "db' = db\<lparr>db_messages := db_messages db @ [r]\<rparr>"
    by (simp add: insert_message_def split: if_splits)
  moreover have "messages_ok (conversation_ids db) (db_messages db @ [r])"
    using assms(1) db_ok_messages [OF assms(2)]
    by (auto simp: insert_message_def messages_ok_def table_simps identified_def split: if_splits)
  ultimately show ?thesis using db_okD [OF assms(2)] by (simp add: db_ok_def tables_grow)
qed

lemma insert_command_ok: "insert_command r db = Some db' \<Longrightarrow> db_ok db \<Longrightarrow> db_ok db'"
  by (auto simp: insert_command_def db_ok_def commands_ok_def table_simps split: if_splits)

lemma insert_outbox_row_ok: "insert_outbox_row u t p db = Some db' \<Longrightarrow> db_ok db \<Longrightarrow> db_ok db'"
  by (fastforce simp: insert_outbox_row_def db_ok_def outbox_ok_def sorted_wrt_append
      split: if_splits)


subsubsection \<open>Updates keep the schema\<close>

lemma update_accounts_ok:
  assumes ok: "db_ok db"
    and keys: "\<And>r. P r \<Longrightarrow> a_id (f r) = a_id r \<and> a_user_id (f r) = a_user_id r"
    and check: "\<And>r. P r \<Longrightarrow> account_check r \<Longrightarrow> account_check (f r)"
  shows "db_ok (db\<lparr>db_accounts := update_where P f (db_accounts db)\<rparr>)"
proof -
  have ids: "a_id ` set (update_where P f (db_accounts db)) = account_ids db"
    using keys by (intro image_update_where) auto
  have "accounts_ok (user_ids db) (update_where P f (db_accounts db))"
    using db_ok_accounts [OF ok] keys check
    by (auto simp: accounts_ok_def unique_by_update_where set_update_where)
  with db_okD [OF ok] show ?thesis by (simp add: db_ok_def ids)
qed

lemma update_pairing_ok:
  assumes "db_ok db"
    and "\<And>r. P r \<Longrightarrow> p_id (f r) = p_id r \<and> p_token_hash (f r) = p_token_hash r \<and>
      p_account_id (f r) = p_account_id r"
  shows "db_ok (db\<lparr>db_pairing_tokens := update_where P f (db_pairing_tokens db)\<rparr>)"
proof -
  have "pairing_ok (account_ids db) (update_where P f (db_pairing_tokens db))"
    using db_ok_pairing [OF assms(1)] assms(2)
    by (auto simp: pairing_ok_def unique_by_update_where set_update_where)
  with db_okD [OF assms(1)] show ?thesis by (simp add: db_ok_def)
qed

lemma update_conversations_ok:
  assumes ok: "db_ok db"
    and keys: "\<And>r. P r \<Longrightarrow> c_id (f r) = c_id r \<and> c_account_id (f r) = c_account_id r \<and>
      c_provider_id (f r) = c_provider_id r"
    and unread: "\<And>r. P r \<Longrightarrow> c_unread_count r \<ge> 0 \<Longrightarrow> c_unread_count (f r) \<ge> 0"
  shows "db_ok (db\<lparr>db_conversations := update_where P f (db_conversations db)\<rparr>)"
proof -
  have ids: "c_id ` set (update_where P f (db_conversations db)) = conversation_ids db"
    using keys by (intro image_update_where) auto
  have "conversations_ok (account_ids db) (update_where P f (db_conversations db))"
    using db_ok_conversations [OF ok] keys unread
    by (auto simp: conversations_ok_def conversation_key_def unique_by_update_where
        set_update_where)
  with db_okD [OF ok] show ?thesis by (simp add: db_ok_def ids)
qed

lemma identified_update_where:
  "(\<And>r. P r \<Longrightarrow> m_provider_id (f r) = m_provider_id r) \<Longrightarrow>
   identified (update_where P f rs) = update_where P f (identified rs)"
  by (induction rs) (auto simp: identified_def update_where_def)

lemma update_messages_ok:
  assumes ok: "db_ok db"
    and keys: "\<And>r. P r \<Longrightarrow> m_id (f r) = m_id r \<and> m_conversation_id (f r) = m_conversation_id r \<and>
      m_provider_id (f r) = m_provider_id r"
    and check: "\<And>r. P r \<Longrightarrow> message_check r \<Longrightarrow> message_check (f r)"
  shows "db_ok (db\<lparr>db_messages := update_where P f (db_messages db)\<rparr>)"
proof -
  have ids: "m_id ` set (update_where P f (db_messages db)) = message_ids db"
    using keys by (intro image_update_where) auto
  have "messages_ok (conversation_ids db) (update_where P f (db_messages db))"
    using db_ok_messages [OF ok] keys check
    by (auto simp: messages_ok_def provider_key_def identified_update_where
        unique_by_update_where set_update_where)
  with db_okD [OF ok] show ?thesis by (simp add: db_ok_def ids)
qed

lemma update_commands_ok:
  assumes ok: "db_ok db"
    and keys: "\<And>r. P r \<Longrightarrow> k_id (f r) = k_id r \<and> k_account_id (f r) = k_account_id r \<and>
      k_idempotency_key (f r) = k_idempotency_key r"
    and status: "\<And>r. P r \<Longrightarrow> k_status (f r) \<in> set command_statuses \<or> k_status (f r) = k_status r"
    and message: "\<And>r m. P r \<Longrightarrow> k_message_id (f r) = Some m \<Longrightarrow>
      k_message_id r = Some m \<or> m \<in> message_ids db"
  shows "db_ok (db\<lparr>db_commands := update_where P f (db_commands db)\<rparr>)"
proof -
  have uniq: "unique_by k_id (update_where P f (db_commands db))"
    "unique_by command_key (update_where P f (db_commands db))"
    using db_ok_commands [OF ok] keys
    by (simp_all add: commands_ok_def command_key_def unique_by_update_where)
  have row: "k_account_id (f r) \<in> account_ids db \<and> k_status (f r) \<in> set command_statuses \<and>
      (\<forall>m. k_message_id (f r) = Some m \<longrightarrow> m \<in> message_ids db)"
    if "r \<in> set (db_commands db)" "P r" for r
    using db_ok_commands [OF ok] that keys [OF that(2)] status [OF that(2)] message [OF that(2)]
    unfolding commands_ok_def by metis
  have "commands_ok (account_ids db) (message_ids db) (update_where P f (db_commands db))"
    using uniq row db_ok_commands [OF ok] unfolding commands_ok_def set_update_where
    by auto
  with db_okD [OF ok] show ?thesis by (simp add: db_ok_def)
qed

lemma sorted_wrt_map_filter: "sorted_wrt R (map f xs) \<Longrightarrow> sorted_wrt R (map f (filter P xs))"
  by (induction xs) auto

lemma filter_outbox_ok:
  "db_ok db \<Longrightarrow> db_ok (db\<lparr>db_outbox := filter P (db_outbox db)\<rparr>)"
  by (auto simp: db_ok_def outbox_ok_def intro: sorted_wrt_map_filter)

lemma update_outbox_ok:
  assumes "db_ok db" "\<And>r. P r \<Longrightarrow> o_id (f r) = o_id r \<and> o_user_id (f r) = o_user_id r"
  shows "db_ok (db\<lparr>db_outbox := update_where P f (db_outbox db)\<rparr>)"
proof -
  have "map o_id (update_where P f (db_outbox db)) = map o_id (db_outbox db)"
    using assms(2) by (intro map_update_where) auto
  then have "outbox_ok (user_ids db) (db_next_outbox db) (update_where P f (db_outbox db))"
    using db_ok_outbox [OF assms(1)] assms(2) by (auto simp: outbox_ok_def set_update_where)
  with db_okD [OF assms(1)] show ?thesis by (simp add: db_ok_def)
qed

subsubsection \<open>Deletions keep the schema\<close>

lemma identified_filter: "identified (filter P rs) = filter P (identified rs)"
  by (simp add: identified_def conj_commute)

text \<open>Deleting messages also forgets them in the commands that refer to them.\<close>

lemma delete_messages_tables:
  "messages_ok C (db_messages db) \<Longrightarrow>
   (\<And>r. r \<in> set (db_messages db) \<Longrightarrow> \<not> P r \<Longrightarrow> m_conversation_id r \<in> C') \<Longrightarrow>
   messages_ok C' (db_messages (delete_messages P db))"
  by (auto simp: messages_ok_def delete_messages_def Let_def identified_filter)

lemma delete_messages_commands:
  assumes "commands_ok A (message_ids db) (db_commands db)"
  shows "commands_ok A (message_ids (delete_messages P db)) (db_commands (delete_messages P db))"
proof -
  let ?gone = "m_id ` set (filter P (db_messages db))"
  have "message_ids db - ?gone \<subseteq> message_ids (delete_messages P db)"
    by (auto simp: delete_messages_def Let_def)
  with assms show ?thesis
    by (auto simp: commands_ok_def delete_messages_def Let_def command_key_def
        unique_by_update_where set_update_where split: option.splits)
qed

lemma delete_messages_other [simp]:
  "db_users (delete_messages P db) = db_users db"
  "db_accounts (delete_messages P db) = db_accounts db"
  "db_pairing_tokens (delete_messages P db) = db_pairing_tokens db"
  "db_worker_credentials (delete_messages P db) = db_worker_credentials db"
  "db_conversations (delete_messages P db) = db_conversations db"
  "db_outbox (delete_messages P db) = db_outbox db"
  "db_next_outbox (delete_messages P db) = db_next_outbox db"
  by (simp_all add: delete_messages_def Let_def)

lemma delete_messages_ok:
  assumes "db_ok db"
  shows "db_ok (delete_messages P db)"
proof -
  have "messages_ok (conversation_ids db) (db_messages (delete_messages P db))"
    using db_ok_messages [OF assms]
    by (rule delete_messages_tables) (use db_ok_messages [OF assms] in \<open>simp add: messages_ok_def\<close>)
  moreover have "commands_ok (account_ids db) (message_ids (delete_messages P db))
      (db_commands (delete_messages P db))"
    using db_ok_commands [OF assms] by (rule delete_messages_commands)
  ultimately show ?thesis using db_okD [OF assms] by (simp add: db_ok_def)
qed

lemma image_split:
  "x \<in> f ` A \<Longrightarrow> x \<notin> f ` {y \<in> A. Q y} \<Longrightarrow> x \<in> f ` {y \<in> A. \<not> Q y}"
  by blast

lemma delete_accounts_other [simp]:
  "db_users (delete_accounts P db) = db_users db"
  "db_accounts (delete_accounts P db) = filter (\<lambda>r. \<not> P r) (db_accounts db)"
  "db_outbox (delete_accounts P db) = db_outbox db"
  "db_next_outbox (delete_accounts P db) = db_next_outbox db"
  by (simp_all add: delete_accounts_def delete_conversations_def Let_def)

lemma delete_accounts_tables [simp]:
  "db_pairing_tokens (delete_accounts P db) =
     filter (\<lambda>p. p_account_id p \<notin> a_id ` set (filter P (db_accounts db))) (db_pairing_tokens db)"
  "db_worker_credentials (delete_accounts P db) =
     filter (\<lambda>w. w_account_id w \<notin> a_id ` set (filter P (db_accounts db)))
       (db_worker_credentials db)"
  "db_conversations (delete_accounts P db) =
     filter (\<lambda>c. c_account_id c \<notin> a_id ` set (filter P (db_accounts db))) (db_conversations db)"
  by (simp_all add: delete_accounts_def delete_conversations_def Let_def)

lemma kept_account:
  "a \<in> account_ids db \<Longrightarrow> a \<notin> a_id ` set (filter P (db_accounts db)) \<Longrightarrow>
   a \<in> a_id ` set (filter (\<lambda>r. \<not> P r) (db_accounts db))"
  by (auto intro: image_split)

lemma delete_accounts_messages:
  assumes ok: "db_ok db"
  shows "messages_ok (conversation_ids (delete_accounts P db)) (db_messages (delete_accounts P db))"
    and "commands_ok (account_ids (delete_accounts P db)) (message_ids (delete_accounts P db))
      (db_commands (delete_accounts P db))"
proof -
  let ?gone = "a_id ` set (filter P (db_accounts db))"
  let ?cgone = "c_id ` set (filter (\<lambda>c. c_account_id c \<in> ?gone) (db_conversations db))"
  let ?db2 = "db\<lparr>db_accounts := filter (\<lambda>r. \<not> P r) (db_accounts db),
      db_pairing_tokens := filter (\<lambda>p. p_account_id p \<notin> ?gone) (db_pairing_tokens db),
      db_worker_credentials := filter (\<lambda>w. w_account_id w \<notin> ?gone) (db_worker_credentials db),
      db_commands := filter (\<lambda>k. k_account_id k \<notin> ?gone) (db_commands db),
      db_conversations := filter (\<lambda>c. c_account_id c \<notin> ?gone) (db_conversations db)\<rparr>"
  have eq: "delete_accounts P db = delete_messages (\<lambda>m. m_conversation_id m \<in> ?cgone) ?db2"
    by (simp add: delete_accounts_def delete_conversations_def Let_def)
  have "messages_ok (conversation_ids ?db2) (db_messages (delete_accounts P db))"
    unfolding eq
    by (rule delete_messages_tables [where C = "conversation_ids db"])
      (use db_ok_messages [OF ok] in \<open>auto simp: messages_ok_def intro!: image_split\<close>)
  then show "messages_ok (conversation_ids (delete_accounts P db))
      (db_messages (delete_accounts P db))" by simp
  have "commands_ok (account_ids ?db2) (message_ids ?db2) (db_commands ?db2)"
    using db_ok_commands [OF ok] by (auto simp: commands_ok_def intro!: image_split)
  then have "commands_ok (account_ids ?db2) (message_ids (delete_accounts P db))
      (db_commands (delete_accounts P db))"
    unfolding eq by (rule delete_messages_commands)
  then show "commands_ok (account_ids (delete_accounts P db)) (message_ids (delete_accounts P db))
      (db_commands (delete_accounts P db))" by simp
qed

lemma filter_credentials_ok:
  assumes "credentials_ok A rs" "\<And>r. r \<in> set rs \<Longrightarrow> Q r \<Longrightarrow> w_account_id r \<in> A'"
  shows "credentials_ok A' (filter Q rs)"
proof -
  have "filter (\<lambda>w. w_revoked_at w = None) (filter Q rs) =
        filter Q (filter (\<lambda>w. w_revoked_at w = None) rs)"
    by (simp add: conj_commute)
  then show ?thesis using assms unfolding credentials_ok_def
    by (auto simp del: filter_filter intro: unique_by_filter)
qed

lemma delete_accounts_ok:
  assumes ok: "db_ok db"
  shows "db_ok (delete_accounts P db)"
proof -
  have "accounts_ok (user_ids db) (filter (\<lambda>r. \<not> P r) (db_accounts db))"
    using db_ok_accounts [OF ok] by (auto simp: accounts_ok_def)
  moreover have "pairing_ok (account_ids (delete_accounts P db))
      (db_pairing_tokens (delete_accounts P db))"
    using db_ok_pairing [OF ok] by (auto simp: pairing_ok_def intro!: image_split)
  moreover have "credentials_ok (account_ids (delete_accounts P db))
      (db_worker_credentials (delete_accounts P db))"
    unfolding delete_accounts_tables
    by (rule filter_credentials_ok [OF db_ok_credentials [OF ok]])
      (use db_ok_credentials [OF ok] in \<open>auto simp: credentials_ok_def intro!: image_split\<close>)
  moreover have "conversations_ok (account_ids (delete_accounts P db))
      (db_conversations (delete_accounts P db))"
    using db_ok_conversations [OF ok] by (auto simp: conversations_ok_def intro!: image_split)
  ultimately show ?thesis
    using db_okD [OF ok] delete_accounts_messages [OF ok, of P]
    unfolding db_ok_def delete_accounts_other by blast
qed

end
