(* ===== verification/PgAccounts.thy ===== *)
theory PgAccounts
  imports AccountStore Database
begin

section \<open>The Postgres account store\<close>

text \<open>
  \<open>postgres.AccountStore\<close> of \<^verbatim>\<open>internal/postgres/accounts.go\<close> on the tables of \<open>Database\<close>. Every
  SQL statement is one \<open>stmt\<close> or \<open>query_row\<close>, numbered in source order; \<open>in_tx\<close> is the
  transaction of the operations that have one. \<open>sha\<close> is \<open>sha256.Sum256\<close>. A failed \<open>Commit\<close> is read
  as a rolled back one. The theory shows that every operation keeps the schema and the enrollment
  invariant \<open>pg_ok\<close> and interprets \<open>account_store_laws\<close> on the operations.
\<close>

text \<open>
  \<open>scanAccount\<close> on a row the queries select: \<open>COALESCE\<close> turns a null text into the empty string,
  the enrollment end is not stored with the account.
\<close>

definition scan_account :: "account_row \<Rightarrow> account" where
  "scan_account r = \<lparr>acc_id = a_id r, acc_user_id = a_user_id r, acc_platform = a_platform r,
     acc_external_id = (case a_external_id r of None \<Rightarrow> [] | Some x \<Rightarrow> x),
     acc_display_name = a_display_name r, acc_status = a_status r,
     acc_hosting_mode = a_hosting_mode r,
     acc_worker_id = (case a_worker_id r of None \<Rightarrow> [] | Some w \<Rightarrow> w),
     acc_generation = word_of_int (a_generation r), acc_last_seen_at = a_last_seen_at r,
     acc_created_at = a_created_at r, acc_enrollment_end = zero_time\<rparr>"

text \<open>\<open>now()\<close> as it is stored.\<close>

definition db_now :: "env \<Rightarrow> time" where
  "db_now e = pg_time (db_clock e)"

definition mark_workers_offline :: "env \<Rightarrow> 'h db \<Rightarrow> (go_error + unit) \<times> 'h db" where
  "mark_workers_offline e db =
     in_tx (\<lambda>db. attempt (stmt e 0 ''mark workers offline''
         (Some (db\<lparr>db_accounts := update_where (\<lambda>r. a_status r = ''live'')
            (\<lambda>r. r\<lparr>a_status := ''offline''\<rparr>) (db_accounts db)\<rparr>)))
       (\<lambda>db. Inr ((), db))) db"

definition pg_create_tx ::
  "(string \<Rightarrow> 'h) \<Rightarrow> env \<Rightarrow> account \<Rightarrow> string \<Rightarrow> string \<Rightarrow> 'h db \<Rightarrow>
   go_error + (account \<times> string) \<times> 'h db" where
  "pg_create_tx sha e account enrollment_id enrollment db =
     attempt (stmt e 0 ''begin create account'' (Some db)) (\<lambda>db.
     attempt (stmt e 1 ''insert account'' (insert_account
       \<lparr>a_id = acc_id account, a_user_id = acc_user_id account, a_platform = acc_platform account,
        a_external_id = None, a_display_name = acc_display_name account,
        a_status = ''unlinked'', a_hosting_mode = ''self_hosted'', a_worker_id = None,
        a_generation = 0, a_last_seen_at = None, a_linked_at = None,
        a_created_at = db_now e\<rparr> db)) (\<lambda>db.
     attempt (stmt e 2 ''insert pairing token'' (insert_pairing_token
       \<lparr>p_id = enrollment_id, p_account_id = acc_id account, p_token_hash = sha enrollment,
        p_expires_at = pg_time (acc_enrollment_end account),
        p_redeemed_at = None, p_revoked_at = None\<rparr> db)) (\<lambda>db.
     attempt (stmt e 3 ''commit create account'' (Some db)) (\<lambda>db.
     Inr ((account\<lparr>acc_created_at := db_now e\<rparr>, enrollment), db)))))"

definition pg_create ::
  "(string \<Rightarrow> 'h) \<Rightarrow> env \<Rightarrow> string \<Rightarrow> string \<Rightarrow> string \<Rightarrow> ('h db, account \<times> string) store_op"
where
  "pg_create sha e user platform name db =
     (if platform \<noteq> ''signal'' \<and> platform \<noteq> ''telegram'' then
        (Inl (NewError ''platform must be signal or telegram''), db)
      else
        (case attempt (random_value e 0 ''acc_'' 16) (\<lambda>account_id.
              attempt (random_value e 1 ''enr_'' 16) (\<lambda>enrollment_id.
              attempt (random_value e 2 ''say_enroll_'' 32) (\<lambda>enrollment.
              Inr (account_id, enrollment_id, enrollment)))) of
           Inl err \<Rightarrow> (Inl err, db)
         | Inr (account_id, enrollment_id, enrollment) \<Rightarrow>
             in_tx (pg_create_tx sha e
               \<lparr>acc_id = account_id, acc_user_id = user, acc_platform = platform,
                acc_external_id = [], acc_display_name = name, acc_status = ''unlinked'',
                acc_hosting_mode = ''self_hosted'', acc_worker_id = [], acc_generation = 0,
                acc_last_seen_at = None, acc_created_at = zero_time,
                acc_enrollment_end = clock e + 10 * minute\<rparr>
               enrollment_id enrollment) db))"

text \<open>Rows with equal creation times come in the order the table keeps them.\<close>

definition pg_list :: "env \<Rightarrow> string \<Rightarrow> 'h db \<Rightarrow> go_error + account list" where
  "pg_list e user db =
     attempt (stmt e 0 ''list accounts''
       (Some (sort_key a_created_at (filter (\<lambda>r. a_user_id r = user) (db_accounts db))))) (\<lambda>rows.
     attempt (stmt e 1 ''scan account'' (Some (map scan_account rows))) (\<lambda>accounts.
     stmt e 2 ''list account rows'' (Some accounts)))"

definition pg_get :: "env \<Rightarrow> string \<Rightarrow> string \<Rightarrow> 'h db \<Rightarrow> go_error + account" where
  "pg_get e user a db =
     query_row e 0 ''get account'' ErrNotFound
       (map_option scan_account
         (List.find (\<lambda>r. a_id r = a \<and> a_user_id r = user) (db_accounts db)))"

definition pg_delete :: "env \<Rightarrow> string \<Rightarrow> string \<Rightarrow> ('h db, unit) store_op" where
  "pg_delete e user a db =
     (let target = (\<lambda>r. a_id r = a \<and> a_user_id r = user) in
      in_tx (\<lambda>db.
        attempt (stmt e 0 ''delete account'' (Some (delete_accounts target db))) (\<lambda>db'.
        attempt (fail_if (length (filter target (db_accounts db)) = 0) ErrNotFound) (\<lambda>_.
        Inr ((), db')))) db)"

text \<open>\<open>SELECT ... FROM worker_credentials w JOIN accounts a\<close>.\<close>

definition credential_account :: "'h \<Rightarrow> 'h db \<Rightarrow> account_row option" where
  "credential_account h db =
     Option.bind (List.find (\<lambda>w. w_token_hash w = h \<and> w_revoked_at w = None)
         (db_worker_credentials db))
       (\<lambda>w. row_by a_id (w_account_id w) (db_accounts db))"

text \<open>\<open>SELECT ... FROM pairing_tokens p JOIN accounts a\<close>.\<close>

definition pairing_account :: "'h \<Rightarrow> 'h db \<Rightarrow> ('h pairing_row \<times> account_row) option" where
  "pairing_account h db =
     Option.bind (row_by p_token_hash h (db_pairing_tokens db))
       (\<lambda>p. map_option (Pair p) (row_by a_id (p_account_id p) (db_accounts db)))"

text \<open>\<open>generation + 1\<close> is refused by the server when it leaves the range of \<open>bigint\<close>.\<close>

definition activate_worker :: "string \<Rightarrow> string \<Rightarrow> 'h db \<Rightarrow> (int \<times> 'h db) option" where
  "activate_worker a worker_id db =
     (case row_by a_id a (db_accounts db) of
        None \<Rightarrow> None
      | Some r \<Rightarrow>
          if a_generation r + 1 \<ge> 2 ^ 63 then None
          else Some (a_generation r + 1,
            db\<lparr>db_accounts := update_where (\<lambda>r. a_id r = a)
              (\<lambda>r. r\<lparr>a_worker_id := Some worker_id, a_generation := a_generation r + 1,
                 a_status := ''offline''\<rparr>) (db_accounts db)\<rparr>))"

text \<open>The first half of \<open>redeemEnrollment\<close>, before anything is written.\<close>

definition read_enrollment ::
  "env \<Rightarrow> 'h \<Rightarrow> string \<Rightarrow> 'h db \<Rightarrow> go_error + 'h pairing_row \<times> account_row" where
  "read_enrollment e token_hash platform db =
     attempt (stmt e 1 ''begin enrollment'' (Some db)) (\<lambda>db.
     attempt (query_row e 2 ''read enrollment'' ErrInvalidToken
       (pairing_account token_hash db)) (\<lambda>(pairing, row).
     attempt (fail_if (p_redeemed_at pairing \<noteq> None \<or> p_revoked_at pairing \<noteq> None)
       ErrInvalidToken) (\<lambda>_.
     attempt (fail_if (clock e > p_expires_at pairing) ErrExpiredToken) (\<lambda>_.
     attempt (fail_if (acc_platform (scan_account row) \<noteq> platform) ErrPlatformMismatch) (\<lambda>_.
     Inr (pairing, row))))))"

definition redeem_enrollment ::
  "(string \<Rightarrow> 'h) \<Rightarrow> env \<Rightarrow> 'h \<Rightarrow> string \<Rightarrow> 'h db \<Rightarrow> go_error + worker_auth \<times> 'h db" where
  "redeem_enrollment sha e token_hash platform db =
     attempt (read_enrollment e token_hash platform db) (\<lambda>(pairing, row).
     let account = scan_account row in
     attempt (random_value e 0 ''say_worker_'' 32) (\<lambda>credential.
     attempt (random_value e 1 ''wrk_'' 16) (\<lambda>worker_id.
     attempt (random_value e 2 ''wcr_'' 16) (\<lambda>credential_id.
     attempt (stmt e 3 ''redeem pairing token''
       (Some (db\<lparr>db_pairing_tokens := update_where (\<lambda>p. p_id p = p_id pairing)
          (\<lambda>p. p\<lparr>p_redeemed_at := Some (db_now e)\<rparr>) (db_pairing_tokens db)\<rparr>))) (\<lambda>db.
     attempt (stmt e 4 ''insert worker credential'' (insert_worker_credential
       \<lparr>w_id = credential_id, w_account_id = acc_id account, w_token_hash = sha credential,
        w_revoked_at = None\<rparr> db)) (\<lambda>db.
     attempt (stmt e 5 ''activate worker'' (activate_worker (acc_id account) worker_id db))
       (\<lambda>(generation, db).
     attempt (stmt e 6 ''commit enrollment'' (Some db)) (\<lambda>db.
     Inr (\<lparr>wa_account = account\<lparr>acc_generation := word_of_int generation,
               acc_worker_id := worker_id, acc_status := ''offline''\<rparr>,
           wa_credential = credential\<rparr>, db)))))))))"

definition pg_auth ::
  "(string \<Rightarrow> 'h) \<Rightarrow> env \<Rightarrow> string \<Rightarrow> string \<Rightarrow> ('h db, worker_auth) store_op" where
  "pg_auth sha e token platform db =
     (case db_fault e 0 of
        Some err \<Rightarrow> (Inl (Wrapped ''lookup worker credential'' err), db)
      | None \<Rightarrow>
          (case credential_account (sha token) db of
             Some row \<Rightarrow>
               if acc_platform (scan_account row) \<noteq> platform then (Inl ErrPlatformMismatch, db)
               else (Inr \<lparr>wa_account = scan_account row, wa_credential = []\<rparr>, db)
           | None \<Rightarrow> in_tx (redeem_enrollment sha e (sha token) platform) db))"

text \<open>
  \<open>UPDATE accounts SET ... WHERE id = $1 AND generation = $2\<close>. The driver refuses to send a
  \<open>uint64\<close> that does not fit the column's \<open>bigint\<close>.
\<close>

definition worker_update ::
  "env \<Rightarrow> string \<Rightarrow> string \<Rightarrow> 64 word \<Rightarrow> (account_row \<Rightarrow> account_row) \<Rightarrow> ('h db, unit) store_op"
where
  "worker_update e msg a generation f db =
     in_tx (\<lambda>db.
       attempt (fail_if (uint generation \<ge> 2 ^ 63)
         (Wrapped msg (NewError ''greater than maximum value for int64''))) (\<lambda>_.
       attempt (stmt e 0 msg (Some (db\<lparr>db_accounts :=
           update_where (\<lambda>r. a_id r = a \<and> a_generation r = uint generation) f
             (db_accounts db)\<rparr>))) (\<lambda>db.
       Inr ((), db)))) db"

definition pg_set_status :: "env \<Rightarrow> string \<Rightarrow> 64 word \<Rightarrow> string \<Rightarrow> ('h db, unit) store_op" where
  "pg_set_status e a generation status db =
     (if status \<noteq> ''live'' \<and> status \<noteq> ''offline'' \<and> status \<noteq> ''unlinked'' \<and>
         status \<noteq> ''linking'' \<and> status \<noteq> ''upgrade_required''
      then (Inl (NewError (''invalid worker status '' @ status)), db)
      else worker_update e ''set worker status'' a generation
        (\<lambda>r. r\<lparr>a_status := status, a_last_seen_at := Some (db_now e)\<rparr>) db)"

definition pg_touch :: "env \<Rightarrow> string \<Rightarrow> 64 word \<Rightarrow> ('h db, unit) store_op" where
  "pg_touch e a generation =
     worker_update e ''touch worker'' a generation
       (\<lambda>r. r\<lparr>a_last_seen_at := Some (db_now e)\<rparr>)"

definition pg_set_identity ::
  "env \<Rightarrow> string \<Rightarrow> 64 word \<Rightarrow> string \<Rightarrow> string \<Rightarrow> ('h db, unit) store_op" where
  "pg_set_identity e a generation status external_id db =
     (if status \<noteq> ''live'' \<and> status \<noteq> ''unlinked'' \<and> status \<noteq> ''linking'' \<and>
         status \<noteq> ''upgrade_required''
      then (Inl (NewError (''invalid worker identity status '' @ status)), db)
      else worker_update e ''set worker identity'' a generation
        (\<lambda>r. r\<lparr>a_status := status,
           a_external_id := (if external_id = [] then None else Some external_id),
           a_last_seen_at := Some (db_now e),
           a_linked_at := (if status = ''live''
             then Some (case a_linked_at r of None \<Rightarrow> db_now e | Some t \<Rightarrow> t)
             else a_linked_at r)\<rparr>) db)"

definition postgres_store :: "(string \<Rightarrow> 'h) \<Rightarrow> 'h db account_store" where
  "postgres_store sha = \<lparr>store_create = pg_create sha, store_list = pg_list,
     store_get = pg_get, store_delete = pg_delete, store_auth = pg_auth sha,
     store_set_status = pg_set_status, store_set_identity = pg_set_identity,
     store_touch = pg_touch\<rparr>"


subsection \<open>The enrollment invariant\<close>

text \<open>
  Beyond the schema: an account has at most one pairing token and, while that is not redeemed,
  generation 0; an account with a worker credential has generation 1, and credentials are never
  revoked; so a generation is 0 or 1.
\<close>

definition has_generation :: "account_row list \<Rightarrow> string \<Rightarrow> int \<Rightarrow> bool" where
  "has_generation rows a g \<longleftrightarrow> (\<forall>r \<in> set rows. a_id r = a \<longrightarrow> a_generation r = g)"

definition enrollment_ok ::
  "account_row list \<Rightarrow> 'h pairing_row list \<Rightarrow> 'h credential_row list \<Rightarrow> bool" where
  "enrollment_ok accounts pairings credentials \<longleftrightarrow>
     (\<forall>r \<in> set accounts. a_generation r = 0 \<or> a_generation r = 1) \<and>
     unique_by p_account_id pairings \<and>
     (\<forall>p \<in> set pairings. p_redeemed_at p = None \<longrightarrow> has_generation accounts (p_account_id p) 0) \<and>
     (\<forall>w \<in> set credentials. w_revoked_at w = None \<and> has_generation accounts (w_account_id w) 1)"

definition pg_ok :: "'h db \<Rightarrow> bool" where
  "pg_ok db \<longleftrightarrow> db_ok db \<and>
     enrollment_ok (db_accounts db) (db_pairing_tokens db) (db_worker_credentials db)"

definition pg_view :: "'h db \<Rightarrow> string \<Rightarrow> account option" where
  "pg_view db a = map_option scan_account (row_by a_id a (db_accounts db))"

text \<open>The only coincidence to exclude: a new credential with the hash of the token it replaces.\<close>

definition pg_fresh :: "(string \<Rightarrow> 'h) \<Rightarrow> env \<Rightarrow> store_call \<Rightarrow> 'h db \<Rightarrow> bool" where
  "pg_fresh sha e c db =
     (case c of
        Auth t p \<Rightarrow> (case random_value e 0 ''say_worker_'' 32 of
            Inl _ \<Rightarrow> True | Inr credential \<Rightarrow> sha credential \<noteq> sha t)
      | _ \<Rightarrow> True)"

lemma pg_ok_empty: "pg_ok empty_db"
  by (simp add: pg_ok_def db_ok_empty enrollment_ok_def) (simp add: empty_db_def)

lemma pg_okD:
  assumes "pg_ok db"
  shows pg_ok_schema: "db_ok db"
    and pg_ok_generation: "\<And>r. r \<in> set (db_accounts db) \<Longrightarrow> a_generation r = 0 \<or> a_generation r = 1"
    and pg_ok_one_pairing: "unique_by p_account_id (db_pairing_tokens db)"
    and pg_ok_pairing: "\<And>p. p \<in> set (db_pairing_tokens db) \<Longrightarrow> p_redeemed_at p = None \<Longrightarrow>
      has_generation (db_accounts db) (p_account_id p) 0"
    and pg_ok_credential: "\<And>w. w \<in> set (db_worker_credentials db) \<Longrightarrow>
      w_revoked_at w = None \<and> has_generation (db_accounts db) (w_account_id w) 1"
  using assms by (auto simp: pg_ok_def enrollment_ok_def)

text \<open>Statements on the other tables keep it.\<close>

lemma pg_ok_frame:
  "pg_ok db \<Longrightarrow> db_ok db' \<Longrightarrow> db_accounts db' = db_accounts db \<Longrightarrow>
   db_pairing_tokens db' = db_pairing_tokens db \<Longrightarrow>
   db_worker_credentials db' = db_worker_credentials db \<Longrightarrow> pg_ok db'"
  by (simp add: pg_ok_def)

lemma has_generation_update:
  assumes "\<And>r. P r \<Longrightarrow> a_id (f r) = a_id r \<and> a_generation (f r) = a_generation r"
  shows "has_generation (update_where P f rows) a g \<longleftrightarrow> has_generation rows a g"
proof -
  have "a_id (if P r then f r else r) = a_id r"
    "a_generation (if P r then f r else r) = a_generation r" for r
    using assms by simp_all
  then show ?thesis by (simp add: has_generation_def ball_update_where)
qed

lemma pg_ok_update_accounts:
  assumes "pg_ok db"
    and "\<And>r. P r \<Longrightarrow> a_id (f r) = a_id r \<and> a_user_id (f r) = a_user_id r \<and>
      a_generation (f r) = a_generation r"
    and "\<And>r. P r \<Longrightarrow> account_check r \<Longrightarrow> account_check (f r)"
  shows "pg_ok (db\<lparr>db_accounts := update_where P f (db_accounts db)\<rparr>)"
proof -
  have "db_ok (db\<lparr>db_accounts := update_where P f (db_accounts db)\<rparr>)"
    using assms by (intro update_accounts_ok) (simp_all add: pg_ok_schema)
  moreover have "\<forall>r \<in> set (update_where P f (db_accounts db)).
      a_generation r = 0 \<or> a_generation r = 1"
  proof -
    have "a_generation (if P r then f r else r) = a_generation r" for r using assms(2) by simp
    then show ?thesis using pg_ok_generation [OF assms(1)] by (simp add: ball_update_where)
  qed
  ultimately show ?thesis
    using pg_okD [OF assms(1)] assms(2)
    by (simp add: pg_ok_def enrollment_ok_def has_generation_update)
qed

subsubsection \<open>Creating and deleting\<close>

lemma pg_create_cases:
  obtains (Fail) err where "pg_create sha e u p n db = (Inl err, db)"
  | (Done) acc r q db1 db2 token where
    "insert_account r db = Some db1" "insert_pairing_token q db1 = Some db2"
    "a_generation r = 0" "p_account_id q = a_id r"
    "p_redeemed_at q = None" "p_revoked_at q = None" "p_token_hash q = sha token"
    "p = ''signal'' \<or> p = ''telegram''"
    "acc = (scan_account r)\<lparr>acc_enrollment_end := clock e + 10 * minute\<rparr>"
    "acc_user_id acc = u" "acc_platform acc = p" "acc_id acc = a_id r"
    "p_expires_at q = pg_time (clock e + 10 * minute)"
    "pg_create sha e u p n db = (Inr (acc, token), db2)"
proof (cases "pg_create sha e u p n db")
  case (Pair res db')
  show thesis
  proof (cases res)
    case (Inl err)
    with Pair have "db' = db"
      by (auto simp: pg_create_def dest: in_tx_Inl split: sum.splits if_splits)
    with Pair Inl Fail show thesis by simp
  next
    case (Inr v)
    obtain acc token where v: "v = (acc, token)" by (cases v)
    from Pair Inr v show thesis
      by (auto simp: pg_create_def pg_create_tx_def in_tx_Inr attempt_dests
          split: sum.splits if_splits intro!: Done)
        (auto simp: scan_account_def intro!: Done)
  qed
qed

lemma has_generation_snoc:
  "has_generation (rows @ [r]) a g \<longleftrightarrow>
   has_generation rows a g \<and> (a_id r = a \<longrightarrow> a_generation r = g)"
  by (auto simp: has_generation_def)

lemma pg_ok_insert_account:
  assumes ok: "pg_ok db" and ins: "insert_account r db = Some db'" and gen: "a_generation r = 0"
  shows "pg_ok db'"
proof -
  have db': "db' = db\<lparr>db_accounts := db_accounts db @ [r]\<rparr>" and new: "a_id r \<notin> account_ids db"
    using ins by (simp_all add: insert_account_def split: if_splits)
  have "p_account_id p \<noteq> a_id r" if "p \<in> set (db_pairing_tokens db)" for p
    using db_ok_pairing [OF pg_ok_schema [OF ok]] that new unfolding pairing_ok_def by metis
  moreover have "w_account_id w \<noteq> a_id r" if "w \<in> set (db_worker_credentials db)" for w
    using db_ok_credentials [OF pg_ok_schema [OF ok]] that new
    unfolding credentials_ok_def by metis
  ultimately show ?thesis
    using pg_okD [OF ok] insert_account_ok [OF ins] gen
    by (simp add: pg_ok_def enrollment_ok_def db' has_generation_snoc) metis
qed

lemma pg_ok_insert_pairing:
  assumes ok: "pg_ok db" and ins: "insert_pairing_token q db = Some db'"
    and new: "p_account_id q \<notin> p_account_id ` set (db_pairing_tokens db)"
    and gen: "has_generation (db_accounts db) (p_account_id q) 0"
  shows "pg_ok db'"
proof -
  have "db' = db\<lparr>db_pairing_tokens := db_pairing_tokens db @ [q]\<rparr>"
    using ins by (simp add: insert_pairing_token_def split: if_splits)
  then show ?thesis
    using pg_okD [OF ok] insert_pairing_token_ok [OF ins] new gen
    by (simp add: pg_ok_def enrollment_ok_def table_simps)
qed

lemma pg_ok_create:
  assumes ok: "pg_ok db"
  shows "pg_ok (snd (pg_create sha e u p n db))"
proof (cases sha e u p n db rule: pg_create_cases)
  case (Done acc r q db1 db2 token)
  have db1: "db1 = db\<lparr>db_accounts := db_accounts db @ [r]\<rparr>" and new: "a_id r \<notin> account_ids db"
    using Done(1) by (simp_all add: insert_account_def split: if_splits)
  have "has_generation (db_accounts db1) (p_account_id q) 0"
    using new Done(3,4) by (simp add: has_generation_def db1) (metis imageI)
  moreover have "p_account_id q \<notin> p_account_id ` set (db_pairing_tokens db1)"
    using db_ok_pairing [OF pg_ok_schema [OF ok]] new Done(4)
    by (auto simp: pairing_ok_def db1)
  ultimately have "pg_ok db2"
    using pg_ok_insert_pairing [OF pg_ok_insert_account [OF ok Done(1,3)] Done(2)] by blast
  with Done show ?thesis by simp
qed (use ok in simp)

lemma pg_ok_delete:
  assumes "pg_ok db"
  shows "pg_ok (delete_accounts P db)"
  using pg_okD [OF assms] delete_accounts_ok [OF pg_ok_schema [OF assms], of P]
  by (auto simp: pg_ok_def enrollment_ok_def has_generation_def)

subsubsection \<open>Worker writes\<close>

lemma worker_update_cases:
  obtains (Fail) err where "worker_update e msg a g f db = (Inl err, db)"
  | (Done) "worker_update e msg a g f db =
      (Inr (), db\<lparr>db_accounts := update_where (\<lambda>r. a_id r = a \<and> a_generation r = uint g) f
         (db_accounts db)\<rparr>)"
  by (cases "uint g \<ge> 2 ^ 63"; cases "db_fault e 0")
    (auto simp: worker_update_def in_tx_def stmt_def fail_if_def)

text \<open>What the three writes do to a row.\<close>

definition worker_write :: "(account_row \<Rightarrow> account_row) \<Rightarrow> bool" where
  "worker_write f \<longleftrightarrow> (\<forall>r. a_id (f r) = a_id r \<and> a_user_id (f r) = a_user_id r \<and>
     a_generation (f r) = a_generation r \<and> (account_check r \<longrightarrow> account_check (f r)) \<and>
     same_identity (scan_account r) (scan_account (f r)) \<and>
     same_worker (scan_account r) (scan_account (f r)))"

lemmas worker_write_defs = account_check_def same_identity_def same_worker_def scan_account_def

lemma worker_writeD:
  assumes "worker_write f"
  shows "a_id (f r) = a_id r" "a_user_id (f r) = a_user_id r" "a_generation (f r) = a_generation r"
    "account_check r \<Longrightarrow> account_check (f r)"
    "same_identity (scan_account r) (scan_account (f r))"
    "same_worker (scan_account r) (scan_account (f r))"
  using assms by (simp_all add: worker_write_def)

lemma worker_call:
  assumes "write_target c = Some (a, g)"
  obtains (Rejected) "run_call (postgres_store sha) e c db = db"
  | (Update) msg f where "worker_write f"
    "run_call (postgres_store sha) e c db = snd (worker_update e msg a g f db)"
proof (cases c)
  case (SetStatus b g' st)
  show thesis
  proof (cases "st \<in> set account_statuses")
    case True
    let ?f = "\<lambda>r. r\<lparr>a_status := st, a_last_seen_at := Some (db_now e)\<rparr>"
    have "worker_write ?f"
      using True by (simp add: worker_write_def worker_write_defs)
    moreover have "run_call (postgres_store sha) e c db =
        snd (worker_update e ''set worker status'' a g ?f db)"
      using True SetStatus assms
      by (auto simp: postgres_store_def pg_set_status_def account_statuses_def)
    ultimately show thesis by (rule that(2))
  next
    case False
    with SetStatus that(1) show thesis
      by (simp add: postgres_store_def pg_set_status_def account_statuses_def)
  qed
next
  case (SetIdentity b g' st x)
  show thesis
  proof (cases "st \<in> set account_statuses - {''offline''}")
    case True
    let ?f = "\<lambda>r. r\<lparr>a_status := st, a_external_id := if x = [] then None else Some x,
        a_last_seen_at := Some (db_now e), a_linked_at := if st = ''live''
          then Some (case a_linked_at r of None \<Rightarrow> db_now e | Some t \<Rightarrow> t) else a_linked_at r\<rparr>"
    have "worker_write ?f"
      using True by (simp add: worker_write_def worker_write_defs)
    moreover have "run_call (postgres_store sha) e c db =
        snd (worker_update e ''set worker identity'' a g ?f db)"
      using True SetIdentity assms
      by (auto simp: postgres_store_def pg_set_identity_def account_statuses_def)
    ultimately show thesis by (rule that(2))
  next
    case False
    with SetIdentity have "run_call (postgres_store sha) e c db = db"
      by (auto simp: postgres_store_def pg_set_identity_def account_statuses_def)
    then show thesis by (rule that(1))
  qed
next
  case (Touch b g')
  have "worker_write (\<lambda>r. r\<lparr>a_last_seen_at := Some (db_now e)\<rparr>)"
    by (simp add: worker_write_def worker_write_defs)
  with Touch assms that(2) show thesis
    by (simp add: postgres_store_def pg_touch_def)
qed (use assms in simp_all)

lemma pg_ok_worker_update:
  assumes "pg_ok db" "worker_write f"
  shows "pg_ok (snd (worker_update e msg a g f db))"
  using assms(1)
  by (cases e msg a g f db rule: worker_update_cases)
    (simp_all add: pg_ok_update_accounts worker_writeD [OF assms(2)])

lemma pg_view_worker_update:
  assumes "worker_write f"
  shows "pg_view (snd (worker_update e msg a g f db)) b = pg_view db b \<or>
    pg_view (snd (worker_update e msg a g f db)) b =
      map_option scan_account (map_option
        (\<lambda>r. if a_id r = a \<and> a_generation r = uint g then f r else r)
        (row_by a_id b (db_accounts db)))"
proof (cases e msg a g f db rule: worker_update_cases)
  case Done
  then show ?thesis
    using worker_writeD(1) [OF assms] by (simp add: pg_view_def row_by_update_where)
qed simp

subsubsection \<open>Authentication\<close>

lemma read_enrollment_eq_Inr [attempt_dests]:
  "read_enrollment e h p db = Inr (q, r) \<longleftrightarrow>
   db_fault e 1 = None \<and> db_fault e 2 = None \<and>
   row_by p_token_hash h (db_pairing_tokens db) = Some q \<and>
   row_by a_id (p_account_id q) (db_accounts db) = Some r \<and>
   p_redeemed_at q = None \<and> p_revoked_at q = None \<and> clock e \<le> p_expires_at q \<and>
   a_platform r = p"
  by (auto simp: read_enrollment_def attempt_dests pairing_account_def bind_eq_Some_conv
      scan_account_def not_less)

lemma activate_worker_eq_Some:
  "activate_worker a v db = Some (g, db') \<longleftrightarrow>
   (\<exists>r. row_by a_id a (db_accounts db) = Some r \<and> g = a_generation r + 1 \<and> g < 2 ^ 63 \<and>
      db' = db\<lparr>db_accounts := update_where (\<lambda>r. a_id r = a)
              (\<lambda>r. r\<lparr>a_worker_id := Some v, a_generation := a_generation r + 1,
                 a_status := ''offline''\<rparr>) (db_accounts db)\<rparr>)"
  by (auto simp: activate_worker_def split: option.split)

definition activated :: "string \<Rightarrow> account_row \<Rightarrow> account_row" where
  "activated v r = r\<lparr>a_worker_id := Some v, a_generation := a_generation r + 1,
     a_status := ''offline''\<rparr>"

definition redeemed :: "env \<Rightarrow> 'h pairing_row \<Rightarrow> 'h pairing_row" where
  "redeemed e p = p\<lparr>p_redeemed_at := Some (db_now e)\<rparr>"

lemma redeemed_eta: "redeemed e = p_redeemed_at_update (\<lambda>_. Some (db_now e))"
  by (simp add: redeemed_def fun_eq_iff)

lemma redeem_eq_Inr:
  assumes "redeem_enrollment sha e h p db = Inr (w, db')"
  obtains q r v i where
    "read_enrollment e h p db = Inr (q, r)"
    "random_value e 0 ''say_worker_'' 32 = Inr (wa_credential w)"
    "insert_worker_credential \<lparr>w_id = i, w_account_id = a_id r,
        w_token_hash = sha (wa_credential w), w_revoked_at = None\<rparr>
       (db\<lparr>db_pairing_tokens := update_where (\<lambda>p. p_id p = p_id q) (redeemed e)
          (db_pairing_tokens db)\<rparr>) = Some (db'\<lparr>db_accounts := db_accounts db\<rparr>)"
    "db_accounts db' = update_where (\<lambda>r'. a_id r' = a_id r) (activated v) (db_accounts db)"
    "wa_account w = scan_account (activated v r)"
proof -
  let ?paired = "\<lambda>q. db\<lparr>db_pairing_tokens := update_where (\<lambda>p. p_id p = p_id q) (redeemed e)
          (db_pairing_tokens db)\<rparr>"
  from assms obtain q r i v g db2 where *:
    "read_enrollment e h p db = Inr (q, r)"
    "random_value e 0 ''say_worker_'' 32 = Inr (wa_credential w)"
    "insert_worker_credential \<lparr>w_id = i, w_account_id = a_id r,
        w_token_hash = sha (wa_credential w), w_revoked_at = None\<rparr> (?paired q) = Some db2"
    "activate_worker (a_id r) v db2 = Some (g, db')"
    "wa_account w = (scan_account r)\<lparr>acc_generation := word_of_int g, acc_worker_id := v,
       acc_status := ''offline''\<rparr>"
    unfolding redeem_enrollment_def
    by (auto simp: attempt_eq_Inr stmt_eq_Inr Let_def scan_account_def redeemed_eta)
  have acc: "db_accounts db2 = db_accounts db"
    using *(3) by (auto simp: insert_worker_credential_def split: if_splits)
  obtain r' where r': "row_by a_id (a_id r) (db_accounts db) = Some r'" "g = a_generation r' + 1"
    "db' = db2\<lparr>db_accounts := update_where (\<lambda>r'. a_id r' = a_id r) (activated v)
       (db_accounts db)\<rparr>"
    using *(4) by (auto simp: activate_worker_eq_Some acc activated_def [abs_def])
  have "r' = r"
    using r'(1) *(1) row_by_key by (fastforce simp: read_enrollment_eq_Inr)
  with * r' acc show thesis
    by (intro that [of q r i v]) (simp_all add: scan_account_def activated_def)
qed

lemma pg_auth_cases:
  obtains (Fail) err where "pg_auth sha e t p db = (Inl err, db)"
  | (Known) r where "credential_account (sha t) db = Some r" "a_platform r = p"
    "pg_auth sha e t p db = (Inr \<lparr>wa_account = scan_account r, wa_credential = []\<rparr>, db)"
  | (Enrolled) w db' where "credential_account (sha t) db = None"
    "redeem_enrollment sha e (sha t) p db = Inr (w, db')"
    "pg_auth sha e t p db = (Inr w, db')"
proof (cases "db_fault e 0")
  case None
  show thesis
  proof (cases "credential_account (sha t) db")
    case None
    with \<open>db_fault e 0 = None\<close> Fail Enrolled show thesis
      by (cases rule: in_tx_cases [of "redeem_enrollment sha e (sha t) p" db])
        (simp_all add: pg_auth_def)
  next
    case (Some r)
    with \<open>db_fault e 0 = None\<close> Fail Known show thesis
      by (cases "a_platform r = p") (simp_all add: pg_auth_def scan_account_def)
  qed
qed (use Fail in \<open>simp add: pg_auth_def\<close>)

lemma activated_simps [simp]:
  "a_id (activated v r) = a_id r" "a_user_id (activated v r) = a_user_id r"
  "a_platform (activated v r) = a_platform r"
  "a_generation (activated v r) = a_generation r + 1"
  "a_status (activated v r) = ''offline''" "a_hosting_mode (activated v r) = a_hosting_mode r"
  by (simp_all add: activated_def)

lemma redeemed_simps [simp]:
  "p_id (redeemed e q) = p_id q" "p_token_hash (redeemed e q) = p_token_hash q"
  "p_account_id (redeemed e q) = p_account_id q"
  "p_redeemed_at (redeemed e q) = Some (db_now e)"
  by (simp_all add: redeemed_def)

text \<open>What a redeemed enrollment leaves behind.\<close>

lemma redeem_tables:
  assumes "redeem_enrollment sha e h p db = Inr (w, db')"
  obtains q r v i where
    "read_enrollment e h p db = Inr (q, r)"
    "db_accounts db' = update_where (\<lambda>r'. a_id r' = a_id r) (activated v) (db_accounts db)"
    "db_pairing_tokens db' = update_where (\<lambda>p. p_id p = p_id q) (redeemed e) (db_pairing_tokens db)"
    "db_worker_credentials db' = db_worker_credentials db @
       [\<lparr>w_id = i, w_account_id = a_id r, w_token_hash = sha (wa_credential w),
         w_revoked_at = None\<rparr>]"
    "sha (wa_credential w) \<notin> w_token_hash ` set (db_worker_credentials db)"
    "random_value e 0 ''say_worker_'' 32 = Inr (wa_credential w)"
    "wa_account w = scan_account (activated v r)"
    "db_ok db \<Longrightarrow> db_ok db'"
proof -
  from assms obtain q r v i where *:
    "read_enrollment e h p db = Inr (q, r)"
    "random_value e 0 ''say_worker_'' 32 = Inr (wa_credential w)"
    "insert_worker_credential \<lparr>w_id = i, w_account_id = a_id r,
        w_token_hash = sha (wa_credential w), w_revoked_at = None\<rparr>
       (db\<lparr>db_pairing_tokens := update_where (\<lambda>p. p_id p = p_id q) (redeemed e)
          (db_pairing_tokens db)\<rparr>) = Some (db'\<lparr>db_accounts := db_accounts db\<rparr>)"
    "db_accounts db' = update_where (\<lambda>r'. a_id r' = a_id r) (activated v) (db_accounts db)"
    "wa_account w = scan_account (activated v r)"
    by (rule redeem_eq_Inr)
  have "db'\<lparr>db_accounts := db_accounts db\<rparr> =
      db\<lparr>db_pairing_tokens := update_where (\<lambda>p. p_id p = p_id q) (redeemed e) (db_pairing_tokens db),
         db_worker_credentials := db_worker_credentials db @
       [\<lparr>w_id = i, w_account_id = a_id r, w_token_hash = sha (wa_credential w),
         w_revoked_at = None\<rparr>]\<rparr>"
    and new: "sha (wa_credential w) \<notin> w_token_hash ` set (db_worker_credentials db)"
    using *(3) by (auto simp: insert_worker_credential_def split: if_splits)
  from arg_cong [OF this(1), of db_pairing_tokens]
    arg_cong [OF this(1), of db_worker_credentials]
  have tables:
    "db_pairing_tokens db' = update_where (\<lambda>p. p_id p = p_id q) (redeemed e) (db_pairing_tokens db)"
    "db_worker_credentials db' = db_worker_credentials db @
       [\<lparr>w_id = i, w_account_id = a_id r, w_token_hash = sha (wa_credential w),
         w_revoked_at = None\<rparr>]"
    by simp_all
  have "db_ok db'" if ok: "db_ok db"
  proof -
    have "db_ok (db'\<lparr>db_accounts := db_accounts db\<rparr>)"
      by (rule insert_worker_credential_ok [OF *(3)], rule update_pairing_ok [OF ok]) simp
    then have "db_ok (db'\<lparr>db_accounts := db_accounts db\<rparr>\<lparr>db_accounts :=
        update_where (\<lambda>r'. a_id r' = a_id r) (activated v)
          (db_accounts (db'\<lparr>db_accounts := db_accounts db\<rparr>))\<rparr>)"
      by (rule update_accounts_ok) (simp_all add: account_check_def account_statuses_def)
    then show ?thesis by (simp flip: *(4))
  qed
  with * tables new show thesis by (intro that)
qed

text \<open>The account of an unredeemed token has generation 0, and no other token.\<close>

lemma read_enrollment_ok:
  assumes ok: "pg_ok db" and read: "read_enrollment e h p db = Inr (q, r)"
  shows "q \<in> set (db_pairing_tokens db)" "r \<in> set (db_accounts db)" "p_account_id q = a_id r"
    "a_generation r = 0"
    and "\<And>q'. q' \<in> set (db_pairing_tokens db) \<Longrightarrow> p_account_id q' = a_id r \<Longrightarrow> q' = q"
    and "\<And>w. w \<in> set (db_worker_credentials db) \<Longrightarrow> w_account_id w \<noteq> a_id r"
proof -
  show mem: "q \<in> set (db_pairing_tokens db)" "r \<in> set (db_accounts db)" "p_account_id q = a_id r"
    using read by (auto simp: read_enrollment_eq_Inr dest: row_byD)
  show gen: "a_generation r = 0"
    using pg_ok_pairing [OF ok mem(1)] mem read
    by (auto simp: read_enrollment_eq_Inr has_generation_def)
  show "q' = q" if "q' \<in> set (db_pairing_tokens db)" "p_account_id q' = a_id r" for q'
    using unique_by_memD [OF pg_ok_one_pairing [OF ok] that(1) mem(1)] that(2) mem(3) by simp
  show "w_account_id w \<noteq> a_id r" if "w \<in> set (db_worker_credentials db)" for w
    using pg_ok_credential [OF ok that] mem(2) gen by (auto simp: has_generation_def)
qed

lemma pg_ok_redeem:
  assumes ok: "pg_ok db" and redeem: "redeem_enrollment sha e h p db = Inr (w, db')"
  shows "pg_ok db'"
  using redeem
proof (rule redeem_tables)
  fix q r v i
  assume read: "read_enrollment e h p db = Inr (q, r)"
    and accounts: "db_accounts db' = update_where (\<lambda>r'. a_id r' = a_id r) (activated v) (db_accounts db)"
    and pairings: "db_pairing_tokens db' =
      update_where (\<lambda>p. p_id p = p_id q) (redeemed e) (db_pairing_tokens db)"
    and credentials: "db_worker_credentials db' = db_worker_credentials db @
       [\<lparr>w_id = i, w_account_id = a_id r, w_token_hash = sha (wa_credential w),
         w_revoked_at = None\<rparr>]"
    and "db_ok db \<Longrightarrow> db_ok db'"
  then have schema: "db_ok db'" using pg_ok_schema [OF ok] by blast
  note q = read_enrollment_ok [OF ok read]
  have only: "r' = r" if "r' \<in> set (db_accounts db)" "a_id r' = a_id r" for r'
    using unique_by_memD [OF unique_accounts [OF pg_ok_schema [OF ok]] that(1) q(2) that(2)] .
  have other: "has_generation (db_accounts db') b g"
    if "has_generation (db_accounts db) b g" "b \<noteq> a_id r" for b g
    using that by (auto simp: has_generation_def accounts ball_update_where)
  have own: "has_generation (db_accounts db') (a_id r) 1"
    using only q(4) by (auto simp: has_generation_def accounts ball_update_where)
  have generations: "\<forall>r \<in> set (db_accounts db'). a_generation r = 0 \<or> a_generation r = 1"
    using pg_ok_generation [OF ok] only q(4) by (auto simp: accounts ball_update_where)
  have "unique_by p_account_id (db_pairing_tokens db')"
    using pg_ok_one_pairing [OF ok] by (simp add: pairings unique_by_update_where)
  moreover have "\<forall>p \<in> set (db_pairing_tokens db').
      p_redeemed_at p = None \<longrightarrow> has_generation (db_accounts db') (p_account_id p) 0"
    unfolding pairings ball_update_where
  proof (intro ballI)
    fix p
    assume p: "p \<in> set (db_pairing_tokens db)"
    show "p_redeemed_at (if p_id p = p_id q then redeemed e p else p) = None \<longrightarrow>
        has_generation (db_accounts db')
          (p_account_id (if p_id p = p_id q then redeemed e p else p)) 0"
      using pg_ok_pairing [OF ok p] q(5) [OF p] other by auto
  qed
  moreover have "\<forall>w \<in> set (db_worker_credentials db').
      w_revoked_at w = None \<and> has_generation (db_accounts db') (w_account_id w) 1"
    using pg_ok_credential [OF ok] q(6) other own by (auto simp: credentials)
  ultimately show ?thesis
    using schema generations by (simp add: pg_ok_def enrollment_ok_def)
qed

lemma pg_ok_auth: "pg_ok db \<Longrightarrow> pg_ok (snd (pg_auth sha e t p db))"
  by (cases sha e t p db rule: pg_auth_cases) (simp_all add: pg_ok_redeem)

lemma pg_ok_mark_workers_offline:
  assumes "pg_ok db"
  shows "pg_ok (snd (mark_workers_offline e db))"
proof -
  have "pg_ok (db\<lparr>db_accounts := update_where (\<lambda>r. a_status r = ''live'')
      (\<lambda>r. r\<lparr>a_status := ''offline''\<rparr>) (db_accounts db)\<rparr>)"
    using assms
    by (rule pg_ok_update_accounts) (simp_all add: account_check_def account_statuses_def)
  with assms show ?thesis
    by (cases "db_fault e 0") (simp_all add: mark_workers_offline_def in_tx_def stmt_def)
qed

lemma pg_ok_step:
  assumes "pg_ok db"
  shows "pg_ok (run_call (postgres_store sha) e c db)"
proof (cases "write_target c")
  case (Some ag)
  then show ?thesis
    using assms pg_ok_worker_update
    by (cases ag) (auto elim!: worker_call [where sha = sha and e = e and db = db])
next
  case None
  then show ?thesis
  proof (cases c)
    case (Delete u a)
    then show ?thesis
      using assms
      by (auto simp: postgres_store_def pg_delete_def in_tx_def attempt_def fail_if_def stmt_def
          Let_def pg_ok_delete split: option.split)
  qed (use assms in \<open>simp_all add: postgres_store_def pg_ok_create pg_ok_auth\<close>)
qed

subsection \<open>The interface\<close>

lemma pg_get_view:
  assumes "pg_ok db"
  shows "pg_get e u a db = query_row e 0 ''get account'' ErrNotFound
    (case pg_view db a of None \<Rightarrow> None | Some acc \<Rightarrow> if acc_user_id acc = u then Some acc else None)"
  using find_by_key [OF unique_accounts [OF pg_ok_schema [OF assms]], of a "\<lambda>r. a_user_id r = u"]
  by (auto simp: pg_get_def pg_view_def scan_account_def split: option.split)

lemma pg_delete_view:
  assumes view: "pg_view db b = Some acc" and other: "b \<noteq> a \<or> acc_user_id acc \<noteq> u"
  shows "pg_view (snd (pg_delete e u a db)) b = Some acc"
proof -
  obtain r where r: "row_by a_id b (db_accounts db) = Some r" "acc = scan_account r"
    using view by (auto simp: pg_view_def)
  let ?keep = "\<lambda>r. \<not> (a_id r = a \<and> a_user_id r = u)"
  have "row_by a_id b (filter ?keep (db_accounts db)) = Some r"
    using r other row_by_key [OF r(1)]
    by (intro row_by_filter_keep) (auto simp: scan_account_def)
  then show ?thesis
    using view r
    by (auto simp: pg_delete_def in_tx_def attempt_def fail_if_def stmt_def Let_def pg_view_def
        split: option.split)
qed

lemma pg_create_view:
  assumes "pg_view db a = Some acc"
  shows "pg_view (snd (pg_create sha e u p n db)) a = Some acc"
proof (cases sha e u p n db rule: pg_create_cases)
  case (Done acc' r q db1 db2 token)
  have "db_accounts db2 = db_accounts db @ [r]"
    using Done(1,2) by (auto simp: insert_account_def insert_pairing_token_def split: if_splits)
  with Done assms show ?thesis by (auto simp: pg_view_def row_by_append)
qed (use assms in simp)

lemma pg_redeem_view:
  assumes ok: "pg_ok db" and redeem: "redeem_enrollment sha e h p db = Inr (w, db')"
  obtains r v where "row_by a_id (a_id r) (db_accounts db) = Some r" "a_platform r = p"
    "a_generation r = 0" "wa_account w = scan_account (activated v r)"
    "\<And>a. row_by a_id a (db_accounts db') = map_option
       (\<lambda>r'. if a_id r' = a_id r then activated v r' else r') (row_by a_id a (db_accounts db))"
  using redeem
proof (rule redeem_tables)
  fix q r v i
  assume read: "read_enrollment e h p db = Inr (q, r)"
    and accounts: "db_accounts db' = update_where (\<lambda>r'. a_id r' = a_id r) (activated v) (db_accounts db)"
    and "wa_account w = scan_account (activated v r)"
  moreover have "row_by a_id (a_id r) (db_accounts db) = Some r" "a_platform r = p"
    using read row_by_key by (fastforce simp: read_enrollment_eq_Inr)+
  ultimately show thesis
    using read_enrollment_ok(4) [OF ok read]
    by (intro that [of r v]) (simp_all add: row_by_update_where)
qed

lemma pg_auth_view:
  assumes ok: "pg_ok db" and auth: "pg_auth sha e t p db = (Inr w, db')"
  shows "pg_view db' (acc_id (wa_account w)) = Some (wa_account w) \<and>
         acc_platform (wa_account w) = p"
proof (cases sha e t p db rule: pg_auth_cases)
  case (Known r)
  then have "row_by a_id (a_id r) (db_accounts db) = Some r"
    using row_by_key by (fastforce simp: credential_account_def bind_eq_Some_conv)
  with auth Known show ?thesis by (auto simp: pg_view_def scan_account_def)
next
  case (Enrolled w' db'')
  with auth have "redeem_enrollment sha e (sha t) p db = Inr (w, db')" by simp
  from ok this show ?thesis
  proof (rule pg_redeem_view)
    fix r v
    assume r: "row_by a_id (a_id r) (db_accounts db) = Some r" "a_platform r = p"
      and w: "wa_account w = scan_account (activated v r)"
      and "\<And>a. row_by a_id a (db_accounts db') = map_option
       (\<lambda>r'. if a_id r' = a_id r then activated v r' else r') (row_by a_id a (db_accounts db))"
    then have "row_by a_id (a_id r) (db_accounts db') = Some (activated v r)" by simp
    moreover have "acc_id (wa_account w) = a_id r" "acc_platform (wa_account w) = p"
      using r w by (simp_all add: scan_account_def)
    ultimately show ?thesis by (simp add: pg_view_def w)
  qed
qed (use auth in simp)

lemma pg_auth_frame:
  assumes ok: "pg_ok db" and view: "pg_view db a = Some acc"
  shows "pg_view (snd (pg_auth sha e t p db)) a = Some acc \<or>
    (\<exists>acc'. pg_view (snd (pg_auth sha e t p db)) a = Some acc' \<and> same_identity acc acc' \<and>
       acc_generation acc = 0 \<and> acc_generation acc' = 1)"
proof (cases sha e t p db rule: pg_auth_cases)
  case (Enrolled w db')
  from ok Enrolled(2) show ?thesis
  proof (rule pg_redeem_view)
    fix r v
    assume r: "row_by a_id (a_id r) (db_accounts db) = Some r" "a_generation r = 0"
      and rows: "\<And>a. row_by a_id a (db_accounts db') = map_option
       (\<lambda>r'. if a_id r' = a_id r then activated v r' else r') (row_by a_id a (db_accounts db))"
    obtain r' where r': "row_by a_id a (db_accounts db) = Some r'" "acc = scan_account r'"
      using view by (auto simp: pg_view_def)
    show ?thesis
    proof (cases "a = a_id r")
      case True
      with r r' have "r' = r" by simp
      moreover have "same_identity (scan_account r) (scan_account (activated v r))"
        by (simp add: same_identity_def scan_account_def activated_def)
      moreover have "acc_generation (scan_account r) = 0"
        "acc_generation (scan_account (activated v r)) = 1"
        using r(2) by (simp_all add: scan_account_def)
      ultimately show ?thesis
        using True r r' rows [of a] Enrolled by (auto simp: pg_view_def)
    next
      case False
      with r' rows [of a] Enrolled row_by_key [OF r'(1)] show ?thesis by (simp add: pg_view_def)
    qed
  qed
qed (use view in simp_all)

text \<open>A redeemed token is dead, and the credential it gave works.\<close>

lemma pg_auth_redeemed:
  assumes ok: "pg_ok db" and fresh: "pg_fresh sha e (Auth t p) db"
    and auth: "pg_auth sha e t p db = (Inr w, db')" and cred: "wa_credential w \<noteq> []"
    and env: "healthy e'"
  shows "pg_auth sha e' t q db' = (Inl ErrInvalidToken, db')"
    and "pg_auth sha e' (wa_credential w) p db' =
      (Inr \<lparr>wa_account = wa_account w, wa_credential = []\<rparr>, db')"
proof -
  have none: "credential_account (sha t) db = None"
    and redeem: "redeem_enrollment sha e (sha t) p db = Inr (w, db')"
    using auth cred by (cases sha e t p db rule: pg_auth_cases; auto)+
  from redeem obtain x r v i where *: "read_enrollment e (sha t) p db = Inr (x, r)"
    "db_accounts db' = update_where (\<lambda>r'. a_id r' = a_id r) (activated v) (db_accounts db)"
    "db_pairing_tokens db' = update_where (\<lambda>p. p_id p = p_id x) (redeemed e) (db_pairing_tokens db)"
    "db_worker_credentials db' = db_worker_credentials db @
       [\<lparr>w_id = i, w_account_id = a_id r, w_token_hash = sha (wa_credential w),
         w_revoked_at = None\<rparr>]"
    "sha (wa_credential w) \<notin> w_token_hash ` set (db_worker_credentials db)"
    "random_value e 0 ''say_worker_'' 32 = Inr (wa_credential w)"
    "wa_account w = scan_account (activated v r)"
    by (rule redeem_tables)
  note read = read_enrollment_ok [OF ok *(1)]
  have x: "row_by p_token_hash (sha t) (db_pairing_tokens db) = Some x"
    "row_by a_id (p_account_id x) (db_accounts db) = Some r" "a_platform r = p"
    using *(1) by (simp_all add: read_enrollment_eq_Inr)
  have row: "row_by a_id (a_id r) (db_accounts db') = Some (activated v r)"
    using x(2) read(3) by (simp add: *(2) row_by_update_where)
  have pairing: "pairing_account (sha t) db' = Some (redeemed e x, activated v r)"
    using x row read(3) by (simp add: pairing_account_def *(3) row_by_update_where)
  have old: "w_token_hash w' \<noteq> sha t" if "w' \<in> set (db_worker_credentials db)" for w'
  proof
    assume "w_token_hash w' = sha t"
    with none that pg_ok_credential [OF ok that] obtain w2 where
      "w2 \<in> set (db_worker_credentials db)"
      "row_by a_id (w_account_id w2) (db_accounts db) = None"
      by (fastforce simp: credential_account_def find_None_iff split: bind_splits
          dest: find_SomeD)
    then show False
      using db_ok_credentials [OF pg_ok_schema [OF ok]]
      by (auto simp: row_by_None credentials_ok_def)
  qed
  have "sha (wa_credential w) \<noteq> sha t" using fresh *(6) by (simp add: pg_fresh_def)
  with old have "List.find (\<lambda>w. w_token_hash w = sha t \<and> w_revoked_at w = None)
      (db_worker_credentials db') = None"
    unfolding find_None_iff *(4) by auto
  then have "credential_account (sha t) db' = None" by (simp add: credential_account_def)
  with pairing env show "pg_auth sha e' t q db' = (Inl ErrInvalidToken, db')"
    by (simp add: pg_auth_def redeem_enrollment_def read_enrollment_def in_tx_def)
  have new: "w_token_hash y \<noteq> sha (wa_credential w)" if "y \<in> set (db_worker_credentials db)" for y
    using *(5) that by (metis imageI)
  have "List.find (\<lambda>w'. w_token_hash w' = sha (wa_credential w) \<and> w_revoked_at w' = None)
      (db_worker_credentials db') = Some \<lparr>w_id = i, w_account_id = a_id r,
        w_token_hash = sha (wa_credential w), w_revoked_at = None\<rparr>"
    using new by (intro find_unique) (auto simp: *(4))
  with row have "credential_account (sha (wa_credential w)) db' = Some (activated v r)"
    by (simp add: credential_account_def)
  with env x(3) *(7) show "pg_auth sha e' (wa_credential w) p db' =
      (Inr \<lparr>wa_account = wa_account w, wa_credential = []\<rparr>, db')"
    by (simp add: pg_auth_def scan_account_def)
qed

lemma pg_ok_view_generation:
  "pg_ok db \<Longrightarrow> pg_view db a = Some acc \<Longrightarrow> acc_generation acc \<in> {0, 1}"
  by (auto simp: pg_view_def scan_account_def dest!: pg_ok_generation row_byD)

lemma pg_write_frame:
  assumes ok: "pg_ok db" and target: "write_target c = Some (a, g)"
    and other: "b \<noteq> a \<or> (\<forall>acc. pg_view db a = Some acc \<longrightarrow> acc_generation acc \<noteq> g)"
  shows "pg_view (run_call (postgres_store sha) e c db) b = pg_view db b"
  using target
proof (cases rule: worker_call [where sha = sha and e = e and db = db])
  case (Update msg f)
  have "map_option scan_account (map_option
      (\<lambda>r. if a_id r = a \<and> a_generation r = uint g then f r else r)
      (row_by a_id b (db_accounts db))) = pg_view db b"
  proof (cases "row_by a_id b (db_accounts db)")
    case (Some r)
    then have "\<not> (a_id r = a \<and> a_generation r = uint g)"
      using other row_by_key [OF Some] by (auto simp: pg_view_def scan_account_def)
    then have "(if a_id r = a \<and> a_generation r = uint g then f r else r) = r" by (rule if_not_P)
    with Some show ?thesis by (simp only: pg_view_def option.map)
  qed (simp add: pg_view_def)
  with pg_view_worker_update [OF Update(1), of e msg a g db b] Update(2) show ?thesis by auto
qed simp

lemma pg_write_current:
  assumes ok: "pg_ok db" and target: "write_target c = Some (a, g)"
    and view: "pg_view db a = Some acc"
  shows "\<exists>acc'. pg_view (run_call (postgres_store sha) e c db) a = Some acc' \<and>
    same_identity acc acc' \<and> same_worker acc acc'"
  using target
proof (cases rule: worker_call [where sha = sha and e = e and db = db])
  case Rejected
  with view show ?thesis by simp
next
  case (Update msg f)
  from view obtain r where "row_by a_id a (db_accounts db) = Some r" "acc = scan_account r"
    by (auto simp: pg_view_def)
  with view pg_view_worker_update [OF Update(1), of e msg a g db a] Update(2)
    worker_writeD(5,6) [OF Update(1), of r]
  show ?thesis by (auto split: if_splits)
qed

interpretation pg: account_store_laws "postgres_store sha" pg_view pg_ok "pg_fresh sha"
  for sha :: "string \<Rightarrow> 'h"
proof (unfold_locales, goal_cases)
  case (1 s e c)
  then show ?case by (simp only: pg_ok_step)
next
  case (2 s a acc)
  then show ?case by (rule pg_ok_view_generation)
next
  case (3 s e u a acc)
  then show ?case
    by (auto simp: postgres_store_def pg_get_view query_row_eq_Inr split: option.splits if_splits)
next
  case (4 s e a u)
  then show ?case by (auto simp: postgres_store_def pg_get_view split: option.split)
next
  case (5 s e u p n a acc)
  then show ?case by (simp add: postgres_store_def pg_create_view)
next
  case (6 s b acc a u e)
  then show ?case using pg_delete_view by (simp add: postgres_store_def)
next
  case (7 s c a g b e)
  then show ?case by (rule pg_write_frame)
next
  case (8 s c a g acc e)
  then show ?case by (rule pg_write_current)
next
  case (9 s e t p w s')
  then show ?case by (auto simp: postgres_store_def dest: pg_auth_view)
next
  case (10 s e t p a acc)
  then show ?case using pg_auth_frame by (simp add: postgres_store_def)
next
  case (11 s e t p w s' e' q)
  then show ?case by (simp add: postgres_store_def pg_auth_redeemed(1))
next
  case (12 s e t p w s' e')
  then show ?case by (simp add: postgres_store_def pg_auth_redeemed(2))
qed

subsection \<open>Enrollment succeeds\<close>

text \<open>The identifier and the hash of the credential that is about to be drawn are not in use.\<close>

definition new_credential :: "(string \<Rightarrow> 'h) \<Rightarrow> env \<Rightarrow> 'h db \<Rightarrow> bool" where
  "new_credential sha e db \<longleftrightarrow>
     (\<forall>c. random_value e 0 ''say_worker_'' 32 = Inr c \<longrightarrow>
        sha c \<notin> w_token_hash ` set (db_worker_credentials db)) \<and>
     (\<forall>i. random_value e 2 ''wcr_'' 16 = Inr i \<longrightarrow> i \<notin> w_id ` set (db_worker_credentials db))"

lemma pg_auth_succeeds:
  assumes ok: "pg_ok db" and env: "healthy e"
    and none: "credential_account (sha t) db = None"
    and pairing: "pairing_account (sha t) db = Some (q, r)"
    and valid: "p_redeemed_at q = None" "p_revoked_at q = None" "clock e \<le> p_expires_at q"
    and platform: "a_platform r = p" and new: "new_credential sha e db"
  shows "\<exists>w db'. pg_auth sha e t p db = (Inr w, db') \<and> acc_id (wa_account w) = a_id r \<and>
    acc_generation (wa_account w) = 1 \<and> acc_status (wa_account w) = ''offline'' \<and>
    has_prefix (wa_credential w) ''say_worker_''"
proof -
  have read: "read_enrollment e (sha t) p db = Inr (q, r)"
    using env pairing valid platform
    by (auto simp: read_enrollment_eq_Inr pairing_account_def bind_eq_Some_conv)
  note r = read_enrollment_ok [OF ok read]
  have row: "row_by a_id (a_id r) (db_accounts db) = Some r"
    using row_by_unique [OF unique_accounts [OF pg_ok_schema [OF ok]] r(2)] .
  obtain c v i where rand: "random_value e 0 ''say_worker_'' 32 = Inr c"
    "random_value e 1 ''wrk_'' 16 = Inr v" "random_value e 2 ''wcr_'' 16 = Inr i"
    using env by (simp add: random_value_def)
  let ?db1 = "db\<lparr>db_pairing_tokens := update_where (\<lambda>p. p_id p = p_id q)
      (\<lambda>p. p\<lparr>p_redeemed_at := Some (db_now e)\<rparr>) (db_pairing_tokens db)\<rparr>"
  let ?w = "\<lparr>w_id = i, w_account_id = a_id r, w_token_hash = sha c, w_revoked_at = None\<rparr>"
  have "a_id r \<notin> w_account_id ` set (filter (\<lambda>w. w_revoked_at w = None) (db_worker_credentials db))"
    using r(6) by fastforce
  moreover have "a_id r \<in> account_ids db" using r(2) by simp
  ultimately have "insert_worker_credential ?w ?db1 =
      Some (?db1\<lparr>db_worker_credentials := db_worker_credentials db @ [?w]\<rparr>)"
    using new rand by (simp add: insert_worker_credential_def new_credential_def)
  moreover have "has_prefix c ''say_worker_''"
    using rand(1) by (auto simp: random_value_eq_Inr has_prefix_def)
  ultimately show ?thesis
    using env none read rand row r(4)
    by (simp add: pg_auth_def in_tx_def redeem_enrollment_def scan_account_def
        activate_worker_def)
qed

subsection \<open>Properties\<close>

text \<open>A concrete database: Alice has an enrolled Signal account and a Telegram account whose
  enrollment token has not been used yet.\<close>

definition sample_account :: "string \<Rightarrow> string \<Rightarrow> int \<Rightarrow> account_row" where
  "sample_account a platform generation = \<lparr>a_id = a, a_user_id = ''alice'',
     a_platform = platform, a_external_id = None, a_display_name = ''Phone'',
     a_status = ''offline'', a_hosting_mode = ''self_hosted'', a_worker_id = None,
     a_generation = generation, a_last_seen_at = None, a_linked_at = None,
     a_created_at = minute\<rparr>"

definition sample_db :: "string db" where
  "sample_db = empty_db\<lparr>
     db_users := [\<lparr>u_id = ''alice'', u_email = ''alice@example.org''\<rparr>],
     db_accounts := [sample_account ''acc-1'' ''signal'' 1, sample_account ''acc-2'' ''telegram'' 0],
     db_pairing_tokens := [\<lparr>p_id = ''enr-2'', p_account_id = ''acc-2'',
       p_token_hash = ''say_enroll-2'', p_expires_at = 10 * minute, p_redeemed_at = None,
       p_revoked_at = None\<rparr>],
     db_worker_credentials := [\<lparr>w_id = ''wcr-1'', w_account_id = ''acc-1'',
       w_token_hash = ''say_worker-1'', w_revoked_at = None\<rparr>]\<rparr>"

lemma sample_account_simps [simp]:
  "a_id (sample_account a p g) = a" "a_user_id (sample_account a p g) = ''alice''"
  "a_platform (sample_account a p g) = p" "a_generation (sample_account a p g) = g"
  by (simp_all add: sample_account_def)

lemma sample_db_simps:
  "db_accounts sample_db =
     [sample_account ''acc-1'' ''signal'' 1, sample_account ''acc-2'' ''telegram'' 0]"
  "db_pairing_tokens sample_db = [\<lparr>p_id = ''enr-2'', p_account_id = ''acc-2'',
     p_token_hash = ''say_enroll-2'', p_expires_at = 10 * minute, p_redeemed_at = None,
     p_revoked_at = None\<rparr>]"
  "db_worker_credentials sample_db = [\<lparr>w_id = ''wcr-1'', w_account_id = ''acc-1'',
     w_token_hash = ''say_worker-1'', w_revoked_at = None\<rparr>]"
  by (simp_all add: sample_db_def)

lemma sample_db_ok: "pg_ok sample_db"
  by (simp add: pg_ok_def enrollment_ok_def has_generation_def db_ok_def sample_db_def empty_db_def
      table_ok_defs identified_def account_check_def account_statuses_def sample_account_def
      unique_by_def)

lemma sample_view:
  "pg_view sample_db ''acc-1'' = Some (scan_account (sample_account ''acc-1'' ''signal'' 1))"
  by (simp add: pg_view_def sample_db_def sample_account_def)

lemma sample_auth:
  "\<exists>w db'. pg_auth id (sample_env minute) ''say_enroll-2'' ''telegram'' sample_db = (Inr w, db') \<and>
     wa_credential w \<noteq> []"
proof -
  have "\<exists>w db'. pg_auth id (sample_env minute) ''say_enroll-2'' ''telegram'' sample_db =
        (Inr w, db') \<and> acc_id (wa_account w) = ''acc-2'' \<and> acc_generation (wa_account w) = 1 \<and>
        acc_status (wa_account w) = ''offline'' \<and> has_prefix (wa_credential w) ''say_worker_''"
    by (rule pg_auth_succeeds [where r = "sample_account ''acc-2'' ''telegram'' 0" and
          q = "hd (db_pairing_tokens sample_db)", simplified sample_account_simps])
      (simp_all add: sample_db_ok sample_db_simps new_credential_def pairing_account_def
        credential_account_def sample_account_simps minute_def second_def)
  then show ?thesis by (auto simp: has_prefix_def)
qed

text \<open>
  C17. Single-use enrollment: when a token has been redeemed for a worker credential, presenting the
  token again is refused with \<open>ErrInvalidToken\<close> whatever platform is asked for and changes nothing,
  while the credential authenticates as the very account that was activated.
\<close>

theorem pg_enrollment_once:
  assumes "pg_ok db" "pg_fresh sha e (Auth t p) db" "pg_auth sha e t p db = (Inr w, db')"
    and "wa_credential w \<noteq> []" "healthy e'"
  shows "pg_auth sha e' t q db' = (Inl ErrInvalidToken, db') \<and>
    pg_auth sha e' (wa_credential w) p db' =
      (Inr \<lparr>wa_account = wa_account w, wa_credential = []\<rparr>, db')"
  using pg.auth_once [of db sha e t p w db' e' q] pg.auth_credential [of db sha e t p w db' e']
    assms by (simp add: postgres_store_def)

lemma sample_fresh: "pg_fresh id (sample_env t) (Auth ''say_enroll-2'' p) sample_db"
  by (simp add: pg_fresh_def)

theorem pg_enrollment_once_witness:
  "\<exists>w db'. pg_auth id (sample_env minute) ''say_enroll-2'' ''telegram'' sample_db = (Inr w, db') \<and>
     pg_auth id (sample_env second) ''say_enroll-2'' ''signal'' db' = (Inl ErrInvalidToken, db') \<and>
     pg_auth id (sample_env second) (wa_credential w) ''telegram'' db' =
       (Inr \<lparr>wa_account = wa_account w, wa_credential = []\<rparr>, db')"
proof -
  obtain w db' where w: "pg_auth id (sample_env minute) ''say_enroll-2'' ''telegram'' sample_db =
      (Inr w, db')" "wa_credential w \<noteq> []"
    using sample_auth by blast
  with pg_enrollment_once [OF sample_db_ok sample_fresh w, of "sample_env second" "''signal''"]
  show ?thesis by simp
qed

text \<open>
  Along any sequence of store calls - creations, deletions of other accounts, authentications
  and worker writes, in any order and with any failures of the database or the random source - an
  account keeps its id, owner, platform, display name, hosting mode and creation time, and its
  generation never decreases.
\<close>

theorem pg_account_stable:
  assumes "pg_ok db" "all_fresh (postgres_store sha) (pg_fresh sha) cs db"
    and "pg_view db a = Some acc" "\<And>e u. (e, Delete u a) \<notin> set cs"
  shows "\<exists>acc'. pg_view (run_calls (postgres_store sha) cs db) a = Some acc' \<and>
    same_identity acc acc' \<and> unat (acc_generation acc) \<le> unat (acc_generation acc')"
  using pg.calls_identity assms by blast

theorem pg_account_stable_witness:
  "\<exists>acc'. pg_view (run_calls (postgres_store id)
       [(sample_env minute, Auth ''say_enroll-2'' ''telegram''),
        (sample_env minute, SetStatus ''acc-1'' 1 ''live'')] sample_db) ''acc-1'' = Some acc' \<and>
     same_identity (scan_account (sample_account ''acc-1'' ''signal'' 1)) acc' \<and> 1 \<le> unat (acc_generation acc')"
proof -
  let ?cs = "[(sample_env minute, Auth ''say_enroll-2'' ''telegram''),
        (sample_env minute, SetStatus ''acc-1'' 1 ''live'')]"
  have "all_fresh (postgres_store id) (pg_fresh id) ?cs sample_db"
    by (simp add: sample_fresh) (simp add: pg_fresh_def)
  moreover have "unat (acc_generation (scan_account (sample_account ''acc-1'' ''signal'' 1))) = 1"
    by (simp add: scan_account_def sample_account_def)
  ultimately show ?thesis
    using pg_account_stable [OF sample_db_ok, of id ?cs "''acc-1''"] sample_view by simp
qed

text \<open>
  A worker of another generation is locked out: a status, identity or heartbeat write that does
  not carry the account's current generation changes no account at all.
\<close>

theorem pg_stale_worker_ignored:
  assumes "pg_ok db" "write_target c = Some (a, g)" "pg_view db a = Some acc"
    and "acc_generation acc \<noteq> g"
  shows "pg_view (run_call (postgres_store sha) e c db) = pg_view db"
  using assms by (rule pg.stale_write_ignored)

theorem pg_stale_worker_ignored_witness:
  "pg_view (run_call (postgres_store id) (sample_env minute) (SetStatus ''acc-1'' 0 ''live'')
     sample_db) = pg_view sample_db"
  by (rule pg_stale_worker_ignored [OF sample_db_ok _ sample_view, where g = 0])
    (simp_all add: scan_account_def)

text \<open>
  Tenants are separated: an account of another user is reported as missing, and nothing a user
  deletes or creates touches it.
\<close>

theorem pg_tenants_separated:
  assumes "pg_ok db" "pg_view db a = Some acc" "acc_user_id acc \<noteq> u"
  shows "(healthy e \<longrightarrow> pg_get e u a db = Inl ErrNotFound) \<and>
    pg_view (snd (pg_delete e u b db)) a = Some acc \<and>
    pg_view (snd (pg_create sha e u p n db)) a = Some acc"
  using pg.get_isolated [OF assms(1) _ assms(2,3), of e]
    pg.user_isolation [OF assms, where c = "Delete u b" and e = e and b = b]
    pg.user_isolation [OF assms, where c = "Create u p n" and e = e and p = p and n = n]
  by (auto simp: postgres_store_def pg_fresh_def)

theorem pg_tenants_separated_witness:
  "pg_get (sample_env 0) ''bob'' ''acc-1'' sample_db = Inl ErrNotFound \<and>
   pg_view (snd (pg_delete (sample_env 0) ''bob'' ''acc-1'' sample_db)) ''acc-1'' =
     Some (scan_account (sample_account ''acc-1'' ''signal'' 1))"
  using pg_tenants_separated [OF sample_db_ok sample_view, of "''bob''" "sample_env 0" "''acc-1''"]
  by (simp add: scan_account_def)

text \<open>
  Enrollment works: after an account has been created, its enrollment token - within ten minutes
  by the API's clock, on the right platform - is exchanged for a worker credential of that account,
  which is activated with generation 1 and waits offline for its worker.
\<close>

theorem pg_enrollment_succeeds:
  assumes "pg_ok db" "pg_create sha e u p n db = (Inr (acc, token), db1)" "healthy e'"
    and "clock e' \<le> pg_time (clock e + 10 * minute)"
    and "credential_account (sha token) db1 = None" "new_credential sha e' db1"
  shows "\<exists>w db2. pg_auth sha e' token p db1 = (Inr w, db2) \<and>
    acc_id (wa_account w) = acc_id acc \<and> acc_generation (wa_account w) = 1 \<and>
    acc_status (wa_account w) = ''offline'' \<and> has_prefix (wa_credential w) ''say_worker_''"
proof (cases sha e u p n db rule: pg_create_cases)
  case (Done acc' r q db1' db2 token')
  with assms(2) have eqs: "acc' = acc" "token' = token" "db2 = db1" by simp_all
  have "pg_ok db1" using pg_ok_create [OF assms(1), of sha e u p n] assms(2) by simp
  moreover have "db_accounts db1 = db_accounts db @ [r]"
    "db_pairing_tokens db1 = db_pairing_tokens db @ [q]"
    "a_id r \<notin> account_ids db" "p_token_hash q \<notin> p_token_hash ` set (db_pairing_tokens db)"
    using Done(1,2) eqs
    by (auto simp: insert_account_def insert_pairing_token_def split: if_splits)
  then have "pairing_account (sha token) db1 = Some (q, r)"
    using Done(4,7) eqs row_by_None [of a_id "a_id r" "db_accounts db"]
      row_by_None [of p_token_hash "p_token_hash q" "db_pairing_tokens db"]
    by (simp add: pairing_account_def row_by_append)
  moreover have "a_platform r = p" "acc_id acc = a_id r"
    using Done(9,11,12) eqs by (simp_all add: scan_account_def)
  ultimately show ?thesis
    using pg_auth_succeeds [of db1 e' sha token q r p] assms(3-6) Done(5,6,13) by simp
qed (use assms(2) in simp)

theorem pg_enrollment_succeeds_witness:
  "\<exists>acc token db1 w db2.
     pg_create id (sample_env minute) ''alice'' ''signal'' ''Phone'' sample_db =
       (Inr (acc, token), db1) \<and>
     pg_auth id (sample_env (11 * minute)) token ''signal'' db1 = (Inr w, db2) \<and>
     acc_id (wa_account w) = acc_id acc"
proof -
  obtain acc token db1 where create:
    "pg_create id (sample_env minute) ''alice'' ''signal'' ''Phone'' sample_db =
       (Inr (acc, token), db1)"
    and token: "has_prefix token ''say_enroll_''"
    and creds: "db_worker_credentials db1 = db_worker_credentials sample_db"
    by (simp add: pg_create_def pg_create_tx_def in_tx_def insert_account_def
        insert_pairing_token_def sample_db_def empty_db_def account_check_def
        account_statuses_def has_prefix_def)
  have "credential_account (id token) db1 = None"
    using token by (auto simp: credential_account_def creds sample_db_simps has_prefix_iff)
  moreover have "new_credential id (sample_env (11 * minute)) db1"
    by (simp add: new_credential_def creds sample_db_simps)
  moreover have "clock (sample_env (11 * minute)) \<le> pg_time (clock (sample_env minute) + 10 * minute)"
    by (simp add: pg_time_def minute_def second_def)
  ultimately show ?thesis
    using pg_enrollment_succeeds [OF sample_db_ok create, of "sample_env (11 * minute)"] create
    by fastforce
qed

end
