(* ===== verification/PgMessages.thy ===== *)
theory PgMessages
  imports PgAccounts "HOL-Library.Product_Lexorder"
begin

section \<open>The Postgres message store\<close>

text \<open>
  \<open>postgres.MessageStore\<close> of \<^verbatim>\<open>internal/postgres/messages.go\<close>: ingesting the messages workers
  deliver, the send command's life cycle, the transactional outbox and retention. As in
  \<open>PgAccounts\<close> each SQL statement is one numbered \<open>stmt\<close> or \<open>query_row\<close> and \<open>in_tx\<close> is a transaction.

  The parameter \<open>collate\<close> maps a text to its sort key under the database's collation. Invalid
  UTF-8, NUL characters and other texts the server cannot store are failures of the driver.
\<close>

record conversation =
  conv_id :: string
  conv_account_id :: string
  conv_provider_id :: string
  conv_title :: string
  conv_kind :: string
  conv_unread_count :: int
  conv_last_message_at :: "time option"

record send_preparation =
  prep_account_id :: string
  prep_conversation :: string
  prep_command_id :: string
  prep_command_status :: string
  prep_message :: message
  prep_created :: bool

record conversation_target =
  ct_account_id :: string
  ct_provider_id :: string
  ct_platform :: string

definition ErrNoRows :: go_error where
  "ErrNoRows = Sentinel ''pgx.ErrNoRows''"

text \<open>\<open>scanMessage\<close> on \<^verbatim>\<open>id, conversation_id, COALESCE(provider_id, ''), ...\<close>.\<close>

definition scan_message :: "message_row \<Rightarrow> message" where
  "scan_message r = \<lparr>msg_id = m_id r, msg_conversation_id = m_conversation_id r,
     msg_provider_id = (case m_provider_id r of None \<Rightarrow> [] | Some p \<Rightarrow> p),
     msg_author_name = m_author_name r, msg_body = m_body r, msg_sent_at = m_sent_at r,
     msg_direction = m_direction r, msg_status = m_status r\<rparr>"

subsection \<open>The outbox\<close>

text \<open>
  \<open>json.Marshal\<close> refuses a time whose year is outside 0..9999: 366 days before the zero time, and
  3652059 days after it. The row keeps the message that was encoded.
\<close>

definition day :: time where "day = 86400 * second"

definition marshal_message :: "message \<Rightarrow> go_error + message" where
  "marshal_message m =
     (if msg_sent_at m < - (366 * day) \<or> msg_sent_at m \<ge> 3652059 * day
      then Inl (Wrapped ''encode outbox event'' (NewError ''year outside of range [0,9999]''))
      else Inr m)"

definition insert_outbox ::
  "env \<Rightarrow> nat \<Rightarrow> string \<Rightarrow> string \<Rightarrow> message \<Rightarrow> 'h db \<Rightarrow> go_error + 'h db" where
  "insert_outbox e k user event_type m db =
     attempt (marshal_message m) (\<lambda>payload.
     stmt e k ''insert outbox event'' (insert_outbox_row user event_type payload db))"

subsection \<open>Ingesting messages\<close>

text \<open>\<open>strings.ToUpper\<close> of a one-byte string; a byte that is not ASCII is an invalid rune.\<close>

definition to_upper :: "char \<Rightarrow> string" where
  "to_upper c =
     (if of_char c \<ge> (128 :: nat) then [char_of (239 :: nat), char_of (191 :: nat), char_of (189 :: nat)]
      else if of_char c \<in> {97..122 :: nat} then [char_of (of_char c - 32 :: nat)] else [c])"

text \<open>The title and the kind of the conversation a message opens. \<open>Platform[:1]\<close> panics on \<open>""\<close>.\<close>

definition opened_conversation ::
  "account \<Rightarrow> wire_message \<Rightarrow> go_error + string \<times> string" where
  "opened_conversation account m =
     (if has_prefix (wm_conversation_id m) ''group:'' \<or>
         acc_platform account = ''telegram'' \<and> has_prefix (wm_conversation_id m) ''-''
      then (case acc_platform account of
              [] \<Rightarrow> Inl (Panic ''slice bounds out of range'')
            | c # rest \<Rightarrow> Inr (to_upper c @ rest @ '' group'', ''group''))
      else Inr (wm_author_name m, ''direct''))"

text \<open>\<open>INSERT ... ON CONFLICT (account_id, provider_id) DO UPDATE ... RETURNING id\<close>.\<close>

definition upsert_conversation ::
  "conversation_row \<Rightarrow> (conversation_row \<Rightarrow> conversation_row) \<Rightarrow> 'h db \<Rightarrow>
   (string \<times> 'h db) option" where
  "upsert_conversation r f db =
     (case row_by conversation_key (conversation_key r) (db_conversations db) of
        Some c \<Rightarrow> Some (c_id c, db\<lparr>db_conversations :=
          update_where (\<lambda>c. conversation_key c = conversation_key r) f (db_conversations db)\<rparr>)
      | None \<Rightarrow> map_option (Pair (c_id r)) (insert_conversation r db))"

text \<open>
  \<open>INSERT ... ON CONFLICT (conversation_id, provider_id) DO NOTHING RETURNING id\<close>: the \<open>CHECK\<close>
  constraints come first; \<open>None\<close> inside is \<open>pgx.ErrNoRows\<close>.
\<close>

definition insert_new_message :: "message_row \<Rightarrow> 'h db \<Rightarrow> (string option \<times> 'h db) option" where
  "insert_new_message r db =
     (if \<not> message_check r then None
      else if provider_key r \<in> provider_key ` set (identified (db_messages db)) then Some (None, db)
      else map_option (Pair (Some (m_id r))) (insert_message r db))"

definition newest :: "time \<Rightarrow> time option \<Rightarrow> time option" where
  "newest t prev = (case prev of None \<Rightarrow> Some t | Some u \<Rightarrow> if t > u then Some t else Some u)"

text \<open>\<open>unread_count\<close> is an \<open>integer\<close> column; the server refuses to let it overflow.\<close>

definition increment_unread :: "string \<Rightarrow> 'h db \<Rightarrow> 'h db option" where
  "increment_unread c db =
     (if \<exists>r \<in> set (db_conversations db). c_id r = c \<and> c_unread_count r + 1 \<ge> 2 ^ 31 then None
      else Some (db\<lparr>db_conversations := update_where (\<lambda>r. c_id r = c)
        (\<lambda>r. r\<lparr>c_unread_count := c_unread_count r + 1\<rparr>) (db_conversations db)\<rparr>))"

text \<open>The new message's side effects: the unread count and the outbox event of a live message.\<close>

definition ingest_live ::
  "env \<Rightarrow> account \<Rightarrow> message \<Rightarrow> bool \<Rightarrow> 'h db \<Rightarrow> go_error + 'h db" where
  "ingest_live e account cached live db =
     attempt (if live \<and> msg_direction cached = ''incoming''
       then stmt e 5 ''increment unread count''
              (increment_unread (msg_conversation_id cached) db)
       else Inr db) (\<lambda>db.
     if live then insert_outbox e 6 (acc_user_id account) TypeMessageNew cached db else Inr db)"

text \<open>The rows and the API message an ingested message becomes.\<close>

definition new_conversation_row ::
  "env \<Rightarrow> account \<Rightarrow> wire_message \<Rightarrow> string \<Rightarrow> string \<Rightarrow> string \<Rightarrow> conversation_row" where
  "new_conversation_row e account m i title kind =
     \<lparr>c_id = i, c_account_id = acc_id account, c_provider_id = wm_conversation_id m,
      c_title = title, c_kind = kind, c_unread_count = 0,
      c_last_message_at = Some (pg_time (wm_sent_at m)), c_updated_at = db_now e\<rparr>"

definition touch_conversation :: "env \<Rightarrow> time \<Rightarrow> conversation_row \<Rightarrow> conversation_row" where
  "touch_conversation e sent_at c =
     c\<lparr>c_last_message_at := newest (pg_time sent_at) (c_last_message_at c),
       c_updated_at := db_now e\<rparr>"

definition new_message :: "wire_message \<Rightarrow> string \<Rightarrow> string \<Rightarrow> message" where
  "new_message m i conversation =
     \<lparr>msg_id = i, msg_conversation_id = conversation,
      msg_provider_id = wm_provider_message_id m, msg_author_name = wm_author_name m,
      msg_body = wm_body m, msg_sent_at = wm_sent_at m, msg_direction = wm_direction m,
      msg_status = ''sent''\<rparr>"

definition new_message_row :: "wire_message \<Rightarrow> string \<Rightarrow> string \<Rightarrow> message_row" where
  "new_message_row m i conversation =
     \<lparr>m_id = i, m_conversation_id = conversation,
      m_provider_id = Some (wm_provider_message_id m), m_author_id = wm_author_id m,
      m_author_name = wm_author_name m, m_body = wm_body m, m_sent_at = pg_time (wm_sent_at m),
      m_direction = wm_direction m, m_status = ''sent''\<rparr>"

text \<open>After the insert: the stored message and a commit when it was there before, else the new one.\<close>

definition ingest_outcome ::
  "env \<Rightarrow> account \<Rightarrow> wire_message \<Rightarrow> bool \<Rightarrow> string \<Rightarrow> string option \<Rightarrow> 'h db \<Rightarrow>
   go_error + (message \<times> bool) \<times> 'h db" where
  "ingest_outcome e account m live conversation inserted db =
     (case inserted of
        None \<Rightarrow>
          attempt (query_row e 3 ''insert message'' (Wrapped ''insert message'' ErrNoRows)
            (map_option scan_message (List.find
              (has_provider_key conversation (wm_provider_message_id m)) (db_messages db))))
            (\<lambda>existing.
          attempt (stmt e 4 ''commit duplicate ingest'' (Some db)) (\<lambda>db.
          Inr ((existing, False), db)))
      | Some i \<Rightarrow>
          let cached = new_message m i conversation in
          attempt (ingest_live e account cached live db) (\<lambda>db.
          attempt (stmt e 7 ''commit message ingest'' (Some db)) (\<lambda>db.
          Inr ((cached, True), db))))"

definition ingest_tx ::
  "env \<Rightarrow> account \<Rightarrow> wire_message \<Rightarrow> bool \<Rightarrow> 'h db \<Rightarrow> go_error + (message \<times> bool) \<times> 'h db" where
  "ingest_tx e account m live db =
     attempt (stmt e 0 ''begin message ingest'' (Some db)) (\<lambda>db.
     attempt (random_value e 0 ''con_'' 16) (\<lambda>conversation.
     attempt (opened_conversation account m) (\<lambda>(title, kind).
     attempt (stmt e 1 ''upsert conversation'' (upsert_conversation
       (new_conversation_row e account m conversation title kind)
       (touch_conversation e (wm_sent_at m)) db)) (\<lambda>(conversation, db).
     attempt (random_value e 1 ''msg_'' 16) (\<lambda>i.
     attempt (stmt e 2 ''insert message'' (insert_new_message
       (new_message_row m i conversation) db)) (\<lambda>(inserted, db).
     ingest_outcome e account m live conversation inserted db))))))"

definition ingest_message ::
  "env \<Rightarrow> account \<Rightarrow> wire_message \<Rightarrow> bool \<Rightarrow> 'h db \<Rightarrow> (go_error + message \<times> bool) \<times> 'h db" where
  "ingest_message e account m live db =
     (if wm_provider_message_id m = [] \<or> wm_conversation_id m = [] \<or> wm_sent_at m = zero_time then
        (Inl (NewError ''provider message id, conversation id, and sent time are required''), db)
      else in_tx (ingest_tx e account m live) db)"

definition IngestMessage ::
  "env \<Rightarrow> account \<Rightarrow> wire_message \<Rightarrow> 'h db \<Rightarrow> (go_error + message \<times> bool) \<times> 'h db" where
  "IngestMessage e account m db = ingest_message e account m True db"

definition CacheMessage ::
  "env \<Rightarrow> account \<Rightarrow> wire_message \<Rightarrow> 'h db \<Rightarrow> (go_error + message \<times> bool) \<times> 'h db" where
  "CacheMessage e account m db = ingest_message e account m False db"

text \<open>
  \<open>UpsertConversations\<close>: the loop's \<open>n\<close>-th upsert draws the \<open>n\<close>-th random value and is statement
  \<open>n + 2\<close>; conversations without a provider id are skipped.
\<close>

fun upsert_loop ::
  "env \<Rightarrow> string \<Rightarrow> wire_conversation list \<Rightarrow> nat \<Rightarrow> 'h db \<Rightarrow> go_error + nat \<times> 'h db" where
  "upsert_loop e a [] n db = Inr (n, db)"
| "upsert_loop e a (c # cs) n db =
     (if wc_provider_id c = [] then upsert_loop e a cs n db
      else
        attempt (random_value e n ''con_'' 16) (\<lambda>id.
        attempt (stmt e (n + 2) ''upsert synced conversation'' (upsert_conversation
          \<lparr>c_id = id, c_account_id = a, c_provider_id = wc_provider_id c,
           c_title = wc_title c, c_kind = wc_kind c, c_unread_count = 0,
           c_last_message_at = None, c_updated_at = db_now e\<rparr>
          (\<lambda>r. r\<lparr>c_title := wc_title c, c_kind := wc_kind c, c_updated_at := db_now e\<rparr>) db))
          (\<lambda>(_, db).
        upsert_loop e a cs (n + 1) db)))"

definition upsert_conversations ::
  "env \<Rightarrow> string \<Rightarrow> string \<Rightarrow> wire_conversation list \<Rightarrow> 'h db \<Rightarrow> (go_error + unit) \<times> 'h db"
where
  "upsert_conversations e user a cs db =
     in_tx (\<lambda>db.
       attempt (stmt e 0 ''begin conversation sync'' (Some db)) (\<lambda>db.
       attempt (stmt e 1 ''check account ownership''
         (Some (\<exists>r \<in> set (db_accounts db). a_id r = a \<and> a_user_id r = user))) (\<lambda>owns.
       attempt (fail_if (\<not> owns) ErrNotFound) (\<lambda>_.
       attempt (upsert_loop e a cs 0 db) (\<lambda>(n, db).
       attempt (stmt e (n + 2) ''commit conversation sync'' (Some db)) (\<lambda>db.
       Inr ((), db))))))) db"

subsection \<open>Reading\<close>

text \<open>\<open>FROM conversations c JOIN accounts a ... WHERE c.id = $1 AND a.user_id = $2\<close>.\<close>

definition owned_conversation ::
  "string \<Rightarrow> string \<Rightarrow> 'h db \<Rightarrow> (conversation_row \<times> account_row) option" where
  "owned_conversation user conversation db =
     Option.bind (row_by c_id conversation (db_conversations db)) (\<lambda>c.
     Option.bind (row_by a_id (c_account_id c) (db_accounts db)) (\<lambda>a.
     if a_user_id a = user then Some (c, a) else None))"

text \<open>\<^verbatim>\<open>ORDER BY c.last_message_at DESC NULLS LAST, c.title, c.id\<close> as an ascending key.\<close>

definition activity_key ::
  "(string \<Rightarrow> 'k) \<Rightarrow> conversation_row \<Rightarrow> (nat \<times> time) \<times> 'k \<times> 'k" where
  "activity_key collate c =
     ((case c_last_message_at c of None \<Rightarrow> (1, 0) | Some t \<Rightarrow> (0, - t)),
      collate (c_title c), collate (c_id c))"

definition scan_conversation :: "conversation_row \<Rightarrow> conversation" where
  "scan_conversation c = \<lparr>conv_id = c_id c, conv_account_id = c_account_id c,
     conv_provider_id = c_provider_id c, conv_title = c_title c, conv_kind = c_kind c,
     conv_unread_count = c_unread_count c, conv_last_message_at = c_last_message_at c\<rparr>"

definition list_conversations ::
  "(string \<Rightarrow> 'k::linorder) \<Rightarrow> env \<Rightarrow> string \<Rightarrow> string \<Rightarrow> 'h db \<Rightarrow>
   go_error + conversation list" where
  "list_conversations collate e user a db =
     attempt (stmt e 0 ''list conversations''
       (Some (take 100 (sort_key (activity_key collate) (filter
          (\<lambda>c. c_account_id c = a \<and>
             (\<exists>r \<in> set (db_accounts db). a_id r = c_account_id c \<and> a_user_id r = user))
          (db_conversations db)))))) (\<lambda>rows.
     stmt e 1 ''scan conversation'' (Some (map scan_conversation rows)))"

text \<open>\<^verbatim>\<open>ORDER BY m.sent_at DESC, m.id DESC\<close> is this key, descending.\<close>

definition recency_key :: "(string \<Rightarrow> 'k) \<Rightarrow> message_row \<Rightarrow> time \<times> 'k" where
  "recency_key collate m = (m_sent_at m, collate (m_id m))"

definition list_messages ::
  "(string \<Rightarrow> 'k::linorder) \<Rightarrow> env \<Rightarrow> string \<Rightarrow> string \<Rightarrow> 'h db \<Rightarrow> go_error + message list" where
  "list_messages collate e user conversation db =
     attempt (stmt e 0 ''check conversation ownership''
       (Some (owned_conversation user conversation db \<noteq> None))) (\<lambda>owns.
     attempt (fail_if (\<not> owns) ErrNotFound) (\<lambda>_.
     attempt (stmt e 1 ''list messages'' (Some (take 100 (rev (sort_key (recency_key collate)
       (filter (\<lambda>m. m_conversation_id m = conversation \<and>
          owned_conversation user (m_conversation_id m) db \<noteq> None) (db_messages db)))))))
       (\<lambda>rows.
     stmt e 2 ''scan message'' (Some (map scan_message rows)))))"

definition get_conversation_target ::
  "env \<Rightarrow> string \<Rightarrow> string \<Rightarrow> 'h db \<Rightarrow> go_error + conversation_target" where
  "get_conversation_target e user conversation db =
     query_row e 0 ''get conversation target'' ErrNotFound
       (map_option (\<lambda>(c, a). \<lparr>ct_account_id = c_account_id c, ct_provider_id = c_provider_id c,
          ct_platform = a_platform a\<rparr>) (owned_conversation user conversation db))"

subsection \<open>Sending messages\<close>

definition command_lifetime :: time where
  "command_lifetime = 5 * minute"

text \<open>\<open>INSERT INTO commands ... ON CONFLICT (account_id, idempotency_key) DO NOTHING\<close> and its row count.\<close>

definition insert_new_command :: "command_row \<Rightarrow> 'h db \<Rightarrow> (nat \<times> 'h db) option" where
  "insert_new_command r db =
     (if k_status r \<notin> set command_statuses then None
      else if command_key r \<in> command_key ` set (db_commands db) then Some (0, db)
      else map_option (Pair 1) (insert_command r db))"

text \<open>The rows \<open>PrepareSend\<close> writes.\<close>

definition send_command_row ::
  "env \<Rightarrow> string \<Rightarrow> string \<Rightarrow> string \<Rightarrow> string \<Rightarrow> string \<Rightarrow> command_row" where
  "send_command_row e i account_id provider_conversation body key =
     \<lparr>k_id = i, k_account_id = account_id, k_message_id = None,
      k_idempotency_key = key, k_command_type = ''send'',
      k_payload = \<lparr>sc_conversation_id = provider_conversation, sc_body = body,
        sc_idempotency_key = key\<rparr>,
      k_status = ''pending'', k_provider_result = None,
      k_expires_at = db_now e + command_lifetime, k_updated_at = db_now e\<rparr>"

definition pending_message_row :: "env \<Rightarrow> string \<Rightarrow> string \<Rightarrow> string \<Rightarrow> message_row" where
  "pending_message_row e i conversation body =
     \<lparr>m_id = i, m_conversation_id = conversation, m_provider_id = None,
      m_author_id = ''self'', m_author_name = ''You'', m_body = body,
      m_sent_at = pg_time (clock e), m_direction = ''outgoing'', m_status = ''pending''\<rparr>"

definition sent_activity :: "env \<Rightarrow> conversation_row \<Rightarrow> conversation_row" where
  "sent_activity e c = c\<lparr>c_last_message_at := Some (pg_time (clock e)), c_updated_at := db_now e\<rparr>"

definition link_message :: "string \<Rightarrow> command_row \<Rightarrow> command_row" where
  "link_message i k = k\<lparr>k_message_id := Some i\<rparr>"

definition pending_message :: "env \<Rightarrow> string \<Rightarrow> string \<Rightarrow> string \<Rightarrow> message" where
  "pending_message e i conversation body =
     \<lparr>msg_id = i, msg_conversation_id = conversation, msg_provider_id = [],
      msg_author_name = ''You'', msg_body = body, msg_sent_at = clock e,
      msg_direction = ''outgoing'', msg_status = ''pending''\<rparr>"

text \<open>The statements after the command row: the pending message, the link to it, the activity.\<close>

definition prepare_message ::
  "env \<Rightarrow> string \<Rightarrow> string \<Rightarrow> string \<Rightarrow> string \<Rightarrow> 'h db \<Rightarrow> go_error + 'h db" where
  "prepare_message e command_id message_id conversation body db =
     attempt (stmt e 4 ''insert pending message'' (insert_message
       (pending_message_row e message_id conversation body) db)) (\<lambda>db.
     attempt (stmt e 5 ''link command message'' (Some (db\<lparr>db_commands :=
         update_where (\<lambda>k. k_id k = command_id) (link_message message_id) (db_commands db)\<rparr>)))
       (\<lambda>db.
     attempt (stmt e 6 ''update conversation activity'' (Some (db\<lparr>db_conversations :=
         update_where (\<lambda>c. c_id c = conversation) (sent_activity e) (db_conversations db)\<rparr>)))
       (\<lambda>db.
     stmt e 7 ''commit send'' (Some db))))"

text \<open>
  The transaction of \<open>PrepareSend\<close>: \<open>Inl account_id\<close> when the idempotency key is taken (the
  transaction has written nothing and is rolled back), else the prepared command.
\<close>

definition prepare_tx ::
  "env \<Rightarrow> string \<Rightarrow> string \<Rightarrow> string \<Rightarrow> string \<Rightarrow> 'h db \<Rightarrow>
   go_error + (string + send_preparation) \<times> 'h db" where
  "prepare_tx e user conversation body key db =
     attempt (stmt e 0 ''begin send'' (Some db)) (\<lambda>db.
     attempt (query_row e 1 ''find send account'' ErrNotFound
       (map_option (\<lambda>(c, _). (c_account_id c, c_provider_id c))
          (owned_conversation user conversation db))) (\<lambda>(account_id, provider_conversation).
     attempt (random_value e 0 ''cmd_'' 16) (\<lambda>command_id.
     attempt (random_value e 1 ''msg_'' 16) (\<lambda>message_id.
     attempt (stmt e 2 ''insert send command'' (insert_new_command
       (send_command_row e command_id account_id provider_conversation body key) db))
       (\<lambda>(affected, db).
     if affected = 0 then Inr (Inl account_id, db)
     else
       attempt (prepare_message e command_id message_id conversation body db) (\<lambda>db.
       Inr (Inr \<lparr>prep_account_id = account_id, prep_conversation = provider_conversation,
              prep_command_id = command_id, prep_command_status = ''pending'',
              prep_message = pending_message e message_id conversation body,
              prep_created = True\<rparr>, db)))))))"

definition existing_send ::
  "env \<Rightarrow> string \<Rightarrow> string \<Rightarrow> 'h db \<Rightarrow> go_error + send_preparation" where
  "existing_send e account_id key db =
     query_row e 3 ''read idempotent send'' (Wrapped ''read idempotent send'' ErrNoRows)
       (Option.bind (row_by command_key (account_id, key) (db_commands db)) (\<lambda>k.
        Option.bind (k_message_id k) (\<lambda>message_id.
        Option.bind (row_by m_id message_id (db_messages db)) (\<lambda>m.
        Option.bind (row_by c_id (m_conversation_id m) (db_conversations db)) (\<lambda>c.
        Some \<lparr>prep_account_id = account_id, prep_conversation = c_provider_id c,
          prep_command_id = k_id k, prep_command_status = k_status k,
          prep_message = scan_message m, prep_created = (k_status k = ''pending'')\<rparr>)))))"

definition prepare_send ::
  "env \<Rightarrow> string \<Rightarrow> string \<Rightarrow> string \<Rightarrow> string \<Rightarrow> 'h db \<Rightarrow>
   (go_error + send_preparation) \<times> 'h db" where
  "prepare_send e user conversation body key db =
     (case in_tx (prepare_tx e user conversation body key) db of
        (Inl err, db') \<Rightarrow> (Inl err, db')
      | (Inr (Inl account_id), db') \<Rightarrow> (existing_send e account_id key db', db')
      | (Inr (Inr prepared), db') \<Rightarrow> (Inr prepared, db'))"

definition dispatchable :: "env \<Rightarrow> string \<Rightarrow> command_row \<Rightarrow> bool" where
  "dispatchable e i k \<longleftrightarrow> k_id k = i \<and> k_status k = ''pending'' \<and> k_expires_at k > db_now e"

definition dispatched :: "env \<Rightarrow> command_row \<Rightarrow> command_row" where
  "dispatched e k = k\<lparr>k_status := ''dispatched'', k_updated_at := db_now e\<rparr>"

definition mark_command_dispatched :: "env \<Rightarrow> string \<Rightarrow> 'h db \<Rightarrow> (go_error + bool) \<times> 'h db" where
  "mark_command_dispatched e command_id =
     in_tx (\<lambda>db.
       attempt (stmt e 0 ''mark command dispatched'' (Some (db\<lparr>db_commands :=
           update_where (dispatchable e command_id) (dispatched e) (db_commands db)\<rparr>))) (\<lambda>db'.
       Inr (length (filter (dispatchable e command_id) (db_commands db)) = 1, db')))"

text \<open>\<open>FROM commands cmd JOIN accounts a ... WHERE cmd.id = $1 AND a.user_id = $2\<close>.\<close>

definition owned_command :: "string \<Rightarrow> string \<Rightarrow> 'h db \<Rightarrow> command_row option" where
  "owned_command user command_id db =
     Option.bind (row_by k_id command_id (db_commands db)) (\<lambda>k.
     Option.bind (row_by a_id (k_account_id k) (db_accounts db)) (\<lambda>a.
     if a_user_id a = user then Some k else None))"

text \<open>
  \<open>UPDATE messages SET ... WHERE id = $1 RETURNING ...\<close>: the unique index on provider ids is
  checked; no row is \<open>pgx.ErrNoRows\<close>, which the source wraps like any other error.
\<close>

definition update_message ::
  "string \<Rightarrow> (message_row \<Rightarrow> message_row) \<Rightarrow> 'h db \<Rightarrow> (message_row option \<times> 'h db) option" where
  "update_message i f db =
     (case row_by m_id i (db_messages db) of
        None \<Rightarrow> Some (None, db)
      | Some r \<Rightarrow>
          let rows = update_where (\<lambda>r. m_id r = i) f (db_messages db) in
          if message_check (f r) \<and> unique_by provider_key (identified rows)
          then Some (Some (f r), db\<lparr>db_messages := rows\<rparr>) else None)"

definition returning :: "string \<Rightarrow> 'a option \<Rightarrow> go_error + 'a" where
  "returning msg r = (case r of None \<Rightarrow> Inl (Wrapped msg ErrNoRows) | Some v \<Rightarrow> Inr v)"

definition set_command_result ::
  "env \<Rightarrow> string \<Rightarrow> string \<Rightarrow> json \<Rightarrow> 'h db \<Rightarrow> 'h db" where
  "set_command_result e command_id status result db =
     db\<lparr>db_commands := update_where (\<lambda>k. k_id k = command_id)
       (\<lambda>k. k\<lparr>k_status := status, k_provider_result := Some result,
          k_updated_at := db_now e\<rparr>) (db_commands db)\<rparr>"

definition completed_message :: "string \<Rightarrow> time \<Rightarrow> message_row \<Rightarrow> message_row" where
  "completed_message provider sent_at m =
     m\<lparr>m_provider_id := (if provider = [] then None else Some provider),
       m_sent_at := pg_time sent_at, m_status := ''sent''\<rparr>"

text \<open>The message may have come back from the provider already: that copy is deleted.\<close>

definition reconcile :: "string \<Rightarrow> string \<Rightarrow> string \<Rightarrow> 'h db \<Rightarrow> 'h db" where
  "reconcile conversation provider message_id =
     delete_messages (\<lambda>m. has_provider_key conversation provider m \<and> m_id m \<noteq> message_id)"

definition complete_tx ::
  "env \<Rightarrow> string \<Rightarrow> string \<Rightarrow> string \<Rightarrow> time \<Rightarrow> 'h db \<Rightarrow> go_error + message \<times> 'h db" where
  "complete_tx e user command_id provider sent_at db =
     attempt (stmt e 0 ''begin complete send'' (Some db)) (\<lambda>db.
     attempt (query_row e 1 ''read send command'' ErrNotFound
       (Option.bind (owned_command user command_id db) (\<lambda>k.
        Option.bind (k_message_id k) (\<lambda>message_id.
        map_option (\<lambda>m. (m_id m, m_conversation_id m))
          (row_by m_id message_id (db_messages db)))))) (\<lambda>(message_id, conversation).
     attempt (if provider \<noteq> [] then
         stmt e 2 ''reconcile sent message'' (Some (reconcile conversation provider message_id db))
       else Inr db) (\<lambda>db.
     attempt (stmt e 3 ''complete message'' (update_message message_id
       (completed_message provider sent_at) db)) (\<lambda>(row, db).
     attempt (returning ''complete message'' (map_option scan_message row)) (\<lambda>message.
     attempt (stmt e 4 ''complete command'' (Some (set_command_result e command_id ''completed''
       (JObj [(''provider_message_id'', JStr provider)]) db))) (\<lambda>db.
     attempt (insert_outbox e 5 user ''message.updated'' message db) (\<lambda>db.
     attempt (stmt e 6 ''commit completed send'' (Some db)) (\<lambda>db.
     Inr (message, db)))))))))"

definition complete_send ::
  "env \<Rightarrow> string \<Rightarrow> string \<Rightarrow> string \<Rightarrow> time \<Rightarrow> 'h db \<Rightarrow> (go_error + message) \<times> 'h db" where
  "complete_send e user command_id provider sent_at =
     in_tx (complete_tx e user command_id provider sent_at)"

definition failure_status :: "string \<Rightarrow> string" where
  "failure_status code =
     (if code = ''worker_timeout'' \<or> code = ''signal_send_unknown'' then ''unknown'' else ''failed'')"

definition with_status :: "string \<Rightarrow> message_row \<Rightarrow> message_row" where
  "with_status status m = m\<lparr>m_status := status\<rparr>"

text \<open>A null \<open>message_id\<close> cannot be scanned into a Go \<open>string\<close>.\<close>

definition fail_tx ::
  "env \<Rightarrow> string \<Rightarrow> string \<Rightarrow> string \<Rightarrow> 'h db \<Rightarrow> go_error + message \<times> 'h db" where
  "fail_tx e user command_id code db =
     (let status = failure_status code in
      attempt (stmt e 0 ''begin fail send'' (Some db)) (\<lambda>db.
      attempt (query_row e 1 ''read failed command'' ErrNotFound
        (owned_command user command_id db)) (\<lambda>k.
      attempt (case k_message_id k of
          None \<Rightarrow> Inl (Wrapped ''read failed command'' (NewError ''cannot scan NULL into *string''))
        | Some m \<Rightarrow> Inr m) (\<lambda>message_id.
      attempt (stmt e 2 ''fail command'' (Some (set_command_result e command_id status
        (JObj [(''error_code'', JStr code)]) db))) (\<lambda>db.
      attempt (stmt e 3 ''fail message'' (update_message message_id
        (with_status status) db)) (\<lambda>(row, db).
      attempt (returning ''fail message'' (map_option scan_message row)) (\<lambda>message.
      attempt (insert_outbox e 4 user ''message.updated'' message db) (\<lambda>db.
      attempt (stmt e 5 ''commit failed send'' (Some db)) (\<lambda>db.
      Inr (message, db))))))))))"

definition fail_send ::
  "env \<Rightarrow> string \<Rightarrow> string \<Rightarrow> string \<Rightarrow> 'h db \<Rightarrow> (go_error + message) \<times> 'h db" where
  "fail_send e user command_id code = in_tx (fail_tx e user command_id code)"

subsection \<open>Delivering the outbox and retention\<close>

definition pending_outbox :: "env \<Rightarrow> int \<Rightarrow> 'h db \<Rightarrow> go_error + outbox_row list" where
  "pending_outbox e limit db =
     (let limit = (if limit \<le> 0 \<or> limit > 1000 then 100 else limit) in
      attempt (stmt e 0 ''list pending outbox'' (Some (take (nat limit)
        (sort_key o_id (filter (\<lambda>r. o_delivered_at r = None) (db_outbox db)))))) (\<lambda>rows.
      stmt e 1 ''scan outbox event'' (Some rows)))"

definition mark_outbox_delivered :: "env \<Rightarrow> int \<Rightarrow> 'h db \<Rightarrow> (go_error + unit) \<times> 'h db" where
  "mark_outbox_delivered e i =
     in_tx (\<lambda>db.
       attempt (stmt e 0 ''mark outbox delivered'' (Some (db\<lparr>db_outbox :=
           update_where (\<lambda>r. o_id r = i \<and> o_delivered_at r = None)
             (\<lambda>r. r\<lparr>o_delivered_at := Some (db_now e)\<rparr>) (db_outbox db)\<rparr>))) (\<lambda>db.
       Inr ((), db)))"

text \<open>
  \<open>row_number() OVER (PARTITION BY conversation_id ORDER BY sent_at DESC, id DESC)\<close> among the rows
  that are not pending.
\<close>

definition recency_rank :: "(string \<Rightarrow> 'k::linorder) \<Rightarrow> message_row list \<Rightarrow> message_row \<Rightarrow> nat" where
  "recency_rank collate rows m =
     Suc (length (filter (\<lambda>n. m_status n \<noteq> ''pending'' \<and>
        m_conversation_id n = m_conversation_id m \<and>
        recency_key collate n > recency_key collate m) rows))"

definition prunable ::
  "(string \<Rightarrow> 'k::linorder) \<Rightarrow> time \<Rightarrow> int \<Rightarrow> message_row list \<Rightarrow> message_row \<Rightarrow> bool" where
  "prunable collate cutoff keep rows m \<longleftrightarrow> m_status m \<noteq> ''pending'' \<and> m_sent_at m < cutoff \<and>
     int (recency_rank collate rows m) > keep"

definition prune ::
  "(string \<Rightarrow> 'k::linorder) \<Rightarrow> env \<Rightarrow> time \<Rightarrow> int \<Rightarrow> 'h db \<Rightarrow> (go_error + nat) \<times> 'h db" where
  "prune collate e retention keep db =
     (if retention \<le> 0 \<or> keep < 0 then
        (Inl (NewError ''retention must be positive and keep count cannot be negative''), db)
      else
        let gone = prunable collate (pg_time (clock e - retention)) keep (db_messages db) in
        case stmt e 0 ''prune messages'' (Some (delete_messages gone db)) of
          Inl err \<Rightarrow> (Inl err, db)
        | Inr db1 \<Rightarrow>
            (case stmt e 1 ''prune outbox'' (Some (db1\<lparr>db_outbox := filter
               (\<lambda>r. \<not> (case o_delivered_at r of None \<Rightarrow> False | Some t \<Rightarrow> t < db_now e - 7 * day))
               (db_outbox db1)\<rparr>)) of
               Inl err \<Rightarrow> (Inl err, db1)
             | Inr db2 \<Rightarrow> (Inr (length (filter gone (db_messages db))), db2)))"

subsection \<open>The schema is kept\<close>

text \<open>
  A step of the message store keeps the schema and does not touch users, accounts, pairing tokens
  or worker credentials.
\<close>

definition message_step :: "'h db \<Rightarrow> 'h db \<Rightarrow> bool" where
  "message_step db db' \<longleftrightarrow> (db_ok db \<longrightarrow> db_ok db') \<and> db_users db' = db_users db \<and>
     db_accounts db' = db_accounts db \<and> db_pairing_tokens db' = db_pairing_tokens db \<and>
     db_worker_credentials db' = db_worker_credentials db"

lemma message_step_refl [simp]: "message_step db db"
  by (simp add: message_step_def)

lemma message_step_trans: "message_step db1 db2 \<Longrightarrow> message_step db2 db3 \<Longrightarrow> message_step db1 db3"
  by (simp add: message_step_def)

lemma message_step_ok: "message_step db db' \<Longrightarrow> db_ok db \<Longrightarrow> db_ok db'"
  by (simp add: message_step_def)

lemma message_step_accounts: "message_step db db' \<Longrightarrow> db_accounts db' = db_accounts db"
  by (simp add: message_step_def)

lemma message_step_pg_ok: "message_step db db' \<Longrightarrow> pg_ok db \<Longrightarrow> pg_ok db'"
  using pg_ok_frame [of db db'] pg_ok_schema [of db] by (simp add: message_step_def)

lemma upsert_conversation_cases:
  assumes "upsert_conversation r f db = Some (c, db')"
  obtains (Updated) x where "row_by conversation_key (conversation_key r) (db_conversations db) = Some x"
    "c = c_id x" "db' = db\<lparr>db_conversations :=
      update_where (\<lambda>c. conversation_key c = conversation_key r) f (db_conversations db)\<rparr>"
  | (Inserted) "row_by conversation_key (conversation_key r) (db_conversations db) = None"
    "c = c_id r" "insert_conversation r db = Some db'"
    "db' = db\<lparr>db_conversations := db_conversations db @ [r]\<rparr>"
proof (cases "row_by conversation_key (conversation_key r) (db_conversations db)")
  case None
  with assms have ins: "c = c_id r" "insert_conversation r db = Some db'"
    by (auto simp: upsert_conversation_def)
  then have "db' = db\<lparr>db_conversations := db_conversations db @ [r]\<rparr>"
    by (simp add: insert_conversation_def split: if_splits)
  with None ins show thesis by (rule Inserted)
next
  case (Some x)
  with assms show thesis by (intro Updated) (auto simp: upsert_conversation_def)
qed

lemma upsert_conversation_step:
  assumes "upsert_conversation r f db = Some (c, db')"
    and "\<And>x. c_id (f x) = c_id x \<and> c_account_id (f x) = c_account_id x \<and>
      c_provider_id (f x) = c_provider_id x \<and> c_unread_count (f x) = c_unread_count x"
  shows "message_step db db'"
  using assms(1)
proof (cases rule: upsert_conversation_cases)
  case (Updated x)
  have "db_ok db'" if "db_ok db"
    unfolding Updated(3) using that assms(2) by (intro update_conversations_ok) simp_all
  with Updated show ?thesis by (simp add: message_step_def)
next
  case Inserted
  have "db_ok db'" if "db_ok db"
    using Inserted(3) that by (rule insert_conversation_ok)
  with Inserted(4) show ?thesis by (simp add: message_step_def)
qed

lemma insert_message_step:
  assumes "insert_message r db = Some db'"
  shows "message_step db db'"
  using insert_message_ok [OF assms] assms
  by (auto simp: message_step_def insert_message_def split: if_splits)

lemma insert_outbox_row_step:
  assumes "insert_outbox_row u t m db = Some db'"
  shows "message_step db db'"
  using insert_outbox_row_ok [OF assms] assms
  by (auto simp: message_step_def insert_outbox_row_def split: if_splits)

lemma insert_outbox_eq_Inr:
  "insert_outbox e k u t m db = Inr db' \<longleftrightarrow>
   marshal_message m = Inr m \<and> db_fault e k = None \<and> insert_outbox_row u t m db = Some db'"
  by (auto simp: insert_outbox_def attempt_dests marshal_message_def)

lemma increment_unread_step:
  assumes "increment_unread c db = Some db'"
  shows "message_step db db'"
proof -
  have db': "db' = db\<lparr>db_conversations := update_where (\<lambda>r. c_id r = c)
      (\<lambda>r. r\<lparr>c_unread_count := c_unread_count r + 1\<rparr>) (db_conversations db)\<rparr>"
    using assms by (simp add: increment_unread_def split: if_splits)
  have "db_ok db'" if "db_ok db"
    unfolding db' using that by (intro update_conversations_ok) simp_all
  then show ?thesis unfolding message_step_def by (simp add: db')
qed

lemma ingest_live_cases:
  assumes "ingest_live e account cached live db = Inr db'"
  obtains (Quiet) "\<not> live" "db' = db"
  | (Loud) db1 where "live"
    "if msg_direction cached = ''incoming''
     then increment_unread (msg_conversation_id cached) db = Some db1 else db1 = db"
    "marshal_message cached = Inr cached"
    "insert_outbox_row (acc_user_id account) TypeMessageNew cached db1 = Some db'"
  using assms
  by (auto simp: ingest_live_def attempt_dests insert_outbox_eq_Inr split: if_splits)

lemma ingest_live_step:
  assumes "ingest_live e account cached live db = Inr db'"
  shows "message_step db db'"
  using assms
proof (cases rule: ingest_live_cases)
  case (Loud db1)
  have "message_step db db1"
    using Loud(2) increment_unread_step by (auto split: if_splits)
  then show ?thesis using insert_outbox_row_step [OF Loud(4)] by (rule message_step_trans)
qed simp

lemma touch_conversation_keys:
  "c_id (touch_conversation e t x) = c_id x \<and>
   c_account_id (touch_conversation e t x) = c_account_id x \<and>
   c_provider_id (touch_conversation e t x) = c_provider_id x \<and>
   c_unread_count (touch_conversation e t x) = c_unread_count x"
  by (simp add: touch_conversation_def)

subsection \<open>What an ingest does\<close>

lemma ingest_tx_cases:
  assumes "ingest_tx e account m live db = Inr ((r, new), db')"
  obtains (Duplicate) i title kind conversation db1 x where
    "upsert_conversation (new_conversation_row e account m i title kind)
       (touch_conversation e (wm_sent_at m)) db = Some (conversation, db1)"
    "opened_conversation account m = Inr (title, kind)"
    "List.find (has_provider_key conversation (wm_provider_message_id m)) (db_messages db1) = Some x"
    "r = scan_message x" "\<not> new" "db' = db1"
  | (New) i j title kind conversation db1 db2 where
    "upsert_conversation (new_conversation_row e account m i title kind)
       (touch_conversation e (wm_sent_at m)) db = Some (conversation, db1)"
    "opened_conversation account m = Inr (title, kind)"
    "insert_message (new_message_row m j conversation) db1 = Some db2"
    "provider_key (new_message_row m j conversation) \<notin>
       provider_key ` set (identified (db_messages db1))"
    "r = new_message m j conversation" "new" "ingest_live e account r live db2 = Inr db'"
proof -
  from assms obtain i title kind conversation db1 j inserted db2 where *:
    "opened_conversation account m = Inr (title, kind)"
    "upsert_conversation (new_conversation_row e account m i title kind)
       (touch_conversation e (wm_sent_at m)) db = Some (conversation, db1)"
    "insert_new_message (new_message_row m j conversation) db1 = Some (inserted, db2)"
    and rest: "ingest_outcome e account m live conversation inserted db2 = Inr ((r, new), db')"
    unfolding ingest_tx_def by (auto simp: attempt_eq_Inr stmt_eq_Inr)
  show thesis
  proof (cases inserted)
    case None
    with *(3) have "db2 = db1"
      by (auto simp: insert_new_message_def split: if_splits)
    with None rest * show thesis
      by (auto simp: ingest_outcome_def attempt_dests intro!: Duplicate)
  next
    case (Some k)
    with *(3) have "insert_message (new_message_row m j conversation) db1 = Some db2" "k = j"
      "provider_key (new_message_row m j conversation) \<notin>
         provider_key ` set (identified (db_messages db1))"
      by (auto simp: insert_new_message_def new_message_row_def split: if_splits)
    with Some rest * show thesis
      by (auto simp: ingest_outcome_def attempt_dests Let_def intro!: New)
  qed
qed

lemma ingest_step: "message_step db (snd (ingest_message e account m live db))"
proof -
  have "message_step db db'" if "ingest_tx e account m live db = Inr (v, db')" for v db'
  proof -
    obtain r new where "v = (r, new)" by (cases v)
    with that have "ingest_tx e account m live db = Inr ((r, new), db')" by simp
    then show ?thesis
    proof (cases rule: ingest_tx_cases)
      case (Duplicate i title kind conversation db1 x)
      with upsert_conversation_step [OF Duplicate(1) touch_conversation_keys] show ?thesis by simp
    next
      case (New i j title kind conversation db1 db2)
      show ?thesis
        using upsert_conversation_step [OF New(1) touch_conversation_keys]
          insert_message_step [OF New(3)] ingest_live_step [OF New(7)]
        by (blast intro: message_step_trans)
    qed
  qed
  then show ?thesis
    by (auto simp: ingest_message_def intro: in_tx_snd [where P = "message_step db"])
qed

lemma upsert_loop_step:
  "upsert_loop e a cs n db = Inr (k, db') \<Longrightarrow> message_step db db'"
proof (induction e a cs n db rule: upsert_loop.induct)
  case (2 e a c cs n db)
  show ?case
  proof (cases "wc_provider_id c = []")
    case False
    with "2.prems" obtain i v db1 where *: "random_value e n ''con_'' 16 = Inr i"
      "upsert_conversation
          \<lparr>c_id = i, c_account_id = a, c_provider_id = wc_provider_id c,
           c_title = wc_title c, c_kind = wc_kind c, c_unread_count = 0,
           c_last_message_at = None, c_updated_at = db_now e\<rparr>
          (\<lambda>r. r\<lparr>c_title := wc_title c, c_kind := wc_kind c, c_updated_at := db_now e\<rparr>) db =
        Some (v, db1)" "upsert_loop e a cs (n + 1) db1 = Inr (k, db')"
      by (auto simp: attempt_eq_Inr stmt_eq_Inr)
    have "message_step db db1" by (rule upsert_conversation_step [OF *(2)]) simp
    moreover have "message_step db1 db'"
      using "2.IH"(2) [OF False] *(3) by blast
    ultimately show ?thesis by (rule message_step_trans)
  qed (use 2 in simp)
qed simp

lemma upsert_conversations_step: "message_step db (snd (upsert_conversations e user a cs db))"
  unfolding upsert_conversations_def
  by (rule in_tx_snd) (auto simp: attempt_eq_Inr stmt_eq_Inr dest: upsert_loop_step)

lemma update_commands_step:
  assumes "\<And>k. P k \<Longrightarrow> k_id (f k) = k_id k \<and> k_account_id (f k) = k_account_id k \<and>
      k_idempotency_key (f k) = k_idempotency_key k"
    and "\<And>k. P k \<Longrightarrow> k_status (f k) \<in> set command_statuses \<or> k_status (f k) = k_status k"
    and "\<And>k m. P k \<Longrightarrow> k_message_id (f k) = Some m \<Longrightarrow>
      k_message_id k = Some m \<or> m \<in> message_ids db"
  shows "message_step db (db\<lparr>db_commands := update_where P f (db_commands db)\<rparr>)"
proof -
  have "db_ok (db\<lparr>db_commands := update_where P f (db_commands db)\<rparr>)" if "db_ok db"
    using that assms by (rule update_commands_ok)
  then show ?thesis by (simp add: message_step_def)
qed

lemma update_conversations_step:
  assumes "\<And>r. P r \<Longrightarrow> c_id (f r) = c_id r \<and> c_account_id (f r) = c_account_id r \<and>
      c_provider_id (f r) = c_provider_id r"
    and "\<And>r. P r \<Longrightarrow> c_unread_count r \<ge> 0 \<Longrightarrow> c_unread_count (f r) \<ge> 0"
  shows "message_step db (db\<lparr>db_conversations := update_where P f (db_conversations db)\<rparr>)"
proof -
  have "db_ok (db\<lparr>db_conversations := update_where P f (db_conversations db)\<rparr>)" if "db_ok db"
    using that assms by (rule update_conversations_ok)
  then show ?thesis by (simp add: message_step_def)
qed

lemma delete_messages_step: "message_step db (delete_messages P db)"
  by (simp add: message_step_def delete_messages_ok)

lemma insert_new_command_cases:
  assumes "insert_new_command r db = Some (n, db')"
  obtains (Taken) k where "n = 0" "db' = db" "row_by command_key (command_key r) (db_commands db) = Some k"
  | (Inserted) "n = 1" "insert_command r db = Some db'"
    "row_by command_key (command_key r) (db_commands db) = None"
    "db' = db\<lparr>db_commands := db_commands db @ [r]\<rparr>"
proof (cases "row_by command_key (command_key r) (db_commands db)")
  case None
  with assms have ins: "n = 1" "insert_command r db = Some db'"
    by (auto simp: insert_new_command_def row_by_None split: if_splits)
  then have "db' = db\<lparr>db_commands := db_commands db @ [r]\<rparr>"
    by (simp add: insert_command_def split: if_splits)
  with None ins show thesis by (intro Inserted) simp_all
next
  case (Some k)
  then have "command_key r \<in> command_key ` set (db_commands db)"
    using row_by_None [of command_key "command_key r" "db_commands db"] by auto
  with assms Some show thesis
    by (intro Taken) (auto simp: insert_new_command_def split: if_splits)
qed

lemma insert_new_command_step:
  assumes "insert_new_command r db = Some (n, db')"
  shows "message_step db db'"
  using assms
proof (cases rule: insert_new_command_cases)
  case Inserted
  then show ?thesis using insert_command_ok [OF Inserted(2)] by (simp add: message_step_def)
qed simp

lemma update_message_cases:
  assumes "update_message i f db = Some (row, db')"
  obtains (Missing) "row = None" "db' = db" "row_by m_id i (db_messages db) = None"
  | (Updated) r where "row = Some (f r)" "row_by m_id i (db_messages db) = Some r"
    "message_check (f r)"
    "unique_by provider_key (identified (update_where (\<lambda>r. m_id r = i) f (db_messages db)))"
    "db' = db\<lparr>db_messages := update_where (\<lambda>r. m_id r = i) f (db_messages db)\<rparr>"
  using assms
  by (cases "row_by m_id i (db_messages db)") (auto simp: update_message_def Let_def split: if_splits)

lemma update_message_step:
  assumes upd: "update_message i f db = Some (row, db')"
    and keys: "\<And>r. m_id (f r) = m_id r \<and> m_conversation_id (f r) = m_conversation_id r"
  shows "message_step db db'"
  using upd
proof (cases rule: update_message_cases)
  case (Updated r)
  let ?rows = "update_where (\<lambda>r. m_id r = i) f (db_messages db)"
  have ids: "m_id ` set ?rows = message_ids db" "unique_by m_id ?rows \<longleftrightarrow> unique_by m_id (db_messages db)"
    using keys by (simp_all add: image_update_where unique_by_update_where)
  have "db_ok db'" if ok: "db_ok db"
  proof -
    have only: "x = r" if "x \<in> set (db_messages db)" "m_id x = i" for x
      using Updated(2) row_byD [OF Updated(2)] that
        unique_by_memD [OF unique_messages [OF ok], of x r] by simp
    have "message_check (if m_id x = i then f x else x) \<and>
        m_conversation_id (if m_id x = i then f x else x) \<in> conversation_ids db"
      if "x \<in> set (db_messages db)" for x
      using that only [OF that] db_ok_messages [OF ok] keys Updated(3)
      by (auto simp: messages_ok_def)
    then have "messages_ok (conversation_ids db) ?rows"
      using db_ok_messages [OF ok] Updated(4) ids(2)
      unfolding messages_ok_def ball_update_where by simp
    with db_okD [OF ok] show ?thesis by (simp add: db_ok_def Updated(5) ids(1))
  qed
  with Updated(5) show ?thesis by (simp add: message_step_def)
qed simp

lemma set_command_result_step:
  "st \<in> set command_statuses \<Longrightarrow> message_step db (set_command_result e k st res db)"
  unfolding set_command_result_def by (rule update_commands_step) simp_all

subsection \<open>What the send operations do\<close>

lemma prepare_message_eq_Inr:
  "prepare_message e i j conversation body db = Inr db' \<longleftrightarrow>
   db_fault e 4 = None \<and> db_fault e 5 = None \<and> db_fault e 6 = None \<and> db_fault e 7 = None \<and>
   (\<exists>db2. insert_message (pending_message_row e j conversation body) db = Some db2 \<and>
     db' = db2\<lparr>db_commands := update_where (\<lambda>k. k_id k = i) (link_message j) (db_commands db2),
       db_conversations := update_where (\<lambda>c. c_id c = conversation) (sent_activity e)
         (db_conversations db2)\<rparr>)"
  by (auto simp: prepare_message_def attempt_eq_Inr stmt_eq_Inr)

lemma prepare_tx_cases:
  assumes "prepare_tx e user conversation body key db = Inr (res, db')"
  obtains (Taken) c a k where "owned_conversation user conversation db = Some (c, a)"
    "res = Inl (c_account_id c)" "db' = db"
    "row_by command_key (c_account_id c, key) (db_commands db) = Some k"
  | (Prepared) c a i j db1 db2 where
    "owned_conversation user conversation db = Some (c, a)"
    "random_value e 0 ''cmd_'' 16 = Inr i"
    "row_by command_key (c_account_id c, key) (db_commands db) = None"
    "insert_command (send_command_row e i (c_account_id c) (c_provider_id c) body key) db = Some db1"
    "insert_message (pending_message_row e j conversation body) db1 = Some db2"
    "db' = db2\<lparr>db_commands := update_where (\<lambda>k. k_id k = i) (link_message j) (db_commands db2),
       db_conversations := update_where (\<lambda>c. c_id c = conversation) (sent_activity e)
         (db_conversations db2)\<rparr>"
    "res = Inr \<lparr>prep_account_id = c_account_id c, prep_conversation = c_provider_id c,
       prep_command_id = i, prep_command_status = ''pending'',
       prep_message = pending_message e j conversation body, prep_created = True\<rparr>"
proof -
  from assms obtain c a i j n db1 where *:
    "owned_conversation user conversation db = Some (c, a)"
    "random_value e 0 ''cmd_'' 16 = Inr i"
    "insert_new_command (send_command_row e i (c_account_id c) (c_provider_id c) body key) db =
       Some (n, db1)"
    "if n = 0 then res = Inl (c_account_id c) \<and> db' = db1
     else prepare_message e i j conversation body db1 = Inr db' \<and>
       res = Inr \<lparr>prep_account_id = c_account_id c, prep_conversation = c_provider_id c,
         prep_command_id = i, prep_command_status = ''pending'',
         prep_message = pending_message e j conversation body, prep_created = True\<rparr>"
    unfolding prepare_tx_def
    by (auto simp: attempt_eq_Inr stmt_eq_Inr query_row_eq_Inr split: if_splits)
  have key: "command_key (send_command_row e i (c_account_id c) (c_provider_id c) body key) =
      (c_account_id c, key)"
    by (simp add: send_command_row_def command_key_def)
  from *(3) show thesis
  proof (cases rule: insert_new_command_cases)
    case (Taken k)
    with * key show thesis by (intro that(1)) simp_all
  next
    case Inserted
    with * key show thesis by (auto simp: prepare_message_eq_Inr intro: that(2))
  qed
qed

lemma prepare_step:
  assumes "prepare_tx e user conversation body key db = Inr (res, db')"
  shows "message_step db db'"
  using assms
proof (cases rule: prepare_tx_cases)
  case (Prepared c a i j db1 db2)
  let ?db3 = "db2\<lparr>db_commands := update_where (\<lambda>k. k_id k = i) (link_message j) (db_commands db2)\<rparr>"
  have "message_step db db1"
    using insert_command_ok [OF Prepared(4)] Prepared(4)
    by (auto simp: message_step_def insert_command_def split: if_splits)
  moreover have "message_step db1 db2" by (rule insert_message_step [OF Prepared(5)])
  moreover have "j \<in> message_ids db2"
    using Prepared(5) by (auto simp: insert_message_def pending_message_row_def split: if_splits)
  then have "message_step db2 ?db3"
    by (intro update_commands_step) (auto simp: link_message_def)
  moreover have "message_step ?db3 (?db3\<lparr>db_conversations :=
      update_where (\<lambda>c. c_id c = conversation) (sent_activity e) (db_conversations ?db3)\<rparr>)"
    by (rule update_conversations_step) (simp_all add: sent_activity_def)
  ultimately have "message_step db (?db3\<lparr>db_conversations :=
      update_where (\<lambda>c. c_id c = conversation) (sent_activity e) (db_conversations ?db3)\<rparr>)"
    by (blast intro: message_step_trans)
  with Prepared(6) show ?thesis by simp
qed simp

lemma prepare_send_snd:
  "snd (prepare_send e user conversation body key db) =
   snd (in_tx (prepare_tx e user conversation body key) db)"
  by (auto simp: prepare_send_def split: prod.split sum.split)

lemma prepare_send_step: "message_step db (snd (prepare_send e user conversation body key db))"
  unfolding prepare_send_snd by (rule in_tx_snd) (auto dest: prepare_step)

lemma mark_command_dispatched_eq:
  "mark_command_dispatched e i db = (case db_fault e 0 of
     Some err \<Rightarrow> (Inl (Wrapped ''mark command dispatched'' err), db)
   | None \<Rightarrow> (Inr (length (filter (dispatchable e i) (db_commands db)) = 1),
       db\<lparr>db_commands := update_where (dispatchable e i) (dispatched e) (db_commands db)\<rparr>))"
  by (simp add: mark_command_dispatched_def in_tx_def stmt_def split: option.split)

lemma dispatched_simps [simp]:
  "k_id (dispatched e k) = k_id k" "k_account_id (dispatched e k) = k_account_id k"
  "k_idempotency_key (dispatched e k) = k_idempotency_key k"
  "k_message_id (dispatched e k) = k_message_id k" "k_status (dispatched e k) = ''dispatched''"
  by (simp_all add: dispatched_def)

lemma dispatch_step: "message_step db (snd (mark_command_dispatched e i db))"
proof -
  have "message_step db (db\<lparr>db_commands :=
      update_where (dispatchable e i) (dispatched e) (db_commands db)\<rparr>)"
    by (rule update_commands_step) (simp_all add: command_statuses_def)
  then show ?thesis by (simp add: mark_command_dispatched_eq split: option.split)
qed

lemma returning_eq_Inr: "returning msg r = Inr v \<longleftrightarrow> r = Some v"
  by (simp add: returning_def split: option.split)

lemma complete_tx_cases:
  assumes "complete_tx e user i provider sent_at db = Inr (msg, db')"
  obtains k m r db1 db2 where
    "owned_command user i db = Some k" "k_message_id k = Some (m_id m)"
    "row_by m_id (m_id m) (db_messages db) = Some m"
    "db1 = (if provider = [] then db else reconcile (m_conversation_id m) provider (m_id m) db)"
    "update_message (m_id m) (completed_message provider sent_at) db1 = Some (Some r, db2)"
    "msg = scan_message r" "marshal_message msg = Inr msg"
    "insert_outbox_row user ''message.updated'' msg
       (set_command_result e i ''completed'' (JObj [(''provider_message_id'', JStr provider)]) db2)
     = Some db'"
proof -
  from assms obtain k m j r db1 db2 where
    "owned_command user i db = Some k" "k_message_id k = Some j"
    "row_by m_id j (db_messages db) = Some m"
    "(if provider \<noteq> [] then stmt e 2 ''reconcile sent message''
        (Some (reconcile (m_conversation_id m) provider (m_id m) db)) else Inr db) = Inr db1"
    "update_message (m_id m) (completed_message provider sent_at) db1 = Some (Some r, db2)"
    "msg = scan_message r" "marshal_message msg = Inr msg"
    "insert_outbox_row user ''message.updated'' msg
       (set_command_result e i ''completed'' (JObj [(''provider_message_id'', JStr provider)]) db2)
     = Some db'"
    unfolding complete_tx_def
    by (auto simp: attempt_eq_Inr stmt_eq_Inr query_row_eq_Inr returning_eq_Inr
        insert_outbox_eq_Inr bind_eq_Some_conv)
  moreover from this have "j = m_id m" by (auto dest: row_by_key)
  ultimately show thesis
    by (intro that [of k m db1 r db2]) (auto simp: stmt_eq_Inr split: if_splits)
qed

lemma fail_tx_cases:
  assumes "fail_tx e user i code db = Inr (msg, db')"
  obtains k j r db2 where
    "owned_command user i db = Some k" "k_message_id k = Some j"
    "update_message j (with_status (failure_status code))
       (set_command_result e i (failure_status code) (JObj [(''error_code'', JStr code)]) db) =
     Some (Some r, db2)"
    "msg = scan_message r" "marshal_message msg = Inr msg"
    "insert_outbox_row user ''message.updated'' msg db2 = Some db'"
  using assms unfolding fail_tx_def Let_def
  by (auto simp: attempt_eq_Inr stmt_eq_Inr query_row_eq_Inr returning_eq_Inr
      insert_outbox_eq_Inr split: option.splits)

lemma complete_send_step: "message_step db (snd (complete_send e user i provider sent_at db))"
  unfolding complete_send_def
proof (rule in_tx_snd)
  fix v db'
  assume "complete_tx e user i provider sent_at db = Inr (v, db')"
  then show "message_step db db'"
  proof (cases rule: complete_tx_cases)
    case (1 k m r db1 db2)
    have "message_step db db1" by (simp add: 1(4) reconcile_def delete_messages_step)
    moreover have "message_step db1 db2"
      by (rule update_message_step [OF 1(5)]) (simp add: completed_message_def)
    moreover have "message_step db2 db'"
      using set_command_result_step insert_outbox_row_step [OF 1(8)]
      by (rule message_step_trans) (simp add: command_statuses_def)
    ultimately show ?thesis by (blast intro: message_step_trans)
  qed
qed simp

lemma fail_send_step: "message_step db (snd (fail_send e user i code db))"
  unfolding fail_send_def
proof (rule in_tx_snd)
  fix v db'
  assume "fail_tx e user i code db = Inr (v, db')"
  then show "message_step db db'"
  proof (cases rule: fail_tx_cases)
    case (1 k j r db2)
    let ?db1 = "set_command_result e i (failure_status code) (JObj [(''error_code'', JStr code)]) db"
    have "message_step db ?db1"
      by (rule set_command_result_step) (simp add: command_statuses_def failure_status_def)
    moreover have "message_step ?db1 db2"
      by (rule update_message_step [OF 1(3)]) (simp add: with_status_def)
    moreover have "message_step db2 db'" by (rule insert_outbox_row_step [OF 1(6)])
    ultimately show ?thesis by (blast intro: message_step_trans)
  qed
qed simp

lemma delivered_step: "message_step db (snd (mark_outbox_delivered e i db))"
  unfolding mark_outbox_delivered_def
proof (rule in_tx_snd)
  fix v db'
  let ?db1 = "db\<lparr>db_outbox := update_where (\<lambda>r. o_id r = i \<and> o_delivered_at r = None)
             (\<lambda>r. r\<lparr>o_delivered_at := Some (db_now e)\<rparr>) (db_outbox db)\<rparr>"
  assume "attempt (stmt e 0 ''mark outbox delivered'' (Some ?db1)) (\<lambda>db. Inr ((), db)) = Inr (v, db')"
  then have "db' = ?db1" by (simp add: attempt_eq_Inr stmt_eq_Inr)
  moreover have "db_ok ?db1" if "db_ok db" using that by (rule update_outbox_ok) simp
  ultimately show "message_step db db'" by (simp add: message_step_def)
qed simp

text \<open>The messages a prune removes, and the outbox rows it keeps.\<close>

definition pruned ::
  "(string \<Rightarrow> 'k::linorder) \<Rightarrow> env \<Rightarrow> time \<Rightarrow> int \<Rightarrow> 'h db \<Rightarrow> message_row \<Rightarrow> bool" where
  "pruned collate e retention keep db =
     prunable collate (pg_time (clock e - retention)) keep (db_messages db)"

definition recent_event :: "env \<Rightarrow> outbox_row \<Rightarrow> bool" where
  "recent_event e r \<longleftrightarrow>
     \<not> (case o_delivered_at r of None \<Rightarrow> False | Some t \<Rightarrow> t < db_now e - 7 * day)"

lemma prune_cases:
  obtains (Fault) err where "prune collate e retention keep db = (Inl err, db)"
    "retention \<le> 0 \<or> keep < 0 \<or> db_fault e 0 \<noteq> None"
  | (Half) err where "retention > 0" "keep \<ge> 0" "db_fault e 1 \<noteq> None"
    "prune collate e retention keep db =
       (Inl err, delete_messages (pruned collate e retention keep db) db)"
  | (Done) db1 where "retention > 0" "keep \<ge> 0"
    "db1 = delete_messages (pruned collate e retention keep db) db"
    "prune collate e retention keep db =
       (Inr (length (filter (pruned collate e retention keep db) (db_messages db))),
        db1\<lparr>db_outbox := filter (recent_event e) (db_outbox db1)\<rparr>)"
proof (cases "retention \<le> 0 \<or> keep < 0")
  case True
  show thesis by (rule Fault, use True in \<open>auto simp: prune_def\<close>)
next
  case False
  show thesis
  proof (cases "db_fault e 0")
    case None
    note ok = False None
    show thesis
    proof (cases "db_fault e 1")
      case None
      show thesis
        by (rule Done)
          (use ok None in \<open>auto simp: prune_def Let_def stmt_def pruned_def recent_event_def [abs_def]\<close>)
    next
      case (Some err)
      show thesis
        by (rule Half) (use ok Some in \<open>auto simp: prune_def Let_def stmt_def pruned_def\<close>)
    qed
  next
    case (Some err)
    show thesis by (rule Fault) (use False Some in \<open>auto simp: prune_def Let_def stmt_def\<close>)
  qed
qed

lemma prune_step: "message_step db (snd (prune collate e retention keep db))"
proof (cases rule: prune_cases [where collate = collate and e = e and retention = retention and
      keep = keep and db = db])
  case (Done db1)
  have "message_step db db1" unfolding Done(3) by (rule delete_messages_step)
  moreover have "message_step db1 (db1\<lparr>db_outbox := filter (recent_event e) (db_outbox db1)\<rparr>)"
    by (simp add: message_step_def filter_outbox_ok)
  ultimately show ?thesis unfolding Done(4) snd_conv by (rule message_step_trans)
qed (simp_all add: delete_messages_step)

end
