(* ===== verification/Ingest.thy ===== *)
theory Ingest
  imports PgMessages
begin

section \<open>Ingesting messages: what is stored, counted and announced\<close>

text \<open>
  Facts about \<open>ingest_message\<close> of \<open>PgMessages\<close>: the rows a new message adds, and that a message the
  store has already is recognised, whatever happened in between to the other tables.
\<close>

definition unread :: "'h db \<Rightarrow> string \<Rightarrow> int" where
  "unread db c = (case row_by c_id c (db_conversations db) of
     None \<Rightarrow> 0 | Some r \<Rightarrow> c_unread_count r)"

text \<open>The conversation of a provider conversation of an account.\<close>

definition conversation_of :: "string \<Rightarrow> string \<Rightarrow> 'h db \<Rightarrow> string option" where
  "conversation_of a p db =
     map_option c_id (row_by conversation_key (a, p) (db_conversations db))"

lemma conversation_key_new [simp]:
  "conversation_key (new_conversation_row e account m i title kind) =
   (acc_id account, wm_conversation_id m)"
  by (simp add: conversation_key_def new_conversation_row_def)

lemma touch_conversation_key [simp]:
  "conversation_key (touch_conversation e t c) = conversation_key c"
  by (simp add: conversation_key_def touch_conversation_def)

lemma touch_conversation_simps [simp]:
  "c_id (touch_conversation e t c) = c_id c"
  "c_unread_count (touch_conversation e t c) = c_unread_count c"
  by (simp_all add: touch_conversation_def)

lemma upsert_tables:
  assumes "upsert_conversation r f db = Some (c, db')"
  shows "db_messages db' = db_messages db" "db_outbox db' = db_outbox db"
    "db_commands db' = db_commands db" "db_accounts db' = db_accounts db"
    "db_next_outbox db' = db_next_outbox db" "db_users db' = db_users db"
  using assms by (cases rule: upsert_conversation_cases; simp)+

lemma upsert_conversation_of:
  assumes "upsert_conversation r f db = Some (c, db')"
    and "\<And>x. conversation_key (f x) = conversation_key x" "\<And>x. c_id (f x) = c_id x"
    and "conversation_key r = (a, p)"
  shows "conversation_of a p db' = Some c"
  using assms(1)
proof (cases rule: upsert_conversation_cases)
  case (Updated x)
  with assms(2-4) show ?thesis by (simp add: conversation_of_def row_by_update_where)
next
  case Inserted
  with assms(4) show ?thesis by (simp add: conversation_of_def row_by_append)
qed

lemma upsert_unread:
  assumes "upsert_conversation r f db = Some (c, db')"
    and "\<And>x. c_id (f x) = c_id x" "\<And>x. c_unread_count (f x) = c_unread_count x"
    and "c_unread_count r = 0"
  shows "unread db' x = unread db x"
  using assms(1)
proof (cases rule: upsert_conversation_cases)
  case (Updated y)
  have "c_unread_count (if P then f z else z) = c_unread_count z" for P z using assms(3) by simp
  with Updated assms(2) show ?thesis
    by (simp add: unread_def row_by_update_where split: option.split)
next
  case Inserted
  with assms(4) show ?thesis by (simp add: unread_def row_by_append split: option.split)
qed

lemma conversation_of_update:
  assumes "\<And>r. c_id (f r) = c_id r" "\<And>r. conversation_key (f r) = conversation_key r"
  shows "map_option c_id (row_by conversation_key k (update_where P f rows)) =
    map_option c_id (row_by conversation_key k rows)"
  using assms by (simp add: row_by_update_where option.map_comp comp_def if_distrib cong: if_cong)

subsection \<open>A new message\<close>

lemma increment_unread_tables:
  assumes "increment_unread c db = Some db'"
  shows "db_messages db' = db_messages db" "db_outbox db' = db_outbox db"
    "db_commands db' = db_commands db" "db_next_outbox db' = db_next_outbox db"
    "db_conversations db' = update_where (\<lambda>r. c_id r = c)
      (\<lambda>r. r\<lparr>c_unread_count := c_unread_count r + 1\<rparr>) (db_conversations db)"
  using assms by (auto simp: increment_unread_def split: if_splits)

lemma increment_unread_unread:
  assumes "increment_unread c db = Some db'" "c \<in> conversation_ids db"
  shows "unread db' x = unread db x + (if x = c then 1 else 0)"
proof -
  have "row_by c_id c (db_conversations db) \<noteq> None"
    using assms(2) row_by_None [of c_id c "db_conversations db"] by simp
  then show ?thesis
    using increment_unread_tables(5) [OF assms(1)]
    by (auto simp: unread_def row_by_update_where split: option.split dest: row_by_key)
qed

lemma ingest_live_tables:
  assumes "ingest_live e account cached live db = Inr db'"
    and "msg_conversation_id cached \<in> conversation_ids db"
  shows "db_messages db' = db_messages db \<and> db_commands db' = db_commands db \<and>
    db_outbox db' = db_outbox db @ (if live
      then [\<lparr>o_id = db_next_outbox db, o_user_id = acc_user_id account,
             o_event_type = TypeMessageNew, o_payload = cached, o_delivered_at = None\<rparr>] else []) \<and>
    unread db' x = unread db x +
      (if live \<and> msg_direction cached = ''incoming'' \<and> x = msg_conversation_id cached then 1 else 0)"
  using assms(1)
proof (cases rule: ingest_live_cases)
  case (Loud db1)
  have outbox: "db_outbox db' = db_outbox db1 @ [\<lparr>o_id = db_next_outbox db1,
      o_user_id = acc_user_id account, o_event_type = TypeMessageNew, o_payload = cached,
      o_delivered_at = None\<rparr>]" "db_messages db' = db_messages db1"
    "db_commands db' = db_commands db1" "db_conversations db' = db_conversations db1"
    using Loud(4) by (auto simp: insert_outbox_row_def split: if_splits)
  then have same: "unread db' x = unread db1 x" by (simp add: unread_def)
  show ?thesis
  proof (cases "msg_direction cached = ''incoming''")
    case True
    with Loud(2) have inc: "increment_unread (msg_conversation_id cached) db = Some db1" by simp
    show ?thesis
      using outbox same Loud(1) True increment_unread_tables [OF inc]
        increment_unread_unread [OF inc assms(2)] by simp
  next
    case False
    with Loud outbox same show ?thesis by simp
  qed
qed simp

lemma ingest_live_conversation_of:
  assumes "ingest_live e account cached live db = Inr db'"
  shows "conversation_of a p db' = conversation_of a p db"
  using assms
proof (cases rule: ingest_live_cases)
  case (Loud db1)
  have "conversation_of a p db1 = conversation_of a p db"
  proof (cases "msg_direction cached = ''incoming''")
    case True
    with Loud(2) show ?thesis
      unfolding conversation_of_def
      by (simp add: increment_unread_tables(5) conversation_of_update conversation_key_def)
  qed (use Loud(2) in simp)
  then show ?thesis
    using Loud(4) by (auto simp: conversation_of_def insert_outbox_row_def split: if_splits)
qed simp

text \<open>What a successful ingest of a new message has written.\<close>

lemma ingest_new:
  assumes "ingest_message e account m live db = (Inr (r, True), db')"
  shows "conversation_of (acc_id account) (wm_conversation_id m) db' =
      Some (msg_conversation_id r) \<and>
    r = new_message m (msg_id r) (msg_conversation_id r) \<and>
    db_messages db' = db_messages db @ [new_message_row m (msg_id r) (msg_conversation_id r)] \<and>
    msg_id r \<notin> message_ids db \<and>
    db_outbox db' = db_outbox db @ (if live
      then [\<lparr>o_id = db_next_outbox db, o_user_id = acc_user_id account,
             o_event_type = TypeMessageNew, o_payload = r, o_delivered_at = None\<rparr>] else []) \<and>
    unread db' x = unread db x +
      (if live \<and> wm_direction m = ''incoming'' \<and> x = msg_conversation_id r then 1 else 0)"
proof -
  have "ingest_tx e account m live db = Inr ((r, True), db')"
    using assms by (auto simp: ingest_message_def in_tx_Inr split: if_splits)
  then show ?thesis
  proof (cases rule: ingest_tx_cases)
    case (New i j title kind conversation db1 db2)
    have c1: "conversation_of (acc_id account) (wm_conversation_id m) db1 = Some conversation"
      using New(1) by (rule upsert_conversation_of) simp_all
    then have ids: "conversation \<in> conversation_ids db1"
      by (auto simp: conversation_of_def dest: row_by_mem)
    have ins: "db2 = db1\<lparr>db_messages := db_messages db1 @ [new_message_row m j conversation]\<rparr>"
      "j \<notin> message_ids db1"
      using New(3) by (auto simp: insert_message_def new_message_row_def split: if_splits)
    have r: "msg_conversation_id r = conversation" "msg_id r = j" "msg_direction r = wm_direction m"
      using New(5) by (simp_all add: new_message_def)
    have live: "db_messages db' = db_messages db2 \<and> db_commands db' = db_commands db2 \<and>
      db_outbox db' = db_outbox db2 @ (if live
        then [\<lparr>o_id = db_next_outbox db2, o_user_id = acc_user_id account,
               o_event_type = TypeMessageNew, o_payload = r, o_delivered_at = None\<rparr>] else []) \<and>
      unread db' x = unread db2 x +
        (if live \<and> msg_direction r = ''incoming'' \<and> x = msg_conversation_id r then 1 else 0)" for x
      using ingest_live_tables [OF New(7)] ids ins(1) r(1) by simp
    have "unread db2 x = unread db x" for x
      using upsert_unread [OF New(1)] ins(1) by (simp add: new_conversation_row_def unread_def)
    moreover have "conversation_of a p db' = conversation_of a p db2" for a p
      using New(7) by (rule ingest_live_conversation_of)
    ultimately show ?thesis
      using live c1 ins upsert_tables [OF New(1)] r New(5) by (simp add: conversation_of_def)
  qed simp
qed

subsection \<open>A message the store has already\<close>

text \<open>
  \<open>stored_as a p q i db\<close>: the message with provider id \<open>q\<close> in the provider's conversation \<open>p\<close> of
  account \<open>a\<close> is the row with id \<open>i\<close>.
\<close>

definition stored_as :: "string \<Rightarrow> string \<Rightarrow> string \<Rightarrow> string \<Rightarrow> 'h db \<Rightarrow> bool" where
  "stored_as a p q i db \<longleftrightarrow>
     (\<exists>c. conversation_of a p db = Some c \<and>
        (\<exists>m \<in> set (db_messages db). has_provider_key c q m \<and> m_id m = i))"

definition stored :: "string \<Rightarrow> string \<Rightarrow> string \<Rightarrow> 'h db \<Rightarrow> bool" where
  "stored a p q db \<longleftrightarrow> (\<exists>i. stored_as a p q i db)"

lemma provider_key_unique:
  assumes "db_ok db" "x \<in> set (db_messages db)" "y \<in> set (db_messages db)"
    and "has_provider_key c q x" "has_provider_key c q y"
  shows "x = y"
proof (rule unique_by_memD [OF unique_provider_keys [OF assms(1)]])
  show "x \<in> set (identified (db_messages db))" "y \<in> set (identified (db_messages db))"
    using assms by (auto simp: set_identified dest: has_provider_keyD)
  show "provider_key x = provider_key y" using assms by (simp add: has_provider_key_def)
qed

text \<open>A message is never stored twice.\<close>

lemma stored_as_unique: "db_ok db \<Longrightarrow> stored_as a p q i db \<Longrightarrow> stored_as a p q j db \<Longrightarrow> i = j"
  by (auto simp: stored_as_def dest: provider_key_unique)

text \<open>A message \<open>ingestMessage\<close> does not refuse for its own sake.\<close>

definition acceptable :: "wire_message \<Rightarrow> bool" where
  "acceptable m \<longleftrightarrow> wm_provider_message_id m \<noteq> [] \<and> wm_conversation_id m \<noteq> [] \<and>
     wm_sent_at m \<noteq> 0 \<and> wm_direction m \<in> {''incoming'', ''outgoing''}"

lemma ingest_stored:
  assumes "ingest_message e account m live db = (Inr (r, new), db')"
  shows "stored_as (acc_id account) (wm_conversation_id m) (wm_provider_message_id m) (msg_id r) db' \<and>
    acceptable m"
proof -
  have tx: "ingest_tx e account m live db = Inr ((r, new), db')"
    and valid: "wm_provider_message_id m \<noteq> []" "wm_conversation_id m \<noteq> []" "wm_sent_at m \<noteq> 0"
    using assms by (auto simp: ingest_message_def in_tx_Inr split: if_splits)
  have "message_check (new_message_row m j c)" if "insert_new_message (new_message_row m j c) db1 = Some z"
    for j c db1 and z :: "string option \<times> 'a db"
    using that by (auto simp: insert_new_message_def split: if_splits)
  then have dir: "wm_direction m \<in> {''incoming'', ''outgoing''}"
    using tx unfolding ingest_tx_def
    by (auto simp: attempt_eq_Inr stmt_eq_Inr new_message_row_def message_check_def)
  from tx show ?thesis
  proof (cases rule: ingest_tx_cases)
    case (Duplicate i title kind c db1 x)
    have "conversation_of (acc_id account) (wm_conversation_id m) db1 = Some c"
      using Duplicate(1) by (rule upsert_conversation_of) simp_all
    with Duplicate valid dir show ?thesis
      by (auto simp: stored_as_def acceptable_def scan_message_def dest!: find_SomeD)
  next
    case (New i j title kind c db1 db2)
    then have "ingest_message e account m live db = (Inr (r, True), db')" using assms by simp
    from ingest_new [OF this] show ?thesis
      using valid dir
      by (auto simp: stored_as_def acceptable_def has_provider_key_def provider_key_def
          new_message_row_def)
  qed
qed

text \<open>Its redelivery is recognised and leaves messages, outbox and unread counts alone.\<close>

lemma ingest_present:
  assumes ok: "db_ok db" and env: "healthy e" and m: "acceptable m"
    and platform: "acc_platform account \<noteq> []"
    and stored: "stored (acc_id account) (wm_conversation_id m) (wm_provider_message_id m) db"
  shows "\<exists>x db'. ingest_message e account m live db = (Inr (scan_message x, False), db') \<and>
    x \<in> set (db_messages db) \<and> db_messages db' = db_messages db \<and> db_outbox db' = db_outbox db \<and>
    (\<forall>c. unread db' c = unread db c) \<and>
    stored_as (acc_id account) (wm_conversation_id m) (wm_provider_message_id m) (m_id x) db"
proof -
  from stored obtain c x0 where c: "conversation_of (acc_id account) (wm_conversation_id m) db = Some c"
    and x0: "x0 \<in> set (db_messages db)" "has_provider_key c (wm_provider_message_id m) x0"
    by (auto simp: stored_def stored_as_def)
  obtain cr where cr: "row_by conversation_key (acc_id account, wm_conversation_id m)
      (db_conversations db) = Some cr" "c = c_id cr"
    using c by (auto simp: conversation_of_def)
  obtain title kind where open_ok: "opened_conversation account m = Inr (title, kind)"
  proof -
    have "\<exists>p. opened_conversation account m = Inr p"
      using platform by (auto simp: opened_conversation_def split: list.split)
    then show thesis using that by auto
  qed
  obtain i j where rand: "random_value e 0 ''con_'' 16 = Inr i" "random_value e 1 ''msg_'' 16 = Inr j"
    using env by (simp add: random_value_def)
  let ?r = "new_conversation_row e account m i title kind"
  let ?db1 = "db\<lparr>db_conversations := update_where (\<lambda>c. conversation_key c = conversation_key ?r)
      (touch_conversation e (wm_sent_at m)) (db_conversations db)\<rparr>"
  have ups: "upsert_conversation ?r (touch_conversation e (wm_sent_at m)) db = Some (c, ?db1)"
    using cr by (simp add: upsert_conversation_def)
  have "provider_key (new_message_row m j c) = provider_key x0"
    using x0(2) by (simp add: has_provider_key_def provider_key_def new_message_row_def)
  then have "provider_key (new_message_row m j c) \<in> provider_key ` set (identified (db_messages db))"
    using x0 by (auto simp: set_identified dest: has_provider_keyD)
  then have ins: "insert_new_message (new_message_row m j c) ?db1 = Some (None, ?db1)"
    using m by (simp add: insert_new_message_def message_check_def new_message_row_def acceptable_def)
  obtain x where x: "List.find (has_provider_key c (wm_provider_message_id m)) (db_messages db) = Some x"
    using x0 by (cases "List.find (has_provider_key c (wm_provider_message_id m)) (db_messages db)")
      (auto simp: find_None_iff)
  have "ingest_message e account m live db = (Inr (scan_message x, False), ?db1)"
    using env m rand open_ok ups ins x
    by (simp add: ingest_message_def acceptable_def in_tx_def ingest_tx_def ingest_outcome_def)
  moreover have "unread ?db1 d = unread db d" for d
    by (rule upsert_unread [OF ups]) (simp_all add: new_conversation_row_def)
  moreover have "x \<in> set (db_messages db)"
    "stored_as (acc_id account) (wm_conversation_id m) (wm_provider_message_id m) (m_id x) db"
    using x c by (auto simp: stored_as_def dest: find_SomeD)
  ultimately show ?thesis by auto
qed

subsection \<open>Properties\<close>

definition sample_message :: wire_message where
  "sample_message = \<lparr>wm_provider_message_id = ''1720000000001'',
     wm_conversation_id = ''+47'', wm_author_id = ''+47'', wm_author_name = ''Bob'',
     wm_body = ''hi'', wm_sent_at = minute, wm_direction = ''incoming''\<rparr>"

abbreviation sample_owner :: account where
  "sample_owner \<equiv> scan_account (sample_account ''acc-1'' ''signal'' 1)"

lemma sample_ingest:
  "\<exists>r db'. ingest_message (sample_env minute) sample_owner sample_message True sample_db =
     (Inr (r, True), db')"
  by (simp add: ingest_message_def in_tx_def ingest_tx_def sample_message_def sample_account_def
      scan_account_def opened_conversation_def has_prefix_def upsert_conversation_def
      insert_conversation_def sample_db_def empty_db_def new_conversation_row_def
      conversation_key_def insert_new_message_def message_check_def new_message_row_def
      identified_def insert_message_def ingest_outcome_def ingest_live_def increment_unread_def
      new_message_def Let_def insert_outbox_def marshal_message_def insert_outbox_row_def
      minute_def second_def day_def update_where_def)

text \<open>
  A message delivered again is not stored again: whatever an ingest - live or from the history
  sync - has stored, a later delivery of the same message to the same account, live or not, answers
  with the stored message and changes neither the messages, nor the outbox (so nobody is notified
  twice), nor any unread count.
\<close>

theorem ingest_idempotent:
  assumes "db_ok db" "ingest_message e account m live db = (Inr (r, new), db1)"
    and "acc_platform account \<noteq> []" "healthy e'"
  shows "\<exists>r' db2. ingest_message e' account m live' db1 = (Inr (r', False), db2) \<and>
    msg_id r' = msg_id r \<and> db_messages db2 = db_messages db1 \<and> db_outbox db2 = db_outbox db1 \<and>
    (\<forall>c. unread db2 c = unread db1 c)"
proof -
  have stored: "stored_as (acc_id account) (wm_conversation_id m) (wm_provider_message_id m)
      (msg_id r) db1" and m: "acceptable m"
    using ingest_stored [OF assms(2)] by simp_all
  have ok: "db_ok db1"
    using message_step_ok [OF ingest_step [of db e account m live] assms(1)] assms(2) by simp
  from stored have "stored (acc_id account) (wm_conversation_id m) (wm_provider_message_id m) db1"
    by (auto simp: stored_def)
  from ingest_present [OF ok assms(4) m assms(3) this, of live'] obtain x db2 where
    x: "ingest_message e' account m live' db1 = (Inr (scan_message x, False), db2)"
    "db_messages db2 = db_messages db1" "db_outbox db2 = db_outbox db1"
    "\<forall>c. unread db2 c = unread db1 c"
    "stored_as (acc_id account) (wm_conversation_id m) (wm_provider_message_id m) (m_id x) db1"
    by blast
  have "msg_id (scan_message x) = msg_id r"
    using stored_as_unique [OF ok x(5) stored] by (simp add: scan_message_def)
  with x show ?thesis by blast
qed

theorem ingest_idempotent_witness:
  "\<exists>r r' db1 db2.
     ingest_message (sample_env minute) sample_owner sample_message True sample_db =
       (Inr (r, True), db1) \<and>
     ingest_message (sample_env (2 * minute)) sample_owner sample_message True db1 =
       (Inr (r', False), db2) \<and> msg_id r' = msg_id r \<and> db_outbox db2 = db_outbox db1"
proof -
  obtain r db1 where r: "ingest_message (sample_env minute) sample_owner sample_message True
      sample_db = (Inr (r, True), db1)"
    using sample_ingest by blast
  have "acc_platform sample_owner \<noteq> []" by (simp add: scan_account_def)
  from ingest_idempotent [OF pg_ok_schema [OF sample_db_ok] r this, of "sample_env (2 * minute)" True]
  show ?thesis using r by fastforce
qed

text \<open>
  What a new message does: exactly one row is appended to the messages, under a fresh id, with
  the delivered content and the time cut to microseconds; a live message - and only a live one - is
  announced to the account's owner by exactly one outbox event with the very message that the call
  returns; the unread count of its conversation grows by one if it is live and incoming, and no
  other unread count changes.
\<close>

theorem ingest_effect:
  assumes "ingest_message e account m live db = (Inr (r, True), db')"
  shows "conversation_of (acc_id account) (wm_conversation_id m) db' =
      Some (msg_conversation_id r) \<and>
    r = new_message m (msg_id r) (msg_conversation_id r) \<and>
    db_messages db' = db_messages db @ [new_message_row m (msg_id r) (msg_conversation_id r)] \<and>
    msg_id r \<notin> message_ids db \<and>
    db_outbox db' = db_outbox db @ (if live
      then [\<lparr>o_id = db_next_outbox db, o_user_id = acc_user_id account,
             o_event_type = TypeMessageNew, o_payload = r, o_delivered_at = None\<rparr>] else []) \<and>
    (\<forall>c. unread db' c = unread db c +
      (if live \<and> wm_direction m = ''incoming'' \<and> c = msg_conversation_id r then 1 else 0))"
  using ingest_new [OF assms] by simp

theorem ingest_effect_witness:
  "\<exists>r db'. ingest_message (sample_env minute) sample_owner sample_message True sample_db =
       (Inr (r, True), db') \<and>
     length (db_messages db') = 1 \<and> unread db' (msg_conversation_id r) = 1 \<and>
     map o_payload (db_outbox db') = [r]"
proof -
  obtain r db1 where r: "ingest_message (sample_env minute) sample_owner sample_message True
      sample_db = (Inr (r, True), db1)"
    using sample_ingest by blast
  with ingest_effect [OF r] show ?thesis
    by (simp add: sample_db_def empty_db_def unread_def sample_message_def)
qed

end
