(* ===== verification/SendLifecycle.thy ===== *)
theory SendLifecycle
  imports Ingest
begin

section \<open>The life cycle of a send command\<close>

text \<open>
  Facts about \<open>prepare_send\<close>, \<open>mark_command_dispatched\<close>, \<open>complete_send\<close> and \<open>fail_send\<close> of
  \<open>PgMessages\<close>: an idempotency key names one command, a command whose message is still there can
  always be completed, and nobody but the owner of the account reaches any of it.
\<close>

lemma row_by_snoc_new:
  "key r \<notin> key ` set rows \<Longrightarrow> row_by key (key r) (rows @ [r]) = Some r"
  using row_by_None [of key "key r" rows] by (simp add: row_by_append)

lemma owned_conversation_eq_Some:
  "owned_conversation u i db = Some (c, a) \<longleftrightarrow>
   row_by c_id i (db_conversations db) = Some c \<and>
   row_by a_id (c_account_id c) (db_accounts db) = Some a \<and> a_user_id a = u"
  by (auto simp: owned_conversation_def bind_eq_Some_conv)

lemma owned_command_eq_Some:
  "owned_command u i db = Some k \<longleftrightarrow> row_by k_id i (db_commands db) = Some k \<and>
   (\<exists>a. row_by a_id (k_account_id k) (db_accounts db) = Some a \<and> a_user_id a = u)"
  by (auto simp: owned_command_def bind_eq_Some_conv split: if_splits)

subsection \<open>Preparing\<close>

lemma command_key_link [simp]: "command_key (link_message j k) = command_key k"
  and k_id_link [simp]: "k_id (link_message j k) = k_id k"
  by (simp_all add: command_key_def link_message_def)

lemma sent_activity_simps [simp]:
  "c_id (sent_activity e c) = c_id c" "c_account_id (sent_activity e c) = c_account_id c"
  "c_provider_id (sent_activity e c) = c_provider_id c"
  "c_unread_count (sent_activity e c) = c_unread_count c"
  by (simp_all add: sent_activity_def)

text \<open>The tables after a prepared send.\<close>

lemma prepared_tables:
  assumes "insert_command (send_command_row e i a p body key) db = Some db1"
    and "insert_message (pending_message_row e j conversation body) db1 = Some db2"
    and "db' = db2\<lparr>db_commands := update_where (\<lambda>k. k_id k = i) (link_message j) (db_commands db2),
       db_conversations := update_where (\<lambda>c. c_id c = conversation) (sent_activity e)
         (db_conversations db2)\<rparr>"
  shows "db_commands db' = db_commands db @ [link_message j (send_command_row e i a p body key)]"
    and "db_messages db' = db_messages db @ [pending_message_row e j conversation body]"
    and "db_conversations db' = update_where (\<lambda>c. c_id c = conversation) (sent_activity e)
         (db_conversations db)"
    and "db_accounts db' = db_accounts db" "db_outbox db' = db_outbox db"
    and "i \<notin> k_id ` set (db_commands db)" "j \<notin> message_ids db"
proof -
  have new: "i \<notin> k_id ` set (db_commands db)" "j \<notin> message_ids db"
    and db1: "db1 = db\<lparr>db_commands := db_commands db @ [send_command_row e i a p body key]\<rparr>"
    and db2: "db2 = db1\<lparr>db_messages := db_messages db1 @ [pending_message_row e j conversation body]\<rparr>"
    using assms(1,2)
    by (auto simp: insert_command_def insert_message_def send_command_row_def
        pending_message_row_def split: if_splits)
  have "update_where (\<lambda>k. k_id k = i) (link_message j) (db_commands db) = db_commands db"
    unfolding update_where_def using new(1) by (intro map_idI) auto
  then have "update_where (\<lambda>k. k_id k = i) (link_message j)
      (db_commands db @ [send_command_row e i a p body key]) =
      db_commands db @ [link_message j (send_command_row e i a p body key)]"
    by (simp add: update_where_def send_command_row_def)
  then show "db_commands db' = db_commands db @ [link_message j (send_command_row e i a p body key)]"
    "db_messages db' = db_messages db @ [pending_message_row e j conversation body]"
    "db_conversations db' = update_where (\<lambda>c. c_id c = conversation) (sent_activity e)
         (db_conversations db)"
    "db_accounts db' = db_accounts db" "db_outbox db' = db_outbox db"
    by (simp_all add: assms(3) db1 db2)
  show "i \<notin> k_id ` set (db_commands db)" "j \<notin> message_ids db" using new .
qed

text \<open>A call with a key that is taken reads the command the key belongs to.\<close>

lemma prepare_taken:
  assumes "healthy e" "owned_conversation u conversation db = Some (c, a)"
    and "row_by command_key (c_account_id c, key) (db_commands db) = Some k"
  shows "prepare_send e u conversation body key db = (existing_send e (c_account_id c) key db, db)"
proof -
  obtain i j where rand: "random_value e 0 ''cmd_'' 16 = Inr i" "random_value e 1 ''msg_'' 16 = Inr j"
    using assms(1) by (simp add: random_value_def)
  let ?r = "send_command_row e i (c_account_id c) (c_provider_id c) body key"
  have "command_key ?r = command_key k"
    using row_by_key [OF assms(3)] by (simp add: send_command_row_def command_key_def)
  then have "insert_new_command ?r db = Some (0, db)"
    using row_by_mem [OF assms(3)]
    by (auto simp: insert_new_command_def send_command_row_def command_statuses_def)
  with assms(1,2) rand show ?thesis
    by (simp add: prepare_send_def in_tx_def prepare_tx_def)
qed

lemma existing_send_env: "healthy e \<Longrightarrow> existing_send e' a key db = Inr p \<Longrightarrow> existing_send e a key db = Inr p"
  by (auto simp: existing_send_def query_row_eq_Inr)

lemma prepare_send_Inr:
  assumes "prepare_send e u conversation body key db = (Inr p, db1)"
  shows "\<exists>res. prepare_tx e u conversation body key db = Inr (res, db1) \<and>
    (case res of Inl a \<Rightarrow> existing_send e a key db1 = Inr p | Inr p' \<Rightarrow> p' = p)"
proof (cases rule: in_tx_cases [of "prepare_tx e u conversation body key" db])
  case (Fail err)
  with assms show ?thesis by (simp add: prepare_send_def)
next
  case (Done res db')
  show ?thesis
  proof (cases res)
    case (Inl a)
    with assms Done show ?thesis by (simp add: prepare_send_def) blast
  next
    case (Inr p')
    with assms Done show ?thesis by (simp add: prepare_send_def)
  qed
qed

lemma prepare_send_again:
  assumes "db_ok db" "prepare_send e u conversation body key db = (Inr p, db1)" "healthy e'"
  shows "\<exists>p'. prepare_send e' u conversation body' key db1 = (Inr p', db1) \<and>
    prep_command_id p' = prep_command_id p \<and> msg_id (prep_message p') = msg_id (prep_message p) \<and>
    msg_body (prep_message p') = msg_body (prep_message p) \<and> prep_created p' = prep_created p"
proof -
  obtain res where tx: "prepare_tx e u conversation body key db = Inr (res, db1)"
    and res: "case res of Inl a \<Rightarrow> existing_send e a key db1 = Inr p | Inr p' \<Rightarrow> p' = p"
    using prepare_send_Inr [OF assms(2)] by blast
  from tx show ?thesis
  proof (cases rule: prepare_tx_cases)
    case (Taken c a k)
    with res have "existing_send e (c_account_id c) key db1 = Inr p" by simp
    then have "existing_send e' (c_account_id c) key db1 = Inr p"
      by (rule existing_send_env [OF assms(3)])
    with Taken prepare_taken [OF assms(3), of u conversation db1 c a key k body'] show ?thesis
      by simp
  next
    case (Prepared c a i j db2 db3)
    note tables = prepared_tables [OF Prepared(4,5,6)]
    let ?k = "link_message j (send_command_row e i (c_account_id c) (c_provider_id c) body key)"
    let ?c = "sent_activity e c"
    have key: "command_key ?k = (c_account_id c, key)"
      by (simp add: link_message_def send_command_row_def command_key_def)
    have c: "row_by c_id conversation (db_conversations db1) = Some ?c"
      using Prepared(1) row_by_key [of c_id conversation "db_conversations db" c]
      by (simp add: owned_conversation_eq_Some tables(3) row_by_update_where)
    then have owned: "owned_conversation u conversation db1 = Some (?c, a)"
      using Prepared(1) by (simp add: owned_conversation_eq_Some tables(4))
    have taken: "row_by command_key (c_account_id c, key) (db_commands db1) = Some ?k"
      using Prepared(3) key by (simp add: tables(1) row_by_append)
    have "row_by m_id j (db_messages db1) = Some (pending_message_row e j conversation body)"
      using tables(7) row_by_snoc_new [of m_id "pending_message_row e j conversation body"]
      by (simp add: tables(2) pending_message_row_def)
    then have "existing_send e' (c_account_id c) key db1 = Inr
        \<lparr>prep_account_id = c_account_id c, prep_conversation = c_provider_id c,
          prep_command_id = i, prep_command_status = ''pending'',
          prep_message = scan_message (pending_message_row e j conversation body),
          prep_created = True\<rparr>"
      using taken c assms(3)
      by (simp add: existing_send_def link_message_def send_command_row_def pending_message_row_def)
    with prepare_taken [OF assms(3) owned, of key ?k body'] taken res Prepared(7) show ?thesis
      by (auto simp: pending_message_def scan_message_def pending_message_row_def)
  qed
qed

text \<open>
  An idempotency key names one command: when preparing a send has succeeded, preparing it again
  under the same key - with the same or any other body - returns the same command and the same
  message, and writes nothing: no second command, no second message, no new activity.
\<close>

theorem prepare_send_idempotent:
  assumes "db_ok db" "prepare_send e u conversation body key db = (Inr p, db1)" "healthy e'"
  shows "\<exists>p'. prepare_send e' u conversation body' key db1 = (Inr p', db1) \<and>
    prep_command_id p' = prep_command_id p \<and> msg_id (prep_message p') = msg_id (prep_message p) \<and>
    msg_body (prep_message p') = msg_body (prep_message p) \<and> prep_created p' = prep_created p"
  by (rule prepare_send_again [OF assms])

text \<open>The provider's time must be one that can be announced.\<close>

definition announceable :: "time \<Rightarrow> bool" where
  "announceable t \<longleftrightarrow> - (366 * day) \<le> t \<and> t < 3652059 * day"

lemma marshal_message_ok: "announceable (msg_sent_at m) \<Longrightarrow> marshal_message m = Inr m"
  by (simp add: marshal_message_def announceable_def)

text \<open>A concrete conversation of Alice's, in the database of \<open>PgAccounts\<close>.\<close>

definition sample_chat :: "string db" where
  "sample_chat = sample_db\<lparr>db_conversations := [\<lparr>c_id = ''con-1'', c_account_id = ''acc-1'',
     c_provider_id = ''+47'', c_title = ''Bob'', c_kind = ''direct'', c_unread_count = 0,
     c_last_message_at = None, c_updated_at = minute\<rparr>]\<rparr>"

lemma sample_chat_tables [simp]:
  "db_accounts sample_chat = db_accounts sample_db"
  "db_pairing_tokens sample_chat = db_pairing_tokens sample_db"
  "db_worker_credentials sample_chat = db_worker_credentials sample_db"
  "db_users sample_chat = [\<lparr>u_id = ''alice'', u_email = ''alice@example.org''\<rparr>]"
  "db_commands sample_chat = []" "db_messages sample_chat = []" "db_outbox sample_chat = []"
  "db_conversations sample_chat = [\<lparr>c_id = ''con-1'', c_account_id = ''acc-1'',
     c_provider_id = ''+47'', c_title = ''Bob'', c_kind = ''direct'', c_unread_count = 0,
     c_last_message_at = None, c_updated_at = minute\<rparr>]"
  by (simp_all add: sample_chat_def sample_db_def empty_db_def)

lemma sample_chat_ok: "pg_ok sample_chat"
  using sample_db_ok
  by (simp add: pg_ok_def db_ok_def conversations_ok_def sample_db_simps messages_ok_def
      commands_ok_def unique_by_def identified_def) (simp add: sample_chat_def sample_db_def empty_db_def outbox_ok_def)

lemma sample_prepare:
  "\<exists>p db1. prepare_send (sample_env minute) ''alice'' ''con-1'' ''hello'' ''key'' sample_chat =
     (Inr p, db1) \<and> msg_body (prep_message p) = ''hello'' \<and> prep_created p \<and>
     (\<forall>m \<in> set (db_messages db1). announceable (m_sent_at m))"
  by (simp add: announceable_def pg_time_def day_def minute_def second_def prepare_send_def in_tx_def prepare_tx_def owned_conversation_def sample_db_simps
      insert_new_command_def send_command_row_def command_statuses_def insert_command_def
      prepare_message_def insert_message_def pending_message_row_def message_check_def
      pending_message_def)

theorem prepare_send_idempotent_witness:
  "\<exists>p p' db1.
     prepare_send (sample_env minute) ''alice'' ''con-1'' ''hello'' ''key'' sample_chat =
       (Inr p, db1) \<and>
     prepare_send (sample_env (2 * minute)) ''alice'' ''con-1'' ''other'' ''key'' db1 =
       (Inr p', db1) \<and>
     prep_command_id p' = prep_command_id p \<and> msg_body (prep_message p') = ''hello''"
proof -
  obtain p db1 where p: "prepare_send (sample_env minute) ''alice'' ''con-1'' ''hello'' ''key''
      sample_chat = (Inr p, db1)" "msg_body (prep_message p) = ''hello''"
    using sample_prepare by blast
  with prepare_send_idempotent [OF pg_ok_schema [OF sample_chat_ok] p(1),
      of "sample_env (2 * minute)" "''other''"]
  show ?thesis by auto
qed

subsection \<open>Completing and failing\<close>

text \<open>A command of the owner, with the message it is about, is complete in the tables.\<close>

lemma owned_command_tables:
  assumes ok: "db_ok db" and k: "owned_command u i db = Some k" and j: "k_message_id k = Some j"
  obtains m where "row_by m_id j (db_messages db) = Some m" "m_id m = j" "message_check m"
    "u \<in> user_ids db" "k_id k = i" "k \<in> set (db_commands db)"
proof -
  have k': "k \<in> set (db_commands db)" "k_id k = i"
    using k by (auto simp: owned_command_eq_Some dest: row_byD)
  then have "j \<in> message_ids db"
    using db_ok_commands [OF ok] j unfolding commands_ok_def by blast
  then obtain m where m: "row_by m_id j (db_messages db) = Some m"
    using row_by_None [of m_id j "db_messages db"] by auto
  then have "message_check m" "m_id m = j"
    using db_ok_messages [OF ok] by (auto simp: messages_ok_def dest: row_byD)
  moreover have "u \<in> user_ids db"
    using k db_ok_accounts [OF ok] by (auto simp: owned_command_eq_Some accounts_ok_def dest!: row_byD)
  ultimately show thesis using m k' that by blast
qed

lemma unique_by_via_id:
  assumes "unique_by i rows"
    and "\<And>x y. x \<in> set (filter Q rows) \<Longrightarrow> y \<in> set (filter Q rows) \<Longrightarrow> key x = key y \<Longrightarrow> i x = i y"
  shows "unique_by key (filter Q rows)"
  using assms unfolding unique_by_def distinct_map
  by (auto intro!: inj_onI dest: inj_onD)

text \<open>After the reconciliation no other message has the provider's id.\<close>

lemma reconciled_unique:
  assumes ok: "db_ok db" and m: "row_by m_id j (db_messages db) = Some m"
    and provider: "provider \<noteq> []"
    and f: "\<And>r. m_id (f r) = m_id r" "\<And>r. m_conversation_id (f r) = m_conversation_id r"
      "\<And>r. m_provider_id (f r) = Some provider"
  defines "rows \<equiv> update_where (\<lambda>r. m_id r = j) f
    (db_messages (reconcile (m_conversation_id m) provider j db))"
  shows "unique_by provider_key (identified rows)"
proof -
  let ?kept = "filter (\<lambda>r. \<not> (has_provider_key (m_conversation_id m) provider r \<and> m_id r \<noteq> j))
    (db_messages db)"
  have rows: "rows = update_where (\<lambda>r. m_id r = j) f ?kept"
    by (simp add: rows_def reconcile_def delete_messages_def Let_def)
  have "unique_by m_id rows"
    using unique_messages [OF ok] f(1) by (simp add: rows unique_by_update_where unique_by_filter)
  moreover have "m_id x' = m_id y'"
    if "x' \<in> set (identified rows)" "y' \<in> set (identified rows)" "provider_key x' = provider_key y'"
    for x' y'
  proof (rule ccontr)
    assume neq: "m_id x' \<noteq> m_id y'"
    have "x' \<in> (\<lambda>r. if m_id r = j then f r else r) ` set ?kept \<and> m_provider_id x' \<noteq> None"
      "y' \<in> (\<lambda>r. if m_id r = j then f r else r) ` set ?kept \<and> m_provider_id y' \<noteq> None"
      using that(1,2) unfolding set_identified rows set_update_where by blast+
    then obtain x y where x: "x \<in> set ?kept" "x' = (if m_id x = j then f x else x)"
      "m_provider_id x' \<noteq> None" and y: "y \<in> set ?kept" "y' = (if m_id y = j then f y else y)"
      "m_provider_id y' \<noteq> None"
      by blast
    have own: "z = m" if "z \<in> set ?kept" "m_id z = j" for z
      using unique_by_memD [OF unique_messages [OF ok], of z m] row_byD [OF m] that by simp
    have clash: False if "v \<in> set ?kept" "m_id v \<noteq> j" "w \<in> set ?kept" "m_id w = j"
      "provider_key v = provider_key (f w)" for v w
      using that own [OF that(3,4)] f(2,3) [of m] by (auto simp: has_provider_key_def provider_key_def)
    show False
    proof (cases "m_id x = j")
      case True
      with neq x(2) y(2) f(1) have "m_id y \<noteq> j" by auto
      with clash [OF y(1) _ x(1) True] True x(2) y(2) that(3) show False by simp
    next
      case False
      show False
      proof (cases "m_id y = j")
        case True
        with clash [OF x(1) False y(1)] False x(2) y(2) that(3) show False by simp
      next
        case ny: False
        have "x = y"
          using unique_by_memD [OF unique_provider_keys [OF ok], of x y] False ny x y that(3)
          by (simp add: set_identified)
        then have "x' = y'" by (simp only: x(2) y(2))
        with neq show False by simp
      qed
    qed
  qed
  ultimately show ?thesis unfolding identified_def by (rule unique_by_via_id)
qed

lemma reconcile_tables [simp]:
  "db_messages (reconcile c p j db) =
     filter (\<lambda>r. \<not> (has_provider_key c p r \<and> m_id r \<noteq> j)) (db_messages db)"
  "db_outbox (reconcile c p j db) = db_outbox db" "db_users (reconcile c p j db) = db_users db"
  "db_next_outbox (reconcile c p j db) = db_next_outbox db"
  "map k_id (db_commands (reconcile c p j db)) = map k_id (db_commands db)"
  by (simp_all add: reconcile_def delete_messages_def Let_def map_update_where)

lemma set_command_result_simps [simp]:
  "db_messages (set_command_result e i st res db) = db_messages db"
  "db_outbox (set_command_result e i st res db) = db_outbox db"
  "db_users (set_command_result e i st res db) = db_users db"
  "db_next_outbox (set_command_result e i st res db) = db_next_outbox db"
  "db_commands (set_command_result e i st res db) = update_where (\<lambda>k. k_id k = i)
       (\<lambda>k. k\<lparr>k_status := st, k_provider_result := Some res, k_updated_at := db_now e\<rparr>)
       (db_commands db)"
  by (simp_all add: set_command_result_def)

lemma completed_message_simps [simp]:
  "m_id (completed_message p t m) = m_id m"
  "m_conversation_id (completed_message p t m) = m_conversation_id m"
  "m_status (completed_message p t m) = ''sent''"
  "m_sent_at (completed_message p t m) = pg_time t"
  "m_direction (completed_message p t m) = m_direction m"
  "p \<noteq> [] \<Longrightarrow> m_provider_id (completed_message p t m) = Some p"
  by (simp_all add: completed_message_def)

text \<open>What \<open>PrepareSend\<close> answers with is a command of the caller.\<close>

lemma prepared_owned:
  assumes ok: "db_ok db" and prep: "prepare_send e u conversation body key db = (Inr p, db1)"
  obtains k where "owned_command u (prep_command_id p) db1 = Some k"
    "k_message_id k = Some (msg_id (prep_message p))" "k_status k = prep_command_status p"
proof -
  obtain res where tx: "prepare_tx e u conversation body key db = Inr (res, db1)"
    and res: "case res of Inl a \<Rightarrow> existing_send e a key db1 = Inr p | Inr p' \<Rightarrow> p' = p"
    using prepare_send_Inr [OF prep] by blast
  have ok1: "db_ok db1" using message_step_ok [OF prepare_step [OF tx] ok] .
  from tx show thesis
  proof (cases rule: prepare_tx_cases)
    case (Taken c a k)
    then obtain m where k: "row_by command_key (c_account_id c, key) (db_commands db1) = Some k"
      "k_message_id k = Some (m_id m)" "p = \<lparr>prep_account_id = c_account_id c,
        prep_conversation = prep_conversation p, prep_command_id = k_id k,
        prep_command_status = k_status k, prep_message = scan_message m,
        prep_created = (k_status k = ''pending'')\<rparr>"
      using res
      by (auto simp: existing_send_def query_row_eq_Inr bind_eq_Some_conv dest: row_by_key)
    have "row_by k_id (k_id k) (db_commands db1) = Some k"
      using row_by_unique [OF unique_commands [OF ok1] row_by_mem [OF k(1)]] .
    moreover have "k_account_id k = c_account_id c"
      using row_by_key [OF k(1)] by (simp add: command_key_def)
    moreover have "row_by a_id (c_account_id c) (db_accounts db1) = Some a" "a_user_id a = u"
      using Taken(1,3) by (simp_all add: owned_conversation_eq_Some)
    moreover have "prep_command_id p = k_id k" "prep_command_status p = k_status k"
      "msg_id (prep_message p) = m_id m"
      by (subst k(3); simp add: scan_message_def)+
    ultimately show thesis
      using k(2) by (intro that [of k]) (simp_all add: owned_command_eq_Some)
  next
    case (Prepared c a i j db2 db3)
    note tables = prepared_tables [OF Prepared(4,5,6)]
    let ?k = "link_message j (send_command_row e i (c_account_id c) (c_provider_id c) body key)"
    have "row_by k_id i (db_commands db1) = Some ?k"
      using tables(6) row_by_None [of k_id i "db_commands db"]
      by (simp add: tables(1) row_by_append send_command_row_def)
    then have "owned_command u i db1 = Some ?k"
      using Prepared(1)
      by (auto simp: owned_command_eq_Some owned_conversation_eq_Some tables(4)
          link_message_def send_command_row_def)
    with Prepared(7) res show thesis
      by (intro that [of ?k])
        (auto simp: link_message_def send_command_row_def pending_message_def)
  qed
qed

lemma complete_send_stores:
  assumes "db_ok db" "healthy e" "owned_command u i db = Some k" "k_message_id k = Some j"
    and "provider \<noteq> []" "announceable (pg_time sent_at)"
  shows "\<exists>msg db'. complete_send e u i provider sent_at db = (Inr msg, db') \<and>
    msg_id msg = j \<and> msg_status msg = ''sent'' \<and> msg_provider_id msg = provider \<and>
    msg_sent_at msg = pg_time sent_at \<and>
    filter (has_provider_key (msg_conversation_id msg) provider) (db_messages db') =
      filter (\<lambda>r. m_id r = j) (db_messages db') \<and>
    map o_payload (db_outbox db') = map o_payload (db_outbox db) @ [msg]"
proof -
  obtain m where m: "row_by m_id j (db_messages db) = Some m" "m_id m = j" "message_check m"
    "u \<in> user_ids db"
    by (rule owned_command_tables [OF assms(1,3,4)])
  let ?f = "completed_message provider sent_at"
  let ?db1 = "reconcile (m_conversation_id m) provider j db"
  let ?rows = "update_where (\<lambda>r. m_id r = j) ?f (db_messages ?db1)"
  let ?db2 = "?db1\<lparr>db_messages := ?rows\<rparr>"
  let ?msg = "scan_message (?f m)"
  have row: "row_by m_id j (db_messages ?db1) = Some m"
    using m by (simp add: row_by_filter_keep)
  have "unique_by provider_key (identified ?rows)"
    by (rule reconciled_unique [OF assms(1) m(1) assms(5)]) (use assms(5) in simp_all)
  moreover have "message_check (?f m)" using m(3) by (simp add: message_check_def)
  ultimately have upd: "update_message j ?f ?db1 = Some (Some (?f m), ?db2)"
    using row by (simp add: update_message_def Let_def)
  let ?db3 = "set_command_result e i ''completed'' (JObj [(''provider_message_id'', JStr provider)]) ?db2"
  obtain db' where out: "insert_outbox_row u ''message.updated'' ?msg ?db3 = Some db'"
    using m(4) by (simp add: insert_outbox_row_def)
  then have db': "db_messages db' = ?rows"
    "map o_payload (db_outbox db') = map o_payload (db_outbox db) @ [?msg]"
    by (auto simp: insert_outbox_row_def split: if_splits)
  have msg: "msg_sent_at ?msg = pg_time sent_at" "msg_id ?msg = j" "msg_status ?msg = ''sent''"
    "msg_provider_id ?msg = provider" "msg_conversation_id ?msg = m_conversation_id m"
    using m(2) assms(5) by (simp_all add: scan_message_def)
  have completed: "complete_send e u i provider sent_at db = (Inr ?msg, db')"
    using assms m(1,2) upd out marshal_message_ok [of ?msg] msg(1)
    by (simp add: complete_send_def in_tx_def complete_tx_def returning_def insert_outbox_def)
  have own: "r = m" if "r \<in> set (db_messages db)" "m_id r = j" for r
    using unique_by_memD [OF unique_messages [OF assms(1)] that(1), of m] row_byD [OF m(1)] that(2)
    by simp
  have "has_provider_key (m_conversation_id m) provider r \<longleftrightarrow> m_id r = j" if "r \<in> set ?rows" for r
    using that assms(5)
    by (auto simp: set_update_where has_provider_key_def provider_key_def split: if_splits dest: own)
  then have "filter (has_provider_key (m_conversation_id m) provider) ?rows =
      filter (\<lambda>r. m_id r = j) ?rows"
    by (rule filter_cong [OF refl])
  with completed db' msg show ?thesis by auto
qed

text \<open>
  A provider's confirmation is never lost: completing the owner's command whose message is
  still stored succeeds in a healthy environment - in particular the unique index on provider ids is
  never violated, even when the provider has already delivered its own copy of the message. The
  copy is deleted, the pending message takes over the provider's id and time and is the only one in
  its conversation with that id, and the owner is told exactly once.
\<close>

theorem complete_send_succeeds:
  assumes "db_ok db" "healthy e" "owned_command u i db = Some k" "k_message_id k = Some j"
    and "provider \<noteq> []" "announceable (pg_time sent_at)"
  shows "\<exists>msg db'. complete_send e u i provider sent_at db = (Inr msg, db') \<and>
    msg_id msg = j \<and> msg_status msg = ''sent'' \<and> msg_provider_id msg = provider \<and>
    msg_sent_at msg = pg_time sent_at \<and>
    filter (has_provider_key (msg_conversation_id msg) provider) (db_messages db') =
      filter (\<lambda>r. m_id r = j) (db_messages db') \<and>
    map o_payload (db_outbox db') = map o_payload (db_outbox db) @ [msg]"
  by (rule complete_send_stores [OF assms])

theorem complete_send_succeeds_witness:
  "\<exists>p db1 msg db2.
     prepare_send (sample_env minute) ''alice'' ''con-1'' ''hello'' ''key'' sample_chat =
       (Inr p, db1) \<and>
     complete_send (sample_env (2 * minute)) ''alice'' (prep_command_id p) ''17200'' minute db1 =
       (Inr msg, db2) \<and> msg_status msg = ''sent'' \<and> msg_id msg = msg_id (prep_message p)"
proof -
  obtain p db1 where p: "prepare_send (sample_env minute) ''alice'' ''con-1'' ''hello'' ''key''
      sample_chat = (Inr p, db1)"
    using sample_prepare by blast
  note ok = pg_ok_schema [OF sample_chat_ok]
  have ok1: "db_ok db1"
    using message_step_ok [OF prepare_send_step ok] p by (metis snd_conv)
  obtain k where k: "owned_command ''alice'' (prep_command_id p) db1 = Some k"
    "k_message_id k = Some (msg_id (prep_message p))"
    by (rule prepared_owned [OF ok p])
  have "announceable (pg_time minute)"
    by (simp add: announceable_def pg_time_def day_def minute_def second_def)
  then show ?thesis
    using complete_send_succeeds [OF ok1 _ k, of "sample_env (2 * minute)" "''17200''" minute] p
    by fastforce
qed

text \<open>
  A send that fails is settled for its owner: failing the command with a worker's error code
  always succeeds in a healthy environment, stores the status that belongs to the code on the
  command and on the message, and announces the message exactly once.
\<close>

theorem fail_send_succeeds:
  assumes "db_ok db" "healthy e" "owned_command u i db = Some k" "k_message_id k = Some j"
    and "\<forall>m \<in> set (db_messages db). announceable (m_sent_at m)"
  shows "\<exists>msg db'. fail_send e u i code db = (Inr msg, db') \<and> msg_id msg = j \<and>
    msg_status msg = failure_status code \<and>
    map_option k_status (row_by k_id i (db_commands db')) = Some (failure_status code) \<and>
    map_option m_status (row_by m_id j (db_messages db')) = Some (failure_status code) \<and>
    map o_payload (db_outbox db') = map o_payload (db_outbox db) @ [msg]"
proof -
  obtain m where m: "row_by m_id j (db_messages db) = Some m" "m_id m = j" "message_check m"
    "u \<in> user_ids db"
    by (rule owned_command_tables [OF assms(1,3,4)])
  let ?st = "failure_status code"
  let ?f = "with_status ?st"
  let ?db1 = "set_command_result e i ?st (JObj [(''error_code'', JStr code)]) db"
  let ?db2 = "?db1\<lparr>db_messages := update_where (\<lambda>r. m_id r = j) ?f (db_messages db)\<rparr>"
  let ?msg = "scan_message (?f m)"
  have keys: "m_id (?f r) = m_id r" "provider_key (?f r) = provider_key r"
    "m_provider_id (?f r) = m_provider_id r" for r
    by (simp_all add: with_status_def provider_key_def)
  have "unique_by provider_key (identified (update_where (\<lambda>r. m_id r = j) ?f (db_messages db)))"
    using unique_provider_keys [OF assms(1)] keys
    by (simp add: identified_update_where unique_by_update_where)
  moreover have "message_check (?f m)"
    using m(3) by (simp add: message_check_def with_status_def failure_status_def)
  ultimately have upd: "update_message j ?f ?db1 = Some (Some (?f m), ?db2)"
    using m(1) by (simp add: update_message_def Let_def)
  obtain db' where out: "insert_outbox_row u ''message.updated'' ?msg ?db2 = Some db'"
    using m(4) by (simp add: insert_outbox_row_def)
  then have db': "db_messages db' = db_messages ?db2" "db_commands db' = db_commands ?db1"
    "map o_payload (db_outbox db') = map o_payload (db_outbox db) @ [?msg]"
    by (auto simp: insert_outbox_row_def split: if_splits)
  have "announceable (m_sent_at m)" using assms(5) row_by_mem [OF m(1)] by blast
  then have "marshal_message ?msg = Inr ?msg"
    by (intro marshal_message_ok) (simp add: scan_message_def with_status_def)
  then have "fail_send e u i code db = (Inr ?msg, db')"
    using assms upd out
    by (simp add: fail_send_def in_tx_def fail_tx_def returning_def insert_outbox_def)
  moreover obtain k' where "row_by k_id i (db_commands db) = Some k'" "k_id k' = i"
    using assms(3) by (auto simp: owned_command_eq_Some dest: row_by_key)
  ultimately show ?thesis
    using db' m(1,2) keys
    by (auto simp: row_by_update_where scan_message_def with_status_def)
qed

theorem fail_send_succeeds_witness:
  "\<exists>p db1 msg db2.
     prepare_send (sample_env minute) ''alice'' ''con-1'' ''hello'' ''key'' sample_chat =
       (Inr p, db1) \<and>
     fail_send (sample_env (2 * minute)) ''alice'' (prep_command_id p) ''worker_timeout'' db1 =
       (Inr msg, db2) \<and> msg_status msg = ''unknown''"
proof -
  obtain p db1 where p: "prepare_send (sample_env minute) ''alice'' ''con-1'' ''hello'' ''key''
      sample_chat = (Inr p, db1)" "\<forall>m \<in> set (db_messages db1). announceable (m_sent_at m)"
    using sample_prepare by blast
  note ok = pg_ok_schema [OF sample_chat_ok]
  have ok1: "db_ok db1"
    using message_step_ok [OF prepare_send_step ok] p(1) by (metis snd_conv)
  obtain k where k: "owned_command ''alice'' (prep_command_id p) db1 = Some k"
    "k_message_id k = Some (msg_id (prep_message p))"
    by (rule prepared_owned [OF ok p(1)])
  show ?thesis
    using fail_send_succeeds [OF ok1 _ k, of "sample_env (2 * minute)" "''worker_timeout''"] p
    by (fastforce simp: failure_status_def)
qed

subsection \<open>Ownership and outcomes\<close>

text \<open>
  Another user's conversation or command does not exist: reading its messages, resolving its
  target, sending into it, and completing or failing its commands all answer \<open>ErrNotFound\<close> and write
  nothing.
\<close>

theorem other_users_hidden:
  assumes "healthy e" "\<And>c a. owned_conversation u conversation db \<noteq> Some (c, a)"
    and "owned_command u i db = None"
  shows "list_messages collate e u conversation db = Inl ErrNotFound \<and>
    get_conversation_target e u conversation db = Inl ErrNotFound \<and>
    prepare_send e u conversation body key db = (Inl ErrNotFound, db) \<and>
    complete_send e u i provider sent_at db = (Inl ErrNotFound, db) \<and>
    fail_send e u i code db = (Inl ErrNotFound, db)"
proof -
  have "owned_conversation u conversation db = None"
    using assms(2) by (cases "owned_conversation u conversation db") auto
  with assms(1,3) show ?thesis
    by (simp add: list_messages_def get_conversation_target_def prepare_send_def in_tx_def
        prepare_tx_def complete_send_def complete_tx_def fail_send_def fail_tx_def Let_def
        fail_if_def)
qed

theorem other_users_hidden_witness:
  "prepare_send (sample_env 0) ''bob'' ''con-1'' ''hello'' ''key'' sample_chat =
     (Inl ErrNotFound, sample_chat) \<and>
   list_messages length (sample_env 0) ''bob'' ''con-1'' sample_chat = Inl ErrNotFound"
proof -
  have "owned_conversation ''bob'' ''con-1'' sample_chat \<noteq> Some (c, a)" for c a
    by (simp add: owned_conversation_def sample_db_simps)
  moreover have "owned_command ''bob'' ''cmd-1'' sample_chat = None"
    by (simp add: owned_command_def)
  ultimately show ?thesis
    using other_users_hidden [of "sample_env 0" "''bob''" "''con-1''" sample_chat "''cmd-1''" length]
    by simp
qed

text \<open>
  The outcome a failed send is stored with: \<open>unknown\<close> exactly for a timeout and for the Signal
  worker's code for an unknown outcome. The Telegram worker's code for the same situation,
  \<^verbatim>\<open>telegram_send_unknown\<close>, and a connection lost after the command was sent, \<^verbatim>\<open>worker_offline\<close>, are
  stored as \<open>failed\<close> although the message may have been delivered.
\<close>

theorem failure_status_codes:
  "(failure_status code = ''unknown'' \<longleftrightarrow> code = ''worker_timeout'' \<or> code = ''signal_send_unknown'') \<and>
   failure_status ''telegram_send_unknown'' = ''failed'' \<and>
   failure_status ''worker_offline'' = ''failed''"
  by (simp add: failure_status_def)

end
