(* ===== verification/Retention.thy ===== *)
theory Retention
  imports SendLifecycle "HOL-Library.List_Lexorder" "HOL-Library.Char_ord"
begin

section \<open>Listing, retention and the outbox\<close>

text \<open>
  Facts about the reading and cleaning operations of \<open>PgMessages\<close>: which messages a page shows,
  which messages and events a prune leaves, in which order the outbox is drained.
\<close>

subsection \<open>Ranking\<close>

text \<open>At least \<open>min k (card S)\<close> elements have fewer than \<open>k\<close> greater ones.\<close>

lemma newest_count:
  fixes f :: "'a \<Rightarrow> 'b::linorder"
  assumes "finite S" "inj_on f S"
  shows "min k (card S) \<le> card {x \<in> S. card {y \<in> S. f y > f x} < k}"
  using assms
proof (induction "card S" arbitrary: S k)
  case 0
  then show ?case by simp
next
  case (Suc n)
  show ?case
  proof (cases k)
    case (Suc k')
    from Suc.hyps(2) have "S \<noteq> {}" by auto
    with Suc.prems(1) have "Max (f ` S) \<in> f ` S" by simp
    then obtain x where x: "x \<in> S" "f x = Max (f ` S)" by auto
    let ?T = "S - {x}"
    have less: "f y < f x" if "y \<in> ?T" for y
    proof -
      have "f y \<le> f x" using that x Suc.prems(1) by simp
      moreover have "f y \<noteq> f x" using that x(1) Suc.prems(2) by (auto dest: inj_onD)
      ultimately show ?thesis by simp
    qed
    have T: "card ?T = n" "finite ?T" "inj_on f ?T"
      using Suc.hyps(2) x(1) Suc.prems by (auto intro: inj_on_subset)
    let ?A = "{y \<in> ?T. card {z \<in> ?T. f z > f y} < k'}"
    have above: "{z \<in> S. f z > f y} = insert x {z \<in> ?T. f z > f y}" if "y \<in> ?T" for y
      using less [OF that] x(1) by auto
    have rank: "card {z \<in> S. f z > f y} = Suc (card {z \<in> ?T. f z > f y})" if "y \<in> ?T" for y
      unfolding above [OF that] using T(2) by (subst card_insert_disjoint) auto
    have top: "{z \<in> S. f z > f x} = {}"
      using less x(1) by (auto dest: less_not_sym)
    have zero: "card {z \<in> S. f z > f x} = 0" unfolding top by simp
    have iff: "card {z \<in> S. f z > f y} < k \<longleftrightarrow> y = x \<or> card {z \<in> ?T. f z > f y} < k'"
      if "y \<in> S" for y
      using rank [of y] zero Suc that by (cases "y = x") simp_all
    have "{y \<in> S. card {z \<in> S. f z > f y} < k} = {y \<in> S. y = x \<or> card {z \<in> ?T. f z > f y} < k'}"
      using iff by blast
    also have "\<dots> = insert x ?A" using x(1) by blast
    finally have "{y \<in> S. card {z \<in> S. f z > f y} < k} = insert x ?A" .
    moreover have "min k' n \<le> card ?A"
      using Suc.hyps(1) [OF T(1) [symmetric] T(2,3), of k'] T(1) by simp
    moreover have "card (insert x ?A) = Suc (card ?A)"
      using T(2) by (subst card_insert_disjoint) auto
    ultimately show ?thesis using Suc Suc.hyps(2) by simp
  qed simp
qed

subsection \<open>Retention\<close>

definition settled :: "string \<Rightarrow> message_row \<Rightarrow> bool" where
  "settled conversation m \<longleftrightarrow> m_conversation_id m = conversation \<and> m_status m \<noteq> ''pending''"

lemma recency_key_inj:
  assumes "db_ok db" "inj collate"
  shows "inj_on (recency_key collate) (set (db_messages db))"
proof (rule inj_onI)
  fix x y
  assume "x \<in> set (db_messages db)" "y \<in> set (db_messages db)"
    "recency_key collate x = recency_key collate y"
  then show "x = y"
    using assms(2) unique_by_memD [OF unique_messages [OF assms(1)]]
    by (auto simp: recency_key_def dest: injD)
qed

lemma distinct_messages: "db_ok db \<Longrightarrow> distinct (db_messages db)"
  using unique_messages by (auto simp: unique_by_def distinct_map)

lemma settled_count:
  assumes "db_ok db"
  shows "length (filter P (db_messages db)) = card {m \<in> set (db_messages db). P m}"
  using distinct_messages [OF assms] by (simp add: distinct_length_filter Int_def conj_commute)

lemma recency_rank_card:
  assumes "db_ok db" "settled c m"
  shows "recency_rank collate (db_messages db) m =
    Suc (card {n \<in> {n \<in> set (db_messages db). settled c n}.
      recency_key collate n > recency_key collate m})"
proof -
  have "{n \<in> set (db_messages db). m_status n \<noteq> ''pending'' \<and>
      m_conversation_id n = m_conversation_id m \<and> recency_key collate m < recency_key collate n} =
    {n \<in> {n \<in> set (db_messages db). settled c n}. recency_key collate n > recency_key collate m}"
    using assms(2) by (auto simp: settled_def)
  then show ?thesis
    unfolding recency_rank_def settled_count [OF assms(1)] by simp
qed

lemma pruned_messages:
  assumes "prune collate e retention keep db = (Inr n, db')"
  shows "retention > 0 \<and> keep \<ge> 0 \<and>
    db_messages db' = filter (\<lambda>m. \<not> pruned collate e retention keep db m) (db_messages db) \<and>
    n = length (filter (pruned collate e retention keep db) (db_messages db)) \<and>
    db_outbox db' = filter (recent_event e) (db_outbox db)"
  using assms
  by (cases rule: prune_cases [where collate = collate and e = e and retention = retention and
      keep = keep and db = db])
    (auto simp: delete_messages_def Let_def)

text \<open>What a prune leaves, also when it fails between its two statements.\<close>

lemma pruned_messages_any:
  assumes "prune collate e retention keep db = (r, db')"
  shows "db_messages db' = db_messages db \<or>
    0 < retention \<and> 0 \<le> keep \<and>
    db_messages db' = filter (\<lambda>m. \<not> pruned collate e retention keep db m) (db_messages db)"
  using assms
  by (cases rule: prune_cases [where collate = collate and e = e and retention = retention and
      keep = keep and db = db])
    (auto simp: delete_messages_def Let_def)

text \<open>In every conversation the newest \<open>keep\<close> settled messages are not pruned.\<close>

lemma newest_not_pruned:
  assumes "db_ok db" "inj collate" "0 \<le> keep"
  shows "min (nat keep) (length (filter (settled c) (db_messages db))) \<le>
    length (filter (settled c) (filter (\<lambda>m. \<not> pruned collate e retention keep db m) (db_messages db)))"
proof -
  let ?gone = "pruned collate e retention keep db"
  let ?S = "{m \<in> set (db_messages db). settled c m}"
  let ?key = "recency_key collate"
  have keep: "int (nat keep) = keep" using assms(3) by simp
  have "inj_on ?key ?S"
    using recency_key_inj [OF assms(1,2)] by (rule inj_on_subset) auto
  then have "min (nat keep) (card ?S) \<le> card {m \<in> ?S. card {n \<in> ?S. ?key n > ?key m} < nat keep}"
    by (intro newest_count) simp_all
  also have "\<dots> \<le> card {m \<in> set (db_messages db). settled c m \<and> \<not> ?gone m}"
  proof (rule card_mono)
    show "{m \<in> ?S. card {n \<in> ?S. ?key n > ?key m} < nat keep} \<subseteq>
        {m \<in> set (db_messages db). settled c m \<and> \<not> ?gone m}"
    proof (rule subsetI)
      fix m
      assume "m \<in> {m \<in> ?S. card {n \<in> ?S. ?key n > ?key m} < nat keep}"
      then have m: "m \<in> set (db_messages db)" "settled c m"
        and few: "card {n \<in> ?S. ?key n > ?key m} < nat keep" by blast+
      have "recency_rank collate (db_messages db) m = Suc (card {n \<in> ?S. ?key n > ?key m})"
        by (rule recency_rank_card [OF assms(1) m(2)])
      with few keep have "int (recency_rank collate (db_messages db) m) \<le> keep" by linarith
      with m show "m \<in> {m \<in> set (db_messages db). settled c m \<and> \<not> ?gone m}"
        by (simp add: pruned_def prunable_def)
    qed
  qed simp
  finally show ?thesis by (simp add: settled_count [OF assms(1)] conj_commute)
qed

text \<open>
  Retention never takes what it must keep: pending messages, messages younger than the
  retention period, and in every conversation at least the newest \<open>keep\<close> settled messages (all of
  them if there are fewer) survive; the answer is the number of messages that are gone; an outbox
  event that has not been delivered survives as well.
\<close>

theorem prune_keeps:
  assumes "db_ok db" "inj collate" "prune collate e retention keep db = (Inr n, db')"
  shows "(\<forall>m \<in> set (db_messages db). m_status m = ''pending'' \<or>
        m_sent_at m \<ge> pg_time (clock e - retention) \<longrightarrow> m \<in> set (db_messages db')) \<and>
    min (nat keep) (length (filter (settled c) (db_messages db))) \<le>
      length (filter (settled c) (db_messages db')) \<and>
    length (db_messages db) = length (db_messages db') + n \<and>
    (\<forall>r \<in> set (db_outbox db). o_delivered_at r = None \<longrightarrow> r \<in> set (db_outbox db'))"
proof -
  note facts = pruned_messages [OF assms(3)]
  have "length (db_messages db) = length (db_messages db') + n"
    using facts sum_length_filter_compl [of "pruned collate e retention keep db" "db_messages db"] by simp
  with facts newest_not_pruned [OF assms(1,2), of keep c e retention] show ?thesis
    by (auto simp: pruned_def prunable_def recent_event_def)
qed

text \<open>Alice's conversation with three old messages and a pending one.\<close>

definition sample_row :: "string \<Rightarrow> time \<Rightarrow> string \<Rightarrow> message_row" where
  "sample_row i t st = \<lparr>m_id = i, m_conversation_id = ''con-1'', m_provider_id = None,
     m_author_id = ''self'', m_author_name = ''You'', m_body = i, m_sent_at = t,
     m_direction = ''outgoing'', m_status = st\<rparr>"

definition sample_history :: "string db" where
  "sample_history = sample_chat\<lparr>db_messages :=
     [sample_row ''m1'' minute ''sent'', sample_row ''m2'' (2 * minute) ''failed'',
      sample_row ''m3'' (3 * minute) ''sent'', sample_row ''m4'' 0 ''pending'']\<rparr>"

lemma sample_history_ok: "db_ok sample_history"
proof -
  have "messages_ok (conversation_ids sample_chat) (db_messages sample_history)"
    by (simp add: messages_ok_def sample_history_def sample_row_def unique_by_def identified_def
        message_check_def)
  moreover have "commands_ok (account_ids sample_chat) (message_ids sample_history) []"
    by (simp add: commands_ok_def unique_by_def)
  ultimately show ?thesis
    using db_okD [OF pg_ok_schema [OF sample_chat_ok]] by (simp add: db_ok_def sample_history_def)
qed

theorem prune_keeps_witness:
  "\<exists>n db'. prune (id :: string \<Rightarrow> string) (sample_env (60 * minute)) minute 2 sample_history =
       (Inr n, db') \<and>
     2 \<le> length (filter (settled ''con-1'') (db_messages db')) \<and>
     sample_row ''m4'' 0 ''pending'' \<in> set (db_messages db')"
proof -
  obtain n db' where p: "prune (id :: string \<Rightarrow> string) (sample_env (60 * minute)) minute 2
      sample_history = (Inr n, db')"
    by (simp add: prune_def Let_def minute_def second_def)
  have "length (filter (settled ''con-1'') (db_messages sample_history)) = 3"
    by (simp add: sample_history_def settled_def sample_row_def)
  moreover have "sample_row ''m4'' 0 ''pending'' \<in> set (db_messages sample_history)"
    by (simp add: sample_history_def)
  moreover have "m_status (sample_row ''m4'' 0 ''pending'') = ''pending''"
    by (simp add: sample_row_def)
  ultimately show ?thesis
    using prune_keeps [OF sample_history_ok inj_on_id p, of "''con-1''"] p by auto
qed

subsection \<open>Pages of messages\<close>

text \<open>
  A page of messages shows the newest ones: it has at most a hundred entries, all from the
  conversation asked for, newest first; and when a message of the conversation is not on it, the
  page is full and everything on it is at least as recent.
\<close>

theorem list_messages_newest:
  assumes "list_messages collate e u conversation db = Inr page"
  shows "length page \<le> 100 \<and> sorted_wrt (\<lambda>x y. msg_sent_at x \<ge> msg_sent_at y) page \<and>
    (\<forall>x \<in> set page. msg_conversation_id x = conversation) \<and>
    (\<forall>m \<in> set (db_messages db). m_conversation_id m = conversation \<and> scan_message m \<notin> set page \<longrightarrow>
       length page = 100 \<and> (\<forall>x \<in> set page. msg_sent_at x \<ge> m_sent_at m))"
proof -
  let ?key = "recency_key collate"
  let ?all = "rev (sort_key ?key (filter (\<lambda>m. m_conversation_id m = conversation) (db_messages db)))"
  have own: "owned_conversation u conversation db \<noteq> None"
    and "page = map scan_message (take 100 (rev (sort_key ?key
       (filter (\<lambda>m. m_conversation_id m = conversation \<and>
          owned_conversation u (m_conversation_id m) db \<noteq> None) (db_messages db)))))"
    using assms unfolding list_messages_def by (auto simp: attempt_eq_Inr stmt_eq_Inr)
  moreover have "filter (\<lambda>m. m_conversation_id m = conversation \<and>
      owned_conversation u (m_conversation_id m) db \<noteq> None) (db_messages db) =
      filter (\<lambda>m. m_conversation_id m = conversation) (db_messages db)"
    using own by (intro filter_cong) auto
  ultimately have page: "page = map scan_message (take 100 ?all)" by simp
  have "sorted_wrt (\<lambda>x y. ?key x \<ge> ?key y) ?all"
    using sorted_sort_key [of ?key "filter (\<lambda>m. m_conversation_id m = conversation) (db_messages db)"]
    by (simp add: sorted_wrt_rev sorted_wrt_map)
  then have sorted: "sorted_wrt (\<lambda>x y. m_sent_at x \<ge> m_sent_at y) ?all"
    by (rule sorted_wrt_mono_rel [rotated]) (auto simp: recency_key_def less_eq_prod_def)
  have time: "msg_sent_at (scan_message m) = m_sent_at m"
    "msg_conversation_id (scan_message m) = m_conversation_id m" for m
    by (simp_all add: scan_message_def)
  have "sorted_wrt (\<lambda>x y. msg_sent_at x \<ge> msg_sent_at y) page"
    using sorted_wrt_take [OF sorted, of 100] by (simp add: page sorted_wrt_map time)
  moreover have "length page = 100 \<and> (\<forall>x \<in> set page. msg_sent_at x \<ge> m_sent_at m)"
    if "m \<in> set (db_messages db)" "m_conversation_id m = conversation" "scan_message m \<notin> set page" for m
  proof -
    have m: "m \<in> set ?all" using that by simp
    have late: "m \<in> set (drop 100 ?all)"
    proof (rule ccontr)
      assume "m \<notin> set (drop 100 ?all)"
      with m have "m \<in> set (take 100 ?all)"
        by (metis Un_iff append_take_drop_id set_append)
      with that(3) show False by (simp add: page)
    qed
    then have "length ?all > 100" by (metis drop_all empty_iff list.set(1) not_le)
    moreover have "m_sent_at x \<ge> m_sent_at m" if "x \<in> set (take 100 ?all)" for x
      using sorted late that by (metis append_take_drop_id sorted_wrt_append)
    ultimately show ?thesis by (auto simp: page time)
  qed
  ultimately show ?thesis by (auto simp: page time dest!: in_set_takeD)
qed

theorem list_messages_newest_witness:
  "\<exists>page. list_messages (id :: string \<Rightarrow> string) (sample_env 0) ''alice'' ''con-1'' sample_history =
       Inr page \<and> sorted_wrt (\<lambda>x y. msg_sent_at x \<ge> msg_sent_at y) page"
proof -
  obtain page where page: "list_messages (id :: string \<Rightarrow> string) (sample_env 0) ''alice'' ''con-1''
      sample_history = Inr page"
    by (simp add: list_messages_def owned_conversation_def sample_history_def sample_db_simps
        fail_if_def)
  with list_messages_newest [OF page] show ?thesis by blast
qed

subsection \<open>The outbox\<close>

text \<open>
  The outbox is drained in the order the events were written: the pending events are exactly
  the undelivered rows with the smallest ids, in ascending order and at most the limit; when an
  undelivered row is left out, the batch is full and every event in it is older.
\<close>

theorem pending_outbox_oldest:
  assumes "db_ok db" "pending_outbox e limit db = Inr events" "0 < limit" "limit \<le> 1000"
  shows "events = take (nat limit) (filter (\<lambda>r. o_delivered_at r = None) (db_outbox db)) \<and>
    sorted_wrt (\<lambda>r s. o_id r < o_id s) events \<and>
    (\<forall>r \<in> set (db_outbox db). o_delivered_at r = None \<and> r \<notin> set events \<longrightarrow>
       int (length events) = limit \<and> (\<forall>s \<in> set events. o_id s < o_id r))"
proof -
  let ?open = "filter (\<lambda>r. o_delivered_at r = None) (db_outbox db)"
  have sorted: "sorted_wrt (\<lambda>r s. o_id r < o_id s) ?open"
    using db_ok_outbox [OF assms(1)]
    by (auto simp: outbox_ok_def sorted_wrt_map intro: sorted_wrt_filter)
  then have "sorted (map o_id ?open)"
    by (auto simp: sorted_map intro: sorted_wrt_mono_rel [rotated])
  then have "sort_key o_id ?open = ?open" by (rule sort_key_id_if_sorted)
  then have events: "events = take (nat limit) ?open"
    using assms by (auto simp: pending_outbox_def Let_def attempt_eq_Inr stmt_eq_Inr)
  have "int (length events) = limit \<and> (\<forall>s \<in> set events. o_id s < o_id r)"
    if "r \<in> set ?open" "r \<notin> set events" for r
  proof -
    have late: "r \<in> set (drop (nat limit) ?open)"
      using that events by (metis Un_iff append_take_drop_id set_append)
    then have "length ?open > nat limit" by (metis drop_all empty_iff list.set(1) not_le)
    then show ?thesis
      using late sorted assms(3) events
      by (auto simp: min_def) (metis append_take_drop_id sorted_wrt_append)
  qed
  with events sorted show ?thesis by (auto intro: sorted_wrt_take)
qed

definition sample_event :: "int \<Rightarrow> time option \<Rightarrow> outbox_row" where
  "sample_event i t = \<lparr>o_id = i, o_user_id = ''alice'', o_event_type = TypeMessageNew,
     o_payload = scan_message (sample_row ''m1'' minute ''sent''), o_delivered_at = t\<rparr>"

definition sample_outbox :: "string db" where
  "sample_outbox = sample_chat\<lparr>db_outbox :=
     [sample_event 1 (Some minute), sample_event 2 None, sample_event 3 None],
     db_next_outbox := 4\<rparr>"

lemma sample_outbox_ok: "db_ok sample_outbox"
  using db_okD [OF pg_ok_schema [OF sample_chat_ok]]
  by (simp add: db_ok_def sample_outbox_def) (simp add: outbox_ok_def sample_event_def)

theorem pending_outbox_oldest_witness:
  "pending_outbox (sample_env 0) 1 sample_outbox = Inr [sample_event 2 None] \<and>
   o_id (sample_event 2 None) < o_id (sample_event 3 None)"
proof -
  have events: "pending_outbox (sample_env 0) 1 sample_outbox = Inr [sample_event 2 None]"
    by (simp add: pending_outbox_def sample_outbox_def sample_event_def)
  have "sample_event 3 None \<in> set (db_outbox sample_outbox)"
    "o_delivered_at (sample_event 3 None) = None" "sample_event 3 None \<notin> set [sample_event 2 None]"
    by (simp_all add: sample_outbox_def sample_event_def)
  moreover have "0 < (1 :: int)" "(1 :: int) \<le> 1000" by simp_all
  note conjunct2 [OF conjunct2 [OF pending_outbox_oldest [OF sample_outbox_ok events this]]]
  ultimately show ?thesis using events by auto
qed

end
