(* ===== verification/DbRuns.thy ===== *)
theory DbRuns
  imports Retention
begin

section \<open>Runs of the stores\<close>

text \<open>
  The API's requests, the workers' events, the outbox loop and the retention loop all work on one
  database. A run is any sequence of calls of both stores, each in its own environment, so with its
  own clock, randomness and failures: every interleaving of the API's goroutines at the granularity
  of store calls is a run. Here are the facts that hold along runs.
\<close>

datatype db_call =
    Account store_call
  | MarkOffline
  | Ingest account wire_message bool
  | Sync string string "wire_conversation list"
  | Prepare string string string string
  | Dispatch string
  | Complete string string string time
  | Fail string string string
  | Delivered int
  | Prune time int

fun run_db ::
  "(string \<Rightarrow> 'h) \<Rightarrow> (string \<Rightarrow> 'k::linorder) \<Rightarrow> env \<Rightarrow> db_call \<Rightarrow> 'h db \<Rightarrow> 'h db" where
  "run_db sha collate e (Account c) db = run_call (postgres_store sha) e c db"
| "run_db sha collate e MarkOffline db = snd (mark_workers_offline e db)"
| "run_db sha collate e (Ingest a m live) db = snd (ingest_message e a m live db)"
| "run_db sha collate e (Sync u a cs) db = snd (upsert_conversations e u a cs db)"
| "run_db sha collate e (Prepare u c body key) db = snd (prepare_send e u c body key db)"
| "run_db sha collate e (Dispatch i) db = snd (mark_command_dispatched e i db)"
| "run_db sha collate e (Complete u i p t) db = snd (complete_send e u i p t db)"
| "run_db sha collate e (Fail u i code) db = snd (fail_send e u i code db)"
| "run_db sha collate e (Delivered i) db = snd (mark_outbox_delivered e i db)"
| "run_db sha collate e (Prune r k) db = snd (prune collate e r k db)"

fun run_dbs ::
  "(string \<Rightarrow> 'h) \<Rightarrow> (string \<Rightarrow> 'k::linorder) \<Rightarrow> (env \<times> db_call) list \<Rightarrow> 'h db \<Rightarrow> 'h db" where
  "run_dbs sha collate [] db = db"
| "run_dbs sha collate ((e, c) # cs) db = run_dbs sha collate cs (run_db sha collate e c db)"

lemma run_dbs_append:
  "run_dbs sha collate (cs @ ds) db = run_dbs sha collate ds (run_dbs sha collate cs db)"
  by (induction cs arbitrary: db) auto

text \<open>A property that every call of a run keeps holds at its end.\<close>

lemma run_dbs_invariant:
  assumes "P db" "\<And>e c db. (e, c) \<in> set cs \<Longrightarrow> P db \<Longrightarrow> P (run_db sha collate e c db)"
  shows "P (run_dbs sha collate cs db)"
  using assms
proof (induction cs arbitrary: db)
  case (Cons ec cs)
  obtain e c where "ec = (e, c)" by (cases ec)
  with Cons show ?case by simp
qed simp

lemma message_call_step:
  "(\<And>s. c \<noteq> Account s) \<Longrightarrow> c \<noteq> MarkOffline \<Longrightarrow> message_step db (run_db sha collate e c db)"
  by (cases c)
    (auto simp: ingest_step upsert_conversations_step prepare_send_step dispatch_step
      complete_send_step fail_send_step delivered_step prune_step)

text \<open>
  C6. The database stays consistent: along every run of the account store, the message store, the
  outbox and the retention loop - any interleaving, any failures - every row keeps satisfying the
  schema's constraints, and the enrollment invariant holds: generations are 0 or 1, an unredeemed
  token belongs to an account of generation 0, a worker credential to one of generation 1.
\<close>

theorem run_keeps_invariant:
  assumes "pg_ok db"
  shows "pg_ok (run_dbs sha collate cs db)"
  using assms
proof (rule run_dbs_invariant)
  fix e c and db :: "'a db"
  assume ok: "pg_ok db"
  show "pg_ok (run_db sha collate e c db)"
  proof (cases "\<exists>s. c = Account s \<or> c = MarkOffline")
    case True
    then show ?thesis using ok by (auto simp: pg_ok_step pg_ok_mark_workers_offline)
  next
    case False
    then show ?thesis
      using message_step_pg_ok [OF message_call_step ok, of c sha collate e] by auto
  qed
qed

theorem run_keeps_invariant_witness:
  "pg_ok (run_dbs id (id :: string \<Rightarrow> string)
     [(sample_env minute, Prepare ''alice'' ''con-1'' ''hello'' ''key''),
      (sample_env minute, Account (Delete ''alice'' ''acc-1''))] sample_chat)"
  by (rule run_keeps_invariant [OF sample_chat_ok])

subsection \<open>A command is dispatched at most once\<close>

definition command_status :: "string \<Rightarrow> 'h db \<Rightarrow> string option" where
  "command_status i db = map_option k_status (row_by k_id i (db_commands db))"

definition past_pending :: "string \<Rightarrow> 'h db \<Rightarrow> bool" where
  "past_pending i db \<longleftrightarrow> command_status i db \<noteq> None \<and> command_status i db \<noteq> Some ''pending''"

text \<open>
  What a call may do to the commands: it keeps every command, its account and its idempotency key,
  and makes none pending again.
\<close>

definition commands_le :: "command_row list \<Rightarrow> command_row list \<Rightarrow> bool" where
  "commands_le ks ks' \<longleftrightarrow> (\<forall>i k. row_by k_id i ks = Some k \<longrightarrow>
     (\<exists>k'. row_by k_id i ks' = Some k' \<and> command_key k' = command_key k \<and>
        (k_status k' = ''pending'' \<longrightarrow> k_status k = ''pending'')))"

lemma commands_leD:
  assumes "commands_le ks ks'" "row_by k_id i ks = Some k"
  obtains k' where "row_by k_id i ks' = Some k'" "command_key k' = command_key k"
    "k_status k' = ''pending'' \<Longrightarrow> k_status k = ''pending''"
  using assms unfolding commands_le_def by blast

lemma commands_le_refl [simp, intro]: "commands_le ks ks"
  by (simp add: commands_le_def)

lemma commands_le_trans:
  assumes "commands_le ks ls" "commands_le ls ms"
  shows "commands_le ks ms"
  unfolding commands_le_def
proof (intro allI impI)
  fix i k
  assume "row_by k_id i ks = Some k"
  with assms(1) obtain l where l: "row_by k_id i ls = Some l" "command_key l = command_key k"
    "k_status l = ''pending'' \<Longrightarrow> k_status k = ''pending''" unfolding commands_le_def by blast
  from assms(2) l(1) obtain m where "row_by k_id i ms = Some m" "command_key m = command_key l"
    "k_status m = ''pending'' \<Longrightarrow> k_status l = ''pending''" unfolding commands_le_def by blast
  with l show "\<exists>k'. row_by k_id i ms = Some k' \<and> command_key k' = command_key k \<and>
    (k_status k' = ''pending'' \<longrightarrow> k_status k = ''pending'')" by auto
qed

lemma commands_le_append [simp, intro]: "commands_le ks (ks @ ls)"
  by (simp add: commands_le_def row_by_append)

lemma commands_le_update:
  assumes "\<And>k. k_id (f k) = k_id k" "\<And>k. command_key (f k) = command_key k"
    and "\<And>k. P k \<Longrightarrow> k_status (f k) = k_status k \<or> k_status (f k) \<noteq> ''pending''"
  shows "commands_le ks (update_where P f ks)"
proof -
  have "k_status (f k) = ''pending'' \<Longrightarrow> k_status k = ''pending''" if "P k" for k
    using assms(3) [OF that] by auto
  with assms(1,2) show ?thesis by (auto simp: commands_le_def row_by_update_where)
qed

lemma past_pending_le:
  assumes "commands_le (db_commands db) (db_commands db')" "past_pending i db"
  shows "past_pending i db'"
proof -
  from assms(2) obtain k where k: "row_by k_id i (db_commands db) = Some k" "k_status k \<noteq> ''pending''"
    by (auto simp: past_pending_def command_status_def)
  from assms(1) k(1) obtain k' where "row_by k_id i (db_commands db') = Some k'"
    "k_status k' = ''pending'' \<Longrightarrow> k_status k = ''pending''" unfolding commands_le_def by blast
  with k(2) show ?thesis by (auto simp: past_pending_def command_status_def)
qed

lemma kept_messages_commands:
  "commands_le (db_commands db) (db_commands (delete_messages P db))"
  unfolding delete_messages_def Let_def
  by (simp del: set_filter) (rule commands_le_update, simp_all add: command_key_def)

lemma ingest_commands:
  "db_commands (snd (ingest_message e a m live db)) = db_commands db"
proof -
  have "db_commands db' = db_commands db" if "ingest_tx e a m live db = Inr (v, db')" for v db'
  proof -
    obtain r new where "v = (r, new)" by (cases v)
    with that have "ingest_tx e a m live db = Inr ((r, new), db')" by simp
    then show ?thesis
    proof (cases rule: ingest_tx_cases)
      case (Duplicate i title kind conversation db1 x)
      then show ?thesis using upsert_tables [OF Duplicate(1)] by simp
    next
      case (New i j title kind conversation db1 db2)
      have "db_commands db' = db_commands db2"
        using New(7)
        by (cases rule: ingest_live_cases)
          (auto simp: insert_outbox_row_def increment_unread_def split: if_splits)
      with New(3) upsert_tables [OF New(1)] show ?thesis
        by (auto simp: insert_message_def split: if_splits)
    qed
  qed
  then show ?thesis
    by (auto simp: ingest_message_def intro: in_tx_snd [where P = "\<lambda>db'. db_commands db' = db_commands db"])
qed

lemma upsert_loop_commands:
  "upsert_loop e a cs n db = Inr (k, db') \<Longrightarrow>
   db_commands db' = db_commands db \<and> db_messages db' = db_messages db"
proof (induction e a cs n db rule: upsert_loop.induct)
  case (2 e a c cs n db)
  then show ?case
    by (auto simp: attempt_eq_Inr stmt_eq_Inr split: if_splits dest: upsert_tables(1,3))
qed simp

lemma sync_commands:
  "db_commands (snd (upsert_conversations e u a cs db)) = db_commands db"
  "db_messages (snd (upsert_conversations e u a cs db)) = db_messages db"
proof -
  have "db_commands (snd (upsert_conversations e u a cs db)) = db_commands db \<and>
      db_messages (snd (upsert_conversations e u a cs db)) = db_messages db"
    unfolding upsert_conversations_def
    by (rule in_tx_snd) (auto simp: attempt_eq_Inr stmt_eq_Inr dest: upsert_loop_commands)
  then show "db_commands (snd (upsert_conversations e u a cs db)) = db_commands db"
    "db_messages (snd (upsert_conversations e u a cs db)) = db_messages db" by simp_all
qed

text \<open>The account store does not touch conversations, messages, commands or the outbox.\<close>

definition same_traffic :: "'h db \<Rightarrow> 'h db \<Rightarrow> bool" where
  "same_traffic db db' \<longleftrightarrow> db_conversations db' = db_conversations db \<and>
     db_messages db' = db_messages db \<and> db_commands db' = db_commands db \<and>
     db_outbox db' = db_outbox db \<and> db_next_outbox db' = db_next_outbox db"

lemma same_trafficD:
  assumes "same_traffic db db'"
  shows "db_conversations db' = db_conversations db" "db_messages db' = db_messages db"
    "db_commands db' = db_commands db" "db_outbox db' = db_outbox db"
  using assms by (simp_all add: same_traffic_def)

lemma insert_credential_traffic:
  "insert_worker_credential r db = Some db' \<Longrightarrow> same_traffic db db'"
  by (auto simp: insert_worker_credential_def same_traffic_def split: if_splits)

lemma redeem_traffic:
  assumes "redeem_enrollment sha e h p db = Inr (w, db')"
  shows "same_traffic db db'"
  using assms
proof (rule redeem_eq_Inr)
  fix q r i
  assume "insert_worker_credential \<lparr>w_id = i, w_account_id = a_id r,
        w_token_hash = sha (wa_credential w), w_revoked_at = None\<rparr>
       (db\<lparr>db_pairing_tokens := update_where (\<lambda>p. p_id p = p_id q) (redeemed e)
          (db_pairing_tokens db)\<rparr>) = Some (db'\<lparr>db_accounts := db_accounts db\<rparr>)"
  from insert_credential_traffic [OF this] show ?thesis by (simp add: same_traffic_def)
qed

lemma account_call_other:
  assumes "\<And>u a. c \<noteq> Delete u a"
  shows "same_traffic db (run_call (postgres_store sha) e c db)"
proof (cases "write_target c")
  case (Some ag)
  obtain a g where "write_target c = Some (a, g)" using Some by (cases ag) auto
  then show ?thesis
  proof (cases rule: worker_call [where sha = sha and e = e and db = db])
    case (Update msg f)
    show ?thesis
      unfolding Update(2)
      by (cases e msg a g f db rule: worker_update_cases) (simp_all add: same_traffic_def)
  qed (simp add: same_traffic_def)
next
  case None
  then show ?thesis
  proof (cases c)
    case (Create u p n)
    then show ?thesis
      by (cases sha e u p n db rule: pg_create_cases)
        (auto simp: postgres_store_def insert_account_def insert_pairing_token_def same_traffic_def
          split: if_splits)
  next
    case (Auth t p)
    then show ?thesis
      by (cases sha e t p db rule: pg_auth_cases)
        (simp_all add: postgres_store_def redeem_traffic, simp_all add: same_traffic_def)
  qed (use assms in auto)
qed

lemma prepare_commands:
  "commands_le (db_commands db) (db_commands (snd (prepare_send e u c body key db)))"
  unfolding prepare_send_snd
proof (rule in_tx_snd)
  fix v db'
  assume "prepare_tx e u c body key db = Inr (v, db')"
  then show "commands_le (db_commands db) (db_commands db')"
  proof (cases rule: prepare_tx_cases)
    case (Prepared cr a j m db1 db2)
    have "db_commands db' =
        db_commands db @ [link_message m (send_command_row e j (c_account_id cr) (c_provider_id cr) body key)]"
      by (rule prepared_tables(1) [OF Prepared(4,5,6)])
    then show ?thesis by simp
  qed simp
qed simp

lemma set_result_commands:
  "status \<noteq> ''pending'' \<Longrightarrow>
   commands_le (db_commands db) (db_commands (set_command_result e j status result db))"
  by (simp add: set_command_result_def) (rule commands_le_update, simp_all add: command_key_def)

lemma complete_commands:
  "commands_le (db_commands db) (db_commands (snd (complete_send e u j provider t db)))"
  unfolding complete_send_def
proof (rule in_tx_snd)
  fix v db'
  assume "complete_tx e u j provider t db = Inr (v, db')"
  then show "commands_le (db_commands db) (db_commands db')"
  proof (cases rule: complete_tx_cases)
    case (1 k m r db1 db2)
    let ?db3 = "set_command_result e j ''completed'' (JObj [(''provider_message_id'', JStr provider)]) db2"
    have "commands_le (db_commands db) (db_commands db1)"
      by (simp add: 1(4) reconcile_def kept_messages_commands)
    moreover have "db_commands db2 = db_commands db1"
      using 1(5) by (cases rule: update_message_cases) simp_all
    moreover have "commands_le (db_commands db2) (db_commands ?db3)"
      by (rule set_result_commands) simp
    moreover have "db_commands db' = db_commands ?db3"
      using 1(8) by (auto simp: insert_outbox_row_def split: if_splits)
    ultimately show ?thesis by (auto intro: commands_le_trans)
  qed
qed simp

lemma fail_commands:
  "commands_le (db_commands db) (db_commands (snd (fail_send e u j code db)))"
  unfolding fail_send_def
proof (rule in_tx_snd)
  fix v db'
  assume "fail_tx e u j code db = Inr (v, db')"
  then show "commands_le (db_commands db) (db_commands db')"
  proof (cases rule: fail_tx_cases)
    case (1 k m r db2)
    let ?db1 = "set_command_result e j (failure_status code) (JObj [(''error_code'', JStr code)]) db"
    have "db_commands db' = db_commands ?db1"
      using 1(3)
      by (cases rule: update_message_cases) (use 1(6) in \<open>auto simp: insert_outbox_row_def split: if_splits\<close>)
    moreover have "commands_le (db_commands db) (db_commands ?db1)"
      by (rule set_result_commands) (simp add: failure_status_def)
    ultimately show ?thesis by simp
  qed
qed simp

lemma prune_commands:
  "commands_le (db_commands db) (db_commands (snd (prune collate e r k db)))"
proof (cases rule: prune_cases [where collate = collate and e = e and retention = r and
      keep = k and db = db])
  case (Done db1)
  then have "commands_le (db_commands db) (db_commands db1)" by (simp add: kept_messages_commands)
  with Done show ?thesis by (auto intro: commands_le_trans)
qed (simp_all add: kept_messages_commands)

lemma run_commands_le:
  assumes "\<And>u a. c \<noteq> Account (Delete u a)"
  shows "commands_le (db_commands db) (db_commands (run_db sha collate e c db))"
proof (cases c)
  case (Account s)
  with assms show ?thesis by (simp add: same_trafficD(3) [OF account_call_other])
next
  case MarkOffline
  then show ?thesis
    by (cases "db_fault e 0") (simp_all add: mark_workers_offline_def in_tx_def stmt_def)
next
  case (Dispatch j)
  have "commands_le (db_commands db)
      (update_where (dispatchable e j) (dispatched e) (db_commands db))"
    by (rule commands_le_update) (simp_all add: command_key_def)
  with Dispatch show ?thesis by (simp add: mark_command_dispatched_eq split: option.split)
next
  case (Delivered j)
  then show ?thesis
    by (cases "db_fault e 0") (simp_all add: mark_outbox_delivered_def in_tx_def stmt_def)
qed (simp_all add: ingest_commands sync_commands(1) prepare_commands complete_commands fail_commands
      prune_commands)

lemma past_pending_run:
  assumes "past_pending i db" "\<And>u a. c \<noteq> Account (Delete u a)"
  shows "past_pending i (run_db sha collate e c db)"
  using run_commands_le [OF assms(2)] assms(1) by (rule past_pending_le)

lemma dispatch_True:
  assumes "db_ok db" "mark_command_dispatched e i db = (Inr True, db')"
  shows "past_pending i db'"
proof -
  have db': "db_commands db' = update_where (dispatchable e i) (dispatched e) (db_commands db)"
    and one: "length (filter (dispatchable e i) (db_commands db)) = 1"
    using assms(2) by (auto simp: mark_command_dispatched_eq split: option.splits)
  from one have "filter (dispatchable e i) (db_commands db) \<noteq> []" by auto
  then obtain k where k: "k \<in> set (db_commands db)" "dispatchable e i k"
    by (auto simp: filter_empty_conv)
  have "row_by k_id i (db_commands db) = Some k"
    using row_by_unique [OF unique_commands [OF assms(1)] k(1)] k(2) by (simp add: dispatchable_def)
  with k(2) show ?thesis
    by (simp add: past_pending_def command_status_def db' row_by_update_where)
qed

lemma dispatch_past_pending:
  assumes "past_pending i db" "db_ok db"
  shows "fst (mark_command_dispatched e i db) \<noteq> Inr True"
proof
  assume "fst (mark_command_dispatched e i db) = Inr True"
  then have "length (filter (dispatchable e i) (db_commands db)) = 1"
    by (auto simp: mark_command_dispatched_eq split: option.splits)
  then have "filter (dispatchable e i) (db_commands db) \<noteq> []" by auto
  then obtain k where k: "k \<in> set (db_commands db)" "k_id k = i" "k_status k = ''pending''"
    by (auto simp: filter_empty_conv dispatchable_def)
  then have "row_by k_id i (db_commands db) = Some k"
    using row_by_unique [OF unique_commands [OF assms(2)] k(1)] by simp
  with assms(1) k(3) show False by (simp add: past_pending_def command_status_def)
qed

text \<open>How many calls of a run are told that they may dispatch command \<open>i\<close>.\<close>

fun dispatches ::
  "(string \<Rightarrow> 'h) \<Rightarrow> (string \<Rightarrow> 'k::linorder) \<Rightarrow> string \<Rightarrow> (env \<times> db_call) list \<Rightarrow> 'h db \<Rightarrow> nat"
where
  "dispatches sha collate i [] db = 0"
| "dispatches sha collate i ((e, c) # cs) db =
     (if c = Dispatch i \<and> fst (mark_command_dispatched e i db) = Inr True then 1 else 0) +
     dispatches sha collate i cs (run_db sha collate e c db)"

lemma run_pg_ok: "pg_ok db \<Longrightarrow> pg_ok (run_db sha collate e c db)"
  using message_step_pg_ok [OF message_call_step, of c db sha collate e]
  by (cases "\<exists>s. c = Account s \<or> c = MarkOffline")
    (auto simp: pg_ok_step pg_ok_mark_workers_offline)

lemma dispatches_past_pending:
  "pg_ok db \<Longrightarrow> past_pending i db \<Longrightarrow> \<forall>e u a. (e, Account (Delete u a)) \<notin> set cs \<Longrightarrow>
   dispatches sha collate i cs db = 0"
proof (induction cs arbitrary: db)
  case (Cons ec cs)
  obtain e c where ec: "ec = (e, c)" by (cases ec)
  have "past_pending i (run_db sha collate e c db)"
    using Cons.prems ec by (intro past_pending_run) auto
  with Cons ec run_pg_ok [OF Cons.prems(1), of sha collate e c]
    dispatch_past_pending [OF Cons.prems(2) pg_ok_schema [OF Cons.prems(1)], of e]
  show ?case by simp
qed simp



subsection \<open>Redelivery is absorbed\<close>

text \<open>
  A stored message stays stored as long as nothing prunes it, its account is not deleted and no
  message that has a provider id already is completed again.
\<close>

definition keeps_messages :: "db_call \<Rightarrow> 'h db \<Rightarrow> bool" where
  "keeps_messages c db =
     (case c of
        Account (Delete u a) \<Rightarrow> False
      | Prune r k \<Rightarrow> False
      | Complete u i p t \<Rightarrow>
          (case row_by k_id i (db_commands db) of
             None \<Rightarrow> True
           | Some k \<Rightarrow> (\<forall>m \<in> set (db_messages db). k_message_id k = Some (m_id m) \<longrightarrow> m_provider_id m = None))
      | _ \<Rightarrow> True)"

fun all_keep :: "(string \<Rightarrow> 'h) \<Rightarrow> (string \<Rightarrow> 'k::linorder) \<Rightarrow> (env \<times> db_call) list \<Rightarrow> 'h db \<Rightarrow> bool"
where
  "all_keep sha collate [] db = True"
| "all_keep sha collate ((e, c) # cs) db =
     (keeps_messages c db \<and> all_keep sha collate cs (run_db sha collate e c db))"

lemma stored_frame:
  assumes "stored a p q db" "\<And>c. conversation_of a p db = Some c \<Longrightarrow> conversation_of a p db' = Some c"
    and "\<And>c m. m \<in> set (db_messages db) \<Longrightarrow> has_provider_key c q m \<Longrightarrow>
      \<exists>m' \<in> set (db_messages db'). has_provider_key c q m'"
  shows "stored a p q db'"
  using assms unfolding stored_def stored_as_def by blast

lemma stored_same:
  "stored a p q db \<Longrightarrow> db_conversations db' = db_conversations db \<Longrightarrow>
   db_messages db' = db_messages db \<Longrightarrow> stored a p q db'"
  by (simp add: stored_def stored_as_def conversation_of_def)

lemma conversation_of_upsert:
  assumes "upsert_conversation r f db = Some (c', db')" "conversation_of a p db = Some c"
    and "\<And>x. conversation_key (f x) = conversation_key x" "\<And>x. c_id (f x) = c_id x"
  shows "conversation_of a p db' = Some c"
  using assms(1)
proof (cases rule: upsert_conversation_cases)
  case (Updated x)
  with assms(2) show ?thesis
    unfolding conversation_of_def by (simp add: conversation_of_update assms(3,4))
next
  case Inserted
  with assms(2) show ?thesis by (auto simp: conversation_of_def row_by_append)
qed

lemma stored_ingest:
  assumes "stored a p q db"
  shows "stored a p q (snd (ingest_message e acc m live db))"
proof -
  have "stored a p q db'" if "ingest_tx e acc m live db = Inr (v, db')" for v db'
  proof -
    obtain r new where "v = (r, new)" by (cases v)
    with that have "ingest_tx e acc m live db = Inr ((r, new), db')" by simp
    then show ?thesis
    proof (cases rule: ingest_tx_cases)
      case (Duplicate i title kind c db1 x)
      from assms show ?thesis
        by (rule stored_frame)
          (use Duplicate upsert_tables [OF Duplicate(1)] in \<open>auto intro: conversation_of_upsert [OF Duplicate(1)]\<close>)
    next
      case (New i j title kind c db1 db2)
      have conv: "conversation_of a p db' = conversation_of a p db1"
        using ingest_live_conversation_of [OF New(7)] New(3)
        by (auto simp: insert_message_def conversation_of_def split: if_splits)
      have "db_messages db' = db_messages db2"
        using New(7)
        by (cases rule: ingest_live_cases)
          (auto simp: insert_outbox_row_def increment_unread_def split: if_splits)
      moreover have "db_messages db2 = db_messages db @ [new_message_row m j c]"
        using New(3) upsert_tables [OF New(1)] by (auto simp: insert_message_def split: if_splits)
      ultimately show ?thesis
        using assms conv
        by (intro stored_frame [OF assms]) (auto intro: conversation_of_upsert [OF New(1)])
    qed
  qed
  then show ?thesis
    using assms by (auto simp: ingest_message_def intro: in_tx_snd [where P = "stored a p q"])
qed

lemma stored_upsert_loop:
  "upsert_loop e b cs n db = Inr (k, db') \<Longrightarrow> conversation_of a p db = Some c \<Longrightarrow>
   conversation_of a p db' = Some c"
proof (induction e b cs n db rule: upsert_loop.induct)
  case (2 e b w cs n db)
  show ?case
  proof (cases "wc_provider_id w = []")
    case False
    with "2.prems"(1) obtain i v db1 where *:
      "upsert_conversation
          \<lparr>c_id = i, c_account_id = b, c_provider_id = wc_provider_id w,
           c_title = wc_title w, c_kind = wc_kind w, c_unread_count = 0,
           c_last_message_at = None, c_updated_at = db_now e\<rparr>
          (\<lambda>r. r\<lparr>c_title := wc_title w, c_kind := wc_kind w, c_updated_at := db_now e\<rparr>) db =
        Some (v, db1)" "upsert_loop e b cs (n + 1) db1 = Inr (k, db')"
      by (auto simp: attempt_eq_Inr stmt_eq_Inr)
    have "conversation_of a p db1 = Some c"
      by (rule conversation_of_upsert [OF *(1) "2.prems"(2)]) (simp_all add: conversation_key_def)
    with "2.IH"(2) [OF False] *(2) show ?thesis by blast
  qed (use 2 in simp)
qed simp

lemma stored_sync:
  assumes "stored a p q db"
  shows "stored a p q (snd (upsert_conversations e u b cs db))"
proof -
  have "conversation_of a p (snd (upsert_conversations e u b cs db)) = Some c"
    if "conversation_of a p db = Some c" for c
    unfolding upsert_conversations_def
    by (rule in_tx_snd)
      (use that in \<open>auto simp: attempt_eq_Inr stmt_eq_Inr intro: stored_upsert_loop\<close>)
  then show ?thesis by (rule stored_frame [OF assms]) (auto simp: sync_commands(2))
qed

lemma stored_prepare:
  assumes "stored a p q db"
  shows "stored a p q (snd (prepare_send e u c body key db))"
  unfolding prepare_send_snd
proof (rule in_tx_snd)
  fix v db'
  assume "prepare_tx e u c body key db = Inr (v, db')"
  then show "stored a p q db'"
  proof (cases rule: prepare_tx_cases)
    case (Prepared cr b i j db1 db2)
    note tables = prepared_tables [OF Prepared(4,5,6)]
    have "conversation_of a p db' = conversation_of a p db"
      unfolding conversation_of_def tables(3)
      by (rule conversation_of_update) (simp_all add: conversation_key_def)
    then show ?thesis by (intro stored_frame [OF assms]) (auto simp: tables(2))
  qed (use assms in simp)
qed (rule assms)

text \<open>Completing a command moves a provider id to its message; it never makes one disappear.\<close>

lemma stored_complete:
  assumes stored: "stored a p q db" and keep: "keeps_messages (Complete u i provider t) db"
  shows "stored a p q (snd (complete_send e u i provider t db))"
  unfolding complete_send_def
proof (rule in_tx_snd)
  fix v db'
  assume "complete_tx e u i provider t db = Inr (v, db')"
  then show "stored a p q db'"
  proof (cases rule: complete_tx_cases)
    case (1 k m r db1 db2)
    let ?f = "completed_message provider t"
    have own: "row_by k_id i (db_commands db) = Some k"
      using 1(1) by (simp add: owned_command_eq_Some)
    have fresh: "m_provider_id x = None" if "x \<in> set (db_messages db)" "m_id x = m_id m" for x
      using keep own that 1(2) by (auto simp: keeps_messages_def)
    have upd: "m \<in> set (db_messages db1)"
      "db2 = db1\<lparr>db_messages := update_where (\<lambda>r. m_id r = m_id m) ?f (db_messages db1)\<rparr>"
    proof -
      show "m \<in> set (db_messages db1)"
        using row_by_mem [OF 1(3)] by (simp add: 1(4))
      show "db2 = db1\<lparr>db_messages := update_where (\<lambda>r. m_id r = m_id m) ?f (db_messages db1)\<rparr>"
        using 1(5) by (cases rule: update_message_cases) simp_all
    qed
    have messages: "db_messages db' = update_where (\<lambda>r. m_id r = m_id m) ?f (db_messages db1)"
      and conversations: "db_conversations db' = db_conversations db"
      using 1(8) upd(2)
      by (auto simp: insert_outbox_row_def set_command_result_def 1(4) reconcile_def
          delete_messages_def Let_def split: if_splits)
    show ?thesis
    proof (rule stored_frame [OF stored])
      fix c x
      assume x: "x \<in> set (db_messages db)" "has_provider_key c q x"
      then have "m_id x \<noteq> m_id m" using fresh by (auto dest: has_provider_keyD)
      show "\<exists>m' \<in> set (db_messages db'). has_provider_key c q m'"
      proof (cases "x \<in> set (db_messages db1)")
        case True
        with \<open>m_id x \<noteq> m_id m\<close> x(2) show ?thesis
          by (auto simp: messages set_update_where intro!: bexI [of _ x])
      next
        case False
        with x(1) have "provider \<noteq> []" "has_provider_key (m_conversation_id m) provider x"
          by (auto simp: 1(4) split: if_splits)
        with x(2) have "has_provider_key c q (?f m)"
          by (auto simp: has_provider_key_def provider_key_def)
        moreover have "?f m \<in> set (db_messages db')"
          using upd(1) by (auto simp: messages set_update_where)
        ultimately show ?thesis by blast
      qed
    qed (simp add: conversation_of_def conversations)
  qed
qed (rule stored)

lemma stored_fail:
  assumes "stored a p q db"
  shows "stored a p q (snd (fail_send e u i code db))"
  unfolding fail_send_def
proof (rule in_tx_snd)
  fix v db'
  assume "fail_tx e u i code db = Inr (v, db')"
  then show "stored a p q db'"
  proof (cases rule: fail_tx_cases)
    case (1 k j r db2)
    have "db_messages db' = update_where (\<lambda>r. m_id r = j) (with_status (failure_status code)) (db_messages db)"
      and "db_conversations db' = db_conversations db"
      using 1(3)
      by (cases rule: update_message_cases; use 1(6) in \<open>auto simp: insert_outbox_row_def
          set_command_result_def split: if_splits\<close>)+
    moreover have "\<exists>m' \<in> set (update_where (\<lambda>r. m_id r = j) (with_status st) rows).
        has_provider_key c q m'" if "m \<in> set rows" "has_provider_key c q m" for c m st rows
    proof -
      have "has_provider_key c q (if m_id m = j then with_status st m else m)"
        using that(2) by (simp add: has_provider_key_def provider_key_def with_status_def)
      with that(1) show ?thesis unfolding set_update_where by blast
    qed
    ultimately show ?thesis
      by (intro stored_frame [OF assms]) (auto simp: conversation_of_def simp del: set_update_where)
  qed
qed (rule assms)

lemma stored_account_call:
  assumes "stored a p q db" "\<And>u b. c \<noteq> Delete u b"
  shows "stored a p q (run_call (postgres_store sha) e c db)"
  using assms(1) same_trafficD(1,2) [OF account_call_other [OF assms(2)]] by (rule stored_same)

lemma stored_run:
  assumes "stored a p q db" "keeps_messages c db"
  shows "stored a p q (run_db sha collate e c db)"
proof (cases c)
  case (Account s)
  with assms have "\<And>u b. s \<noteq> Delete u b" by (auto simp: keeps_messages_def)
  with Account assms(1) show ?thesis by (simp add: stored_account_call)
next
  case MarkOffline
  show ?thesis
    by (rule stored_same [OF assms(1)]; cases "db_fault e 0")
      (simp_all add: MarkOffline mark_workers_offline_def in_tx_def stmt_def)
next
  case (Dispatch i)
  show ?thesis
    by (rule stored_same [OF assms(1)])
      (simp_all add: Dispatch mark_command_dispatched_eq split: option.split)
next
  case (Delivered i)
  show ?thesis
    by (rule stored_same [OF assms(1)]; cases "db_fault e 0")
      (simp_all add: Delivered mark_outbox_delivered_def in_tx_def stmt_def)
next
  case (Complete u i r t)
  with assms show ?thesis by (simp add: stored_complete)
next
  case (Prune r k)
  with assms show ?thesis by (simp add: keeps_messages_def)
qed (use assms(1) in \<open>simp_all add: stored_ingest stored_sync stored_prepare stored_fail\<close>)

lemma stored_runs:
  "stored a p q db \<Longrightarrow> all_keep sha collate cs db \<Longrightarrow> stored a p q (run_dbs sha collate cs db)"
proof (induction cs arbitrary: db)
  case (Cons ec cs)
  then show ?case by (cases ec) (simp add: stored_run)
qed simp

lemma runs_pg_ok: "pg_ok db \<Longrightarrow> pg_ok (run_dbs sha collate cs db)"
  by (erule run_dbs_invariant) (rule run_pg_ok)

text \<open>
  C8. At-least-once delivery is enough: once a message has been ingested, any run may follow - other
  messages, syncs, sends and their completion, restarts of workers, failures of anything - and the
  worker may then deliver the message again, any way it likes: it is recognised, answered with a
  stored message, and changes neither messages nor outbox nor unread counts. Only pruning, deleting
  the account or completing a message that has a provider id already are excluded.
\<close>

theorem redelivery_absorbed:
  assumes "pg_ok db" "ingest_message e account m live db = (Inr (r, new), db1)"
    and "all_keep sha collate cs db1" "acc_platform account \<noteq> []" "healthy e'"
  shows "\<exists>r' db2. ingest_message e' account m live' (run_dbs sha collate cs db1) =
      (Inr (r', False), db2) \<and>
    db_messages db2 = db_messages (run_dbs sha collate cs db1) \<and>
    db_outbox db2 = db_outbox (run_dbs sha collate cs db1) \<and>
    (\<forall>c. unread db2 c = unread (run_dbs sha collate cs db1) c)"
proof -
  have ok1: "pg_ok db1"
    using message_step_pg_ok [OF ingest_step assms(1), of e account m live] assms(2) by simp
  have "stored (acc_id account) (wm_conversation_id m) (wm_provider_message_id m) db1"
    and m: "acceptable m"
    using ingest_stored [OF assms(2)] by (auto simp: stored_def)
  then have "stored (acc_id account) (wm_conversation_id m) (wm_provider_message_id m)
      (run_dbs sha collate cs db1)"
    using assms(3) by (intro stored_runs)
  from ingest_present [OF pg_ok_schema [OF runs_pg_ok [OF ok1]] assms(5) m assms(4) this, of live']
  show ?thesis by blast
qed

theorem redelivery_absorbed_witness:
  "\<exists>r db1 r' db2.
     ingest_message (sample_env minute) sample_owner sample_message True sample_db =
       (Inr (r, True), db1) \<and>
     ingest_message (sample_env (3 * minute)) sample_owner sample_message True
       (run_dbs id (id :: string \<Rightarrow> string) [(sample_env (2 * minute), MarkOffline)] db1) =
       (Inr (r', False), db2)"
proof -
  obtain r db1 where r: "ingest_message (sample_env minute) sample_owner sample_message True
      sample_db = (Inr (r, True), db1)"
    using sample_ingest by blast
  have keep: "all_keep id (id :: string \<Rightarrow> string) [(sample_env (2 * minute), MarkOffline)] db1"
    by (simp add: keeps_messages_def)
  have "acc_platform sample_owner \<noteq> []" by (simp add: scan_account_def)
  from redelivery_absorbed [OF sample_db_ok r keep this, of "sample_env (3 * minute)" True] r
  show ?thesis by (metis sample_env_simps(1))
qed

end
