(* ===== verification/EventSpool.thy ===== *)
theory EventSpool
  imports Protocol "HOL-Library.List_Lexorder" "HOL-Library.Char_ord" "HOL-Library.AList"
begin

section \<open>The worker's event spool\<close>

text \<open>
  \<open>eventSpool\<close> of \<^verbatim>\<open>internal/worker/spool.go\<close>: a directory with one file per event that has not been
  acknowledged. The directory is an association list from file names to nodes. Every system call of
  an operation is numbered in source order and may fail (\<open>io_fault\<close>); a process that dies between two
  calls leaves the directory that a failure of the next call leaves, so what holds for every pattern
  of failures holds for crashes. Shown: events come back in the order they were appended, an append
  is all or nothing, an acknowledged event is gone and no other.
\<close>

text \<open>\<open>Encoded ev\<close> is the text \<open>json.Marshal(ev)\<close>; \<open>Partial\<close> is any content that is not a complete
  envelope, such as an interrupted write.\<close>

datatype content = Encoded envelope | Partial
datatype node = Subdir | File content

type_synonym dir = "(string \<times> node) list"

record io_env =
  io_ctx :: "go_error option"
  io_fault :: "nat \<Rightarrow> go_error option"
  io_base :: env

text \<open>System call \<open>k\<close>, whose error the source wraps with \<open>msg\<close>; the directory it leaves on failure.\<close>

definition sys :: "io_env \<Rightarrow> nat \<Rightarrow> string \<Rightarrow> go_error + unit" where
  "sys e k msg = (case io_fault e k of None \<Rightarrow> Inr () | Some err \<Rightarrow> Inl (Wrapped msg err))"

lemma sys_eq_Inr [simp]: "sys e k msg = Inr u \<longleftrightarrow> io_fault e k = None"
  by (simp add: sys_def split: option.split)

definition check_ctx :: "io_env \<Rightarrow> go_error + unit" where
  "check_ctx e = (case io_ctx e of None \<Rightarrow> Inr () | Some err \<Rightarrow> Inl err)"

subsection \<open>Names\<close>

text \<open>\<open>filepath.Base\<close> on Unix.\<close>

definition filepath_base :: "string \<Rightarrow> string" where
  "filepath_base path =
     (if path = [] then ''.''
      else
        let stripped = rev (dropWhile (\<lambda>c. c = CHR ''/'') (rev path));
            element = rev (takeWhile (\<lambda>c. c \<noteq> CHR ''/'') (rev stripped))
        in if element = [] then ''/'' else element)"

text \<open>The entry of \<^verbatim>\<open>filepath.Join(s.dir, id+".json")\<close>, for an id that \<open>Base\<close> has accepted.\<close>

definition entry_name :: "string \<Rightarrow> string" where
  "entry_name i = (if i = ''/'' then ''.json'' else i @ ''.json'')"

fun decimal :: "nat \<Rightarrow> nat \<Rightarrow> string" where
  "decimal 0 n = []"
| "decimal (Suc k) n = decimal k (n div 10) @ [char_of (48 + n mod 10)]"

text \<open>\<^verbatim>\<open>fmt.Sprintf("evt_%020d_%s", sequence, suffix)\<close>; a \<open>uint64\<close> has at most twenty digits.\<close>

definition event_id :: "nat \<Rightarrow> string \<Rightarrow> string" where
  "event_id sequence suffix = ''evt_'' @ decimal 20 sequence @ ''_'' @ suffix"

text \<open>\<^verbatim>\<open>strconv.ParseUint(s, 10, 64)\<close>.\<close>

fun parse_digits :: "nat \<Rightarrow> string \<Rightarrow> nat option" where
  "parse_digits acc [] = Some acc"
| "parse_digits acc (c # cs) =
     (if of_char c \<in> {48..57 :: nat} then parse_digits (10 * acc + (of_char c - 48)) cs else None)"

definition parse_uint :: "string \<Rightarrow> nat option" where
  "parse_uint s =
     (if s = [] then None
      else case parse_digits 0 s of
        None \<Rightarrow> None
      | Some n \<Rightarrow> if n < 2 ^ 64 then Some n else None)"

definition sequence_of :: "string \<Rightarrow> nat option" where
  "sequence_of name =
     (if length name < 24 \<or> \<not> has_prefix name ''evt_'' then None
      else parse_uint (take 20 (drop 4 name)))"

fun max_sequence :: "string list \<Rightarrow> nat \<Rightarrow> nat" where
  "max_sequence [] maximum = maximum"
| "max_sequence (name # names) maximum =
     max_sequence names
       (case sequence_of name of
          Some v \<Rightarrow> if v > maximum then v else maximum
        | None \<Rightarrow> maximum)"

definition next_sequence :: "io_env \<Rightarrow> dir \<Rightarrow> go_error + nat" where
  "next_sequence e d =
     attempt (sys e 0 ''read event spool sequence'') (\<lambda>_.
     let maximum = max_sequence (map fst d) 0 in
     attempt (fail_if (maximum = 2 ^ 64 - 1) (NewError ''event spool sequence exhausted'')) (\<lambda>_.
     Inr (maximum + 1)))"

subsection \<open>Operations\<close>

text \<open>\<open>newEventSpool\<close>: the directory is made when it is missing, and kept when it is there.\<close>

definition new_event_spool :: "io_env \<Rightarrow> string \<Rightarrow> dir option \<Rightarrow> go_error + dir" where
  "new_event_spool e path present =
     attempt (fail_if (path = []) (NewError ''event spool directory is required'')) (\<lambda>_.
     attempt (sys e 0 ''create event spool'') (\<lambda>_.
     Inr (case present of None \<Rightarrow> [] | Some d \<Rightarrow> d)))"

text \<open>Writing the temporary file, from \<open>os.OpenFile\<close> to the rename: every exit with its directory.\<close>

definition commit_file :: "io_env \<Rightarrow> string \<Rightarrow> envelope \<Rightarrow> dir \<Rightarrow> (go_error + unit) \<times> dir" where
  "commit_file e name event d =
     (let temporary = name @ ''.tmp'';
          opened = AList.update temporary (File Partial) d;
          written = AList.update temporary (File (Encoded event)) d
      in
      case sys e 2 ''create spooled event'' of Inl err \<Rightarrow> (Inl err, d) | Inr _ \<Rightarrow>
      (case sys e 3 ''write spooled event'' of Inl err \<Rightarrow> (Inl err, opened) | Inr _ \<Rightarrow>
      (case sys e 4 ''sync spooled event'' of Inl err \<Rightarrow> (Inl err, written) | Inr _ \<Rightarrow>
      (case sys e 5 ''close spooled event'' of Inl err \<Rightarrow> (Inl err, written) | Inr _ \<Rightarrow>
      (case sys e 6 ''commit spooled event'' of Inl err \<Rightarrow> (Inl err, written) | Inr _ \<Rightarrow>
      (attempt (sys e 7 ''open spool directory'') (\<lambda>_. sys e 8 ''sync spool directory''),
       AList.update name (File (Encoded event)) (AList.delete temporary d)))))))"

text \<open>
  \<open>json.Marshal\<close> of an envelope fails when its raw payload is not JSON; envelopes of the model hold
  JSON values, so it succeeds.
\<close>

definition append_event :: "io_env \<Rightarrow> envelope \<Rightarrow> dir \<Rightarrow> (go_error + unit) \<times> dir" where
  "append_event e event d =
     (case attempt (check_ctx e) (\<lambda>_.
           attempt (if env_id event = [] then
               attempt (next_sequence e d) (\<lambda>sequence.
               attempt (random_value (io_base e) 0 [] 12) (\<lambda>suffix.
               Inr (event\<lparr>env_id := event_id sequence suffix\<rparr>)))
             else Inr event) (\<lambda>event.
           attempt (fail_if (filepath_base (env_id event) \<noteq> env_id event)
             (NewError ''invalid event id'')) (\<lambda>_.
           Inr event))) of
        Inl err \<Rightarrow> (Inl err, d)
      | Inr event \<Rightarrow>
          let name = entry_name (env_id event) in
          (case sys e 1 ''inspect event spool'' of
             Inl err \<Rightarrow> (Inl err, d)
           | Inr _ \<Rightarrow>
               if map_of d name \<noteq> None then (Inr (), d) else commit_file e name event d))"

text \<open>\<open>ReadFile\<close> of the \<open>i\<close>-th name is call \<open>i + 1\<close>.\<close>

fun read_events :: "io_env \<Rightarrow> dir \<Rightarrow> nat \<Rightarrow> string list \<Rightarrow> go_error + envelope list" where
  "read_events e d i [] = Inr []"
| "read_events e d i (name # names) =
     attempt (sys e (i + 1) ''read spooled event'') (\<lambda>_.
     attempt (case map_of d name of
         Some (File (Encoded event)) \<Rightarrow> Inr event
       | _ \<Rightarrow> Inl (Wrapped (''decode spooled event '' @ name) (NewError ''json''))) (\<lambda>event.
     attempt (fail_if (env_id event = [] \<or> env_id event @ ''.json'' \<noteq> name)
       (NewError (''spooled event '' @ name @ '' has an invalid id''))) (\<lambda>_.
     attempt (read_events e d (i + 1) names) (\<lambda>events.
     Inr (event # events)))))"

definition event_names :: "dir \<Rightarrow> string list" where
  "event_names d = sort (map fst (filter (\<lambda>(name, n). n \<noteq> Subdir \<and> has_suffix name ''.json'') d))"

definition pending_events :: "io_env \<Rightarrow> dir \<Rightarrow> go_error + envelope list" where
  "pending_events e d =
     attempt (check_ctx e) (\<lambda>_.
     attempt (sys e 0 ''read event spool'') (\<lambda>_.
     read_events e d 0 (event_names d)))"

definition ack_event :: "io_env \<Rightarrow> string \<Rightarrow> dir \<Rightarrow> (go_error + unit) \<times> dir" where
  "ack_event e i d =
     (case check_ctx e of
        Inl err \<Rightarrow> (Inl err, d)
      | Inr _ \<Rightarrow>
          if i = [] \<or> filepath_base i \<noteq> i then (Inl (NewError ''invalid event id''), d)
          else
            (case sys e 0 ''remove acknowledged event'' of
               Inl err \<Rightarrow> (Inl err, d)
             | Inr _ \<Rightarrow>
                 if map_of d (entry_name i) = None then (Inr (), d)
                 else (attempt (sys e 1 ''open spool directory'') (\<lambda>_. sys e 2 ''sync spool directory''),
                       AList.delete (entry_name i) d)))"

subsection \<open>Numbers in file names\<close>

lemma length_decimal [simp]: "length (decimal k n) = k"
  by (induction k arbitrary: n) simp_all

lemma digit_less: "a < 10 \<Longrightarrow> b < 10 \<Longrightarrow>
  (char_of (48 + a) :: char) < char_of (48 + b) \<longleftrightarrow> a < (b :: nat)"
  by (simp add: less_char_def take_bit_eq_mod)

lemma digit_eq: "a < 10 \<Longrightarrow> b < 10 \<Longrightarrow>
  (char_of (48 + a) :: char) = char_of (48 + b) \<longleftrightarrow> a = (b :: nat)"
  by (simp add: char_of_eq_iff take_bit_eq_mod)

lemma snoc_less:
  fixes xs ys :: "'a::linorder list"
  assumes "length xs = length ys"
  shows "xs @ [a] < ys @ [b] \<longleftrightarrow> xs < ys \<or> xs = ys \<and> a < b"
  using assms by (induction xs ys rule: list_induct2) auto

lemma last_digit_less:
  fixes q r q' r' :: nat
  assumes "r < 10" "r' < 10"
  shows "10 * q + r < 10 * q' + r' \<longleftrightarrow> q < q' \<or> q = q' \<and> r < r'"
    and "10 * q + r = 10 * q' + r' \<longleftrightarrow> q = q' \<and> r = r'"
proof -
  consider "Suc q \<le> q'" | "q = q'" | "Suc q' \<le> q" by linarith
  then show "10 * q + r < 10 * q' + r' \<longleftrightarrow> q < q' \<or> q = q' \<and> r < r'"
    by cases (use assms in linarith, simp, use assms in linarith)
  consider "Suc q \<le> q'" | "q = q'" | "Suc q' \<le> q" by linarith
  then show "10 * q + r = 10 * q' + r' \<longleftrightarrow> q = q' \<and> r = r'"
    by cases (use assms in linarith, simp, use assms in linarith)
qed

text \<open>Fixed-width decimal numerals are ordered as the numbers are.\<close>

lemma decimal_less:
  "m < 10 ^ k \<Longrightarrow> n < 10 ^ k \<Longrightarrow> decimal k m < decimal k n \<longleftrightarrow> m < n"
proof -
  have "m < 10 ^ k \<Longrightarrow> n < 10 ^ k \<Longrightarrow>
    (decimal k m < decimal k n \<longleftrightarrow> m < n) \<and> (decimal k m = decimal k n \<longleftrightarrow> m = n)"
  proof (induction k arbitrary: m n)
    case (Suc k)
    have *: "m div 10 < 10 ^ k" "n div 10 < 10 ^ k" using Suc.prems by (simp_all add: div_less_iff_less_mult)
    have "m < n \<longleftrightarrow> m div 10 < n div 10 \<or> m div 10 = n div 10 \<and> m mod 10 < n mod 10"
      "m = n \<longleftrightarrow> m div 10 = n div 10 \<and> m mod 10 = n mod 10"
      using last_digit_less [of "m mod 10" "n mod 10" "m div 10" "n div 10"] by simp_all
    then show ?case
      using Suc.IH [OF *] by (simp add: snoc_less digit_less digit_eq)
  qed simp
  then show "m < 10 ^ k \<Longrightarrow> n < 10 ^ k \<Longrightarrow> decimal k m < decimal k n \<longleftrightarrow> m < n" by blast
qed

lemma parse_digits_append:
  "parse_digits acc (xs @ ys) = (case parse_digits acc xs of None \<Rightarrow> None | Some v \<Rightarrow> parse_digits v ys)"
  by (induction acc xs rule: parse_digits.induct) auto

lemma parse_digits_decimal: "n < 10 ^ k \<Longrightarrow> parse_digits acc (decimal k n) = Some (acc * 10 ^ k + n)"
proof (induction k arbitrary: n)
  case (Suc k)
  have "n div 10 < 10 ^ k" using Suc.prems by (simp add: div_less_iff_less_mult)
  moreover have "of_char (char_of (48 + n mod 10) :: char) = 48 + n mod 10"
    by (simp add: take_bit_eq_mod)
  ultimately show ?case
    using Suc.IH [of "n div 10"] by (simp add: parse_digits_append algebra_simps)
qed simp

lemma parse_uint_decimal: "n < 2 ^ 64 \<Longrightarrow> parse_uint (decimal 20 n) = Some n"
proof -
  assume n: "n < 2 ^ 64"
  have "(2 :: nat) ^ 64 < 10 ^ 20" by simp
  with n have "parse_digits 0 (decimal 20 n) = Some n" by (simp add: parse_digits_decimal)
  moreover have "decimal 20 n \<noteq> []" by (metis length_decimal list.size(3) zero_neq_numeral)
  ultimately show ?thesis using n by (simp add: parse_uint_def)
qed

lemma sequence_of_event_id: "n < 2 ^ 64 \<Longrightarrow> sequence_of (event_id n s @ r) = Some n"
  by (simp add: sequence_of_def event_id_def has_prefix_def parse_uint_decimal)

lemma max_sequence_ge: "maximum \<le> max_sequence names maximum"
proof (induction names arbitrary: maximum)
  case (Cons name names)
  then show ?case
    by (auto split: option.split intro: order.trans [OF _ Cons.IH] less_imp_le)
qed simp

lemma max_sequence_upper:
  "name \<in> set names \<Longrightarrow> sequence_of name = Some v \<Longrightarrow> v \<le> max_sequence names maximum"
proof (induction names arbitrary: maximum)
  case (Cons n names)
  show ?case
  proof (cases "name = n")
    case True
    with Cons.prems(2) show ?thesis
      using max_sequence_ge [of v names] max_sequence_ge [of maximum names] by simp
  next
    case False
    with Cons show ?thesis by auto
  qed
qed simp

lemma parse_digits_inverse:
  "parse_digits acc s = Some n \<Longrightarrow> n = acc * 10 ^ length s + n mod 10 ^ length s \<and>
   s = decimal (length s) n"
proof (induction s arbitrary: n rule: rev_induct)
  case (snoc c s)
  let ?c = "of_char c :: nat"
  obtain v where v: "parse_digits acc s = Some v" "?c \<in> {48..57}" "n = 10 * v + (?c - 48)"
    using snoc.prems by (auto simp: parse_digits_append split: option.splits if_splits)
  from v(2) have "?c - 48 < 10" by auto
  then have nv: "n div 10 = v" "n mod 10 = ?c - 48" using v(3) by simp_all
  have "n mod (10 * 10 ^ length s) = 10 * (v mod 10 ^ length s) + (?c - 48)"
    using nv by (simp add: mod_mult2_eq)
  moreover have "10 * v = 10 * (acc * 10 ^ length s) + 10 * (v mod 10 ^ length s)"
    using snoc.IH [OF v(1)] by (metis add_mult_distrib2)
  moreover have "char_of (48 + n mod 10) = c"
    using v(2) nv by (simp del: of_char_of)
  ultimately show ?case
    using snoc.IH [OF v(1)] v(3) nv by (simp add: algebra_simps)
qed simp

lemma sequence_of_take:
  assumes "sequence_of i = Some k"
  shows "take 24 i = ''evt_'' @ decimal 20 k" "k < 2 ^ 64" "24 \<le> length i"
proof -
  from assms have i: "24 \<le> length i" "take 4 i = ''evt_''" "parse_uint (take 20 (drop 4 i)) = Some k"
    by (auto simp: sequence_of_def has_prefix_def eval_nat_numeral split: if_splits)
  have len: "length (take 20 (drop 4 i)) = 20" using i(1) by simp
  from i(3) have "k < 2 ^ 64" and "parse_digits 0 (take 20 (drop 4 i)) = Some k"
    by (auto simp: parse_uint_def split: if_splits option.splits)
  then have "take 20 (drop 4 i) = decimal 20 k"
    using parse_digits_inverse [of 0 "take 20 (drop 4 i)" k] by (simp only: len)
  moreover have "take 24 i = take 4 i @ take 20 (drop 4 i)"
    using take_add [of 4 20 i] by simp
  ultimately show "take 24 i = ''evt_'' @ decimal 20 k" using i(2) by simp
  show "k < 2 ^ 64" "24 \<le> length i" by fact+
qed

lemma sequence_of_append [simp]: "sequence_of i = Some k \<Longrightarrow> sequence_of (i @ r) = Some k"
  by (auto simp: sequence_of_def has_prefix_def split: if_splits)

lemma same_length_less_append:
  fixes xs ys :: "'a::linorder list"
  shows "length xs = length ys \<Longrightarrow> xs < ys \<Longrightarrow> xs @ u < ys @ v"
  by (induction xs ys rule: list_induct2) auto

text \<open>Names are sorted by sequence number first.\<close>

lemma sequence_order:
  assumes "sequence_of i = Some j" "sequence_of i' = Some k" "j < k"
  shows "i < i'"
proof -
  have "(2 :: nat) ^ 64 < 10 ^ 20" by simp
  then have "decimal 20 j < decimal 20 k"
    using assms(3) sequence_of_take(2) [OF assms(1)] sequence_of_take(2) [OF assms(2)]
    by (simp add: decimal_less)
  then have "take 24 i < take 24 i'"
    using sequence_of_take(1) [OF assms(1)] sequence_of_take(1) [OF assms(2)] by simp
  then have "take 24 i @ drop 24 i < take 24 i' @ drop 24 i'"
    using sequence_of_take(3) [OF assms(1)] sequence_of_take(3) [OF assms(2)]
    by (intro same_length_less_append) auto
  then show ?thesis by simp
qed

subsection \<open>The queue a directory holds\<close>

text \<open>
  The invariant of a spool directory: every \<open>.json\<close> entry is a complete envelope under its own
  identifier, and that identifier starts with a sequence number. Temporary files may hold anything.
\<close>

definition event_file :: "string \<Rightarrow> node \<Rightarrow> bool" where
  "event_file name n =
     (case n of
        File (Encoded event) \<Rightarrow>
          name = env_id event @ ''.json'' \<and> sequence_of (env_id event) \<noteq> None \<and>
          CHR ''/'' \<notin> set (env_id event)
      | _ \<Rightarrow> False)"

definition spool_ok :: "dir \<Rightarrow> bool" where
  "spool_ok d \<longleftrightarrow> distinct (map fst d) \<and>
     (\<forall>(name, n) \<in> set d. has_suffix name ''.json'' \<longrightarrow> event_file name n)"

definition event_at :: "dir \<Rightarrow> string \<Rightarrow> envelope option" where
  "event_at d name = (case map_of d name of Some (File (Encoded event)) \<Rightarrow> Some event | _ \<Rightarrow> None)"

text \<open>The abstract state of the spool: the events it holds, oldest first.\<close>

definition spool_queue :: "dir \<Rightarrow> envelope list" where
  "spool_queue d = List.map_filter (event_at d) (event_names d)"

definition json_names :: "dir \<Rightarrow> string set" where
  "json_names d = {name \<in> dom (map_of d). has_suffix name ''.json''}"

lemma finite_json_names [simp]: "finite (json_names d)"
  by (rule finite_subset [of _ "dom (map_of d)"]) (auto simp: json_names_def finite_dom_map_of)

lemma event_file_at: "map_of d name = Some n \<Longrightarrow> event_file name n \<Longrightarrow> \<exists>event. event_at d name = Some event \<and>
  name = env_id event @ ''.json'' \<and> sequence_of (env_id event) \<noteq> None \<and> CHR ''/'' \<notin> set (env_id event)"
  by (auto simp: event_file_def event_at_def split: node.splits content.splits)

lemma spool_ok_file:
  assumes "spool_ok d" "name \<in> json_names d"
  obtains event where "event_at d name = Some event" "name = env_id event @ ''.json''"
    "sequence_of (env_id event) \<noteq> None" "CHR ''/'' \<notin> set (env_id event)"
proof -
  from assms obtain n where n: "map_of d name = Some n" "has_suffix name ''.json''"
    by (auto simp: json_names_def)
  then have "event_file name n" using assms(1) map_of_SomeD [OF n(1)] by (auto simp: spool_ok_def)
  from event_file_at [OF n(1) this] that show thesis by blast
qed

lemma event_names_sorted:
  assumes "spool_ok d"
  shows "event_names d = sorted_list_of_set (json_names d)"
proof -
  let ?xs = "map fst (filter (\<lambda>(name, n). n \<noteq> Subdir \<and> has_suffix name ''.json'') d)"
  have "distinct (map fst d)" using assms by (simp add: spool_ok_def)
  then have "distinct ?xs" by (induction d) auto
  moreover have "set ?xs = json_names d"
    using assms by (force simp: spool_ok_def json_names_def event_file_def dom_map_of_conv_image_fst
        split: node.splits)
  ultimately show ?thesis
    unfolding event_names_def
    by (metis distinct_sort sorted_sort set_sort sorted_list_of_set.idem_if_sorted_distinct)
qed

lemma spool_okI:
  "distinct (map fst d) \<Longrightarrow>
   (\<And>name n. map_of d name = Some n \<Longrightarrow> has_suffix name ''.json'' \<Longrightarrow> event_file name n) \<Longrightarrow> spool_ok d"
  by (auto simp: spool_ok_def)

lemma spool_okD:
  "spool_ok d \<Longrightarrow> map_of d name = Some n \<Longrightarrow> has_suffix name ''.json'' \<Longrightarrow> event_file name n"
  unfolding spool_ok_def by (blast dest: map_of_SomeD)

lemma map_filter_total:
  "(\<And>x. x \<in> set xs \<Longrightarrow> f x \<noteq> None) \<Longrightarrow> List.map_filter f xs = map (the \<circ> f) xs"
  by (induction xs) (auto simp: List.map_filter_simps split: option.split)

lemma spool_queue_names:
  assumes "spool_ok d"
  shows "spool_queue d = map (the \<circ> event_at d) (sorted_list_of_set (json_names d))"
proof -
  have "event_at d name \<noteq> None" if "name \<in> set (sorted_list_of_set (json_names d))" for name
    using that by (auto elim: spool_ok_file [OF assms])
  then show ?thesis
    unfolding spool_queue_def event_names_sorted [OF assms] by (rule map_filter_total)
qed

lemma set_spool_queue:
  assumes "spool_ok d" "event \<in> set (spool_queue d)"
  shows "event_at d (env_id event @ ''.json'') = Some event"
    and "env_id event @ ''.json'' \<in> json_names d" and "sequence_of (env_id event) \<noteq> None"
proof -
  from assms obtain name where name: "name \<in> json_names d" "event = the (event_at d name)"
    by (auto simp: spool_queue_names)
  from spool_ok_file [OF assms(1) name(1)] name(2)
  show "event_at d (env_id event @ ''.json'') = Some event"
    "env_id event @ ''.json'' \<in> json_names d" "sequence_of (env_id event) \<noteq> None"
    using name(1) by (metis option.sel)+
qed

text \<open>The queue depends only on the \<open>.json\<close> entries.\<close>

lemma spool_cong:
  assumes "spool_ok d" "distinct (map fst d')"
    and same: "\<And>name. has_suffix name ''.json'' \<Longrightarrow> map_of d' name = map_of d name"
  shows "spool_ok d'" "spool_queue d' = spool_queue d"
proof -
  show ok: "spool_ok d'"
    using spool_okD [OF assms(1)] by (intro spool_okI [OF assms(2)]) (simp add: same)
  have names: "json_names d' = json_names d" using same by (auto simp: json_names_def)
  have "event_at d' name = event_at d name" if "name \<in> json_names d" for name
    using same that by (auto simp: event_at_def json_names_def)
  then show "spool_queue d' = spool_queue d"
    by (simp add: spool_queue_names assms(1) ok names)
qed

lemma sorted_list_snoc:
  assumes "finite S" "\<And>x. x \<in> S \<Longrightarrow> x < (new :: 'a::linorder)"
  shows "sorted_list_of_set (insert new S) = sorted_list_of_set S @ [new]"
proof (rule sorted_list_of_set.sorted_key_list_of_set_unique [THEN iffD1, rotated])
  show "finite (insert new S)" using assms(1) by simp
  show "sorted_wrt (<) (sorted_list_of_set S @ [new]) \<and>
      set (sorted_list_of_set S @ [new]) = insert new S \<and>
      length (sorted_list_of_set S @ [new]) = card (insert new S)"
    using assms by (auto simp: sorted_wrt_append card_insert_if)
qed

lemma spool_insert:
  assumes "spool_ok d" "distinct (map fst d')"
    and entries: "\<And>name. has_suffix name ''.json'' \<Longrightarrow>
      map_of d' name = ((map_of d)(env_id event @ ''.json'' \<mapsto> File (Encoded event))) name"
    and i: "sequence_of (env_id event) \<noteq> None" "CHR ''/'' \<notin> set (env_id event)"
    and newest: "\<And>name. name \<in> json_names d \<Longrightarrow> name < env_id event @ ''.json''"
  shows "spool_ok d'" "spool_queue d' = spool_queue d @ [event]"
proof -
  let ?new = "env_id event @ ''.json''"
  have "event_file ?new (File (Encoded event))" using i by (simp add: event_file_def)
  then show ok: "spool_ok d'"
    using spool_okD [OF assms(1)] by (intro spool_okI [OF assms(2)]) (auto simp: entries split: if_splits)
  have names: "json_names d' = insert ?new (json_names d)" using entries by (auto simp: json_names_def)
  have new: "event_at d' ?new = Some event" using entries [of ?new] by (simp add: event_at_def)
  have old: "event_at d' name = event_at d name" if "name \<in> json_names d" for name
    using entries [of name] newest [OF that] that by (auto simp: event_at_def json_names_def)
  have "sorted_list_of_set (insert ?new (json_names d)) = sorted_list_of_set (json_names d) @ [?new]"
    by (rule sorted_list_snoc) (auto intro: newest)
  then show "spool_queue d' = spool_queue d @ [event]"
    using new old by (simp add: spool_queue_names assms(1) ok names)
qed

lemma spool_remove:
  assumes "spool_ok d" "distinct (map fst d')"
    and entries: "\<And>name. has_suffix name ''.json'' \<Longrightarrow>
      map_of d' name = ((map_of d)(i @ ''.json'' := None)) name"
  shows "spool_ok d'" "spool_queue d' = filter (\<lambda>event. env_id event \<noteq> i) (spool_queue d)"
proof -
  let ?gone = "i @ ''.json''"
  show ok: "spool_ok d'"
    using spool_okD [OF assms(1)] by (intro spool_okI [OF assms(2)]) (auto simp: entries split: if_splits)
  have names: "json_names d' = json_names d - {?gone}"
    using entries by (auto simp: json_names_def split: if_splits)
  have old: "event_at d' name = event_at d name" if "name \<in> json_names d" "name \<noteq> ?gone" for name
    using entries [of name] that by (auto simp: event_at_def json_names_def)
  have key: "env_id (the (event_at d name)) = i \<longleftrightarrow> name = ?gone" if "name \<in> json_names d" for name
    using spool_ok_file [OF assms(1) that] by (metis append_same_eq option.sel)
  have "sorted_list_of_set (json_names d - {?gone}) =
      filter (\<lambda>name. name \<noteq> ?gone) (sorted_list_of_set (json_names d))"
    by (rule sorted_distinct_set_unique) (auto simp: sorted_wrt_filter)
  moreover have "filter (\<lambda>name. name \<noteq> ?gone) (sorted_list_of_set (json_names d)) =
      filter (\<lambda>name. env_id (the (event_at d name)) \<noteq> i) (sorted_list_of_set (json_names d))"
    by (intro filter_cong refl) (simp add: key)
  ultimately show "spool_queue d' = filter (\<lambda>event. env_id event \<noteq> i) (spool_queue d)"
    using key by (auto simp: spool_queue_names assms(1) ok names filter_map o_def old)
qed

subsection \<open>Appending\<close>

lemma not_json_tmp [simp]: "\<not> has_suffix (name @ ''.tmp'') ''.json''"
proof
  assume "has_suffix (name @ ''.tmp'') ''.json''"
  then obtain r where "name @ ''.tmp'' = r @ ''.json''" by (auto simp: has_suffix_iff)
  then have "rev (name @ ''.tmp'') ! 0 = rev (r @ ''.json'') ! 0" by simp
  then show False by simp
qed

lemma distinct_commit [simp]:
  "distinct (map fst d) \<Longrightarrow> distinct (map fst (AList.update k v d))"
  "distinct (map fst d) \<Longrightarrow> distinct (map fst (AList.delete k d))"
  by (rule distinct_update, assumption) (rule distinct_delete)

lemma commit_file_queue:
  assumes "spool_ok d" and i: "sequence_of (env_id event) \<noteq> None" "CHR ''/'' \<notin> set (env_id event)"
    and newest: "\<And>name. name \<in> json_names d \<Longrightarrow> name < env_id event @ ''.json''"
    and result: "commit_file e (env_id event @ ''.json'') event d = (r, d')"
  shows "spool_ok d'"
    and "spool_queue d' = (if \<exists>k\<in>{2..6}. io_fault e k \<noteq> None then spool_queue d
                           else spool_queue d @ [event])"
    and "r = Inr () \<longleftrightarrow> (\<forall>k\<in>{2..8}. io_fault e k = None)"
proof -
  let ?name = "env_id event @ ''.json''" and ?tmp = "env_id event @ ''.json'' @ ''.tmp''"
  have dist: "distinct (map fst d)" using assms(1) by (simp add: spool_ok_def)
  let ?final = "AList.update ?name (File (Encoded event)) (AList.delete ?tmp d)"
  have tmp: "\<not> has_suffix ?tmp ''.json''" using not_json_tmp [of ?name] by (simp del: not_json_tmp)
  have left: "spool_ok (AList.update ?tmp n d)" "spool_queue (AList.update ?tmp n d) = spool_queue d" for n
    using tmp by (auto intro!: spool_cong [OF assms(1)] simp: dist update_conv)
  have final: "spool_ok ?final" "spool_queue ?final = spool_queue d @ [event]"
    using tmp by (auto intro!: spool_insert [OF assms(1) _ _ i newest] simp: dist update_conv delete_conv)
  have "(r, d') = (if io_fault e 2 \<noteq> None then (r, d)
     else if io_fault e 3 \<noteq> None then (r, AList.update ?tmp (File Partial) d)
     else if \<exists>k\<in>{4,5,6}. io_fault e k \<noteq> None then (r, AList.update ?tmp (File (Encoded event)) d)
     else (r, ?final)) \<and> (r = Inr () \<longleftrightarrow> (\<forall>k\<in>{2,3,4,5,6,7,8}. io_fault e k = None))"
    using result by (auto simp: commit_file_def sys_def attempt_def split: option.splits)
  moreover have "{2..6} = {2, 3, 4, 5, 6 :: nat}" "{2..8} = {2, 3, 4, 5, 6, 7, 8 :: nat}" by auto
  ultimately show "spool_ok d'"
    "spool_queue d' = (if \<exists>k\<in>{2..6}. io_fault e k \<noteq> None then spool_queue d
                           else spool_queue d @ [event])"
    "r = Inr () \<longleftrightarrow> (\<forall>k\<in>{2..8}. io_fault e k = None)"
    using assms(1) left final by (auto split: if_splits)
qed

lemma hex_digit_no_slash: "hex_digit n \<noteq> CHR ''/''"
proof -
  have "hex_digit n \<in> set ''0123456789abcdef''" unfolding hex_digit_def by (rule nth_mem) simp
  then show ?thesis by auto
qed

lemma hex_encode_no_slash: "CHR ''/'' \<notin> set (hex_encode bytes)"
  by (induction bytes) (simp_all add: hex_encode_def hex_byte_def hex_digit_no_slash hex_digit_no_slash [symmetric])

lemma base_no_slash: "i \<noteq> [] \<Longrightarrow> CHR ''/'' \<notin> set i \<Longrightarrow> filepath_base i = i"
proof -
  assume i: "i \<noteq> []" "CHR ''/'' \<notin> set i"
  then have keep: "dropWhile (\<lambda>c. c = CHR ''/'') (rev i) = rev i"
    by (cases "rev i") (auto simp: dropWhile_eq_self_iff dest: arg_cong [of _ _ set])
  have "takeWhile (\<lambda>c. c \<noteq> CHR ''/'') (rev i) = rev i"
    unfolding takeWhile_eq_all_conv using i(2) by auto
  then show ?thesis using i(1) keep by (simp only: filepath_base_def Let_def rev_rev_ident if_False)
qed

lemma sequence_of_event_id' [simp]: "n < 2 ^ 64 \<Longrightarrow> sequence_of (event_id n s) = Some n"
  using sequence_of_event_id [of n s "[]"] by simp

lemma event_id_no_slash: "CHR ''/'' \<notin> set s \<Longrightarrow> CHR ''/'' \<notin> set (event_id n s)"
proof -
  have "CHR ''/'' \<notin> set (decimal k n)" for k n
  proof (induction k arbitrary: n)
    case (Suc k)
    have "of_char (char_of (48 + n mod 10) :: char) \<noteq> (of_char (CHR ''/'') :: nat)"
      by (simp add: take_bit_eq_mod)
    then have "CHR ''/'' \<noteq> char_of (48 + n mod 10)" by metis
    with Suc show ?case by simp
  qed simp
  then show "CHR ''/'' \<notin> set s \<Longrightarrow> CHR ''/'' \<notin> set (event_id n s)" by (simp add: event_id_def)
qed

lemma max_sequence_bound: "maximum < 2 ^ 64 \<Longrightarrow> max_sequence names maximum < 2 ^ 64"
  by (induction names arbitrary: maximum) (auto split: option.split dest: sequence_of_take(2))

text \<open>The identifier an append makes is newer than every name in the directory.\<close>

lemma new_event_id:
  assumes "next_sequence e d = Inr n"
  shows "0 < n" "n < 2 ^ 64" "map_of d name \<noteq> None \<Longrightarrow> sequence_of name = Some k \<Longrightarrow> k < n"
proof -
  from assms have n: "n = max_sequence (map fst d) 0 + 1" "max_sequence (map fst d) 0 \<noteq> 2 ^ 64 - 1"
    by (auto simp: next_sequence_def attempt_def fail_if_def Let_def split: sum.splits if_splits)
  moreover have "max_sequence (map fst d) 0 < 2 ^ 64" by (rule max_sequence_bound) simp
  ultimately show "0 < n" "n < 2 ^ 64" by linarith+
  assume "map_of d name \<noteq> None" "sequence_of name = Some k"
  then have "k \<le> max_sequence (map fst d) 0"
    by (intro max_sequence_upper) (auto dest!: map_of_SomeD intro: rev_image_eqI)
  then show "k < n" using n by simp
qed

definition append_id :: "io_env \<Rightarrow> dir \<Rightarrow> string" where
  "append_id e d =
     event_id (Suc (max_sequence (map fst d) 0)) (hex_encode (map (entropy (io_base e) 0) [0..<12]))"

definition io_ok :: "io_env \<Rightarrow> bool" where
  "io_ok e \<longleftrightarrow> io_ctx e = None \<and> rand_fault (io_base e) 0 = None \<and> (\<forall>k. io_fault e k = None)"

lemma append_event_cases:
  assumes "spool_ok d" "env_id event = []" "append_event e event d = (r, d')"
  obtains (early) err where "r = Inl err" "d' = d" "\<not> (io_ok e \<and> max_sequence (map fst d) 0 \<noteq> 2 ^ 64 - 1)"
  | (commit) "commit_file e (append_id e d @ ''.json'') (event\<lparr>env_id := append_id e d\<rparr>) d = (r, d')"
      "sequence_of (append_id e d) \<noteq> None" "CHR ''/'' \<notin> set (append_id e d)"
      "\<And>name. name \<in> json_names d \<Longrightarrow> name < append_id e d @ ''.json''"
proof (cases "io_ctx e = None \<and> next_sequence e d = Inr (max_sequence (map fst d) 0 + 1) \<and>
    rand_fault (io_base e) 0 = None \<and> io_fault e 1 = None")
  case False
  then obtain err where err: "r = Inl err" "d' = d"
    using assms(2,3) that
    by (auto simp: append_event_def check_ctx_def attempt_def next_sequence_def fail_if_def Let_def
        random_value_def sys_def split: option.splits if_splits)
  show thesis using False by (intro early [OF err]) (auto simp: io_ok_def next_sequence_def sys_def)
next
  case True
  let ?i = "append_id e d" and ?n = "max_sequence (map fst d) 0 + 1"
  note new = new_event_id [of e d ?n]
  have n: "?n < 2 ^ 64" using True new(2) by simp
  have i: "sequence_of ?i = Some ?n" "CHR ''/'' \<notin> set ?i" "?i \<noteq> []"
    unfolding append_id_def Suc_eq_plus1
    by (rule sequence_of_event_id' [OF n], rule event_id_no_slash [OF hex_encode_no_slash],
        simp add: event_id_def)
  have newest: "name < ?i @ ''.json''" if name: "name \<in> json_names d" for name
  proof -
    obtain k where k: "sequence_of name = Some k"
      using spool_ok_file [OF assms(1) name] by (metis option.exhaust sequence_of_append)
    have "k < ?n" using name True k by (intro new(3)) (auto simp: json_names_def)
    then show ?thesis by (intro sequence_order [OF k sequence_of_append [OF i(1)]])
  qed
  have "?i \<noteq> ''/''" using i(2) by auto
  moreover have "map_of d (?i @ ''.json'') = None"
    using newest [of "?i @ ''.json''"] by (auto simp: json_names_def)
  moreover have "random_value (io_base e) 0 [] 12 = Inr (hex_encode (map (entropy (io_base e) 0) [0..<12]))"
    using True by simp
  ultimately have "append_event e event d = commit_file e (?i @ ''.json'') (event\<lparr>env_id := ?i\<rparr>) d"
    using True assms(2) base_no_slash [OF i(3,2)]
    by (simp add: append_event_def check_ctx_def fail_if_def entry_name_def sys_def
        append_id_def [symmetric])
  with commit i newest assms(3) show thesis by simp
qed

lemma append_event_queue:
  assumes "spool_ok d" "env_id event = []" and result: "append_event e event d = (r, d')"
  shows "spool_ok d'"
    and "spool_queue d' = spool_queue d \<or>
      spool_queue d' = spool_queue d @ [event\<lparr>env_id := append_id e d\<rparr>] \<and>
      append_id e d \<notin> env_id ` set (spool_queue d)"
    and "r = Inr () \<Longrightarrow> spool_queue d' = spool_queue d @ [event\<lparr>env_id := append_id e d\<rparr>]"
    and "io_ok e \<Longrightarrow> max_sequence (map fst d) 0 \<noteq> 2 ^ 64 - 1 \<Longrightarrow> r = Inr ()"
proof -
  have "spool_ok d' \<and>
    (spool_queue d' = spool_queue d \<or>
     spool_queue d' = spool_queue d @ [event\<lparr>env_id := append_id e d\<rparr>] \<and>
     append_id e d \<notin> env_id ` set (spool_queue d)) \<and>
    (r = Inr () \<longrightarrow> spool_queue d' = spool_queue d @ [event\<lparr>env_id := append_id e d\<rparr>]) \<and>
    (io_ok e \<longrightarrow> max_sequence (map fst d) 0 \<noteq> 2 ^ 64 - 1 \<longrightarrow> r = Inr ())"
    using assms
  proof (cases rule: append_event_cases)
    case (early err)
    with assms(1) show ?thesis by auto
  next
    case commit
    have fresh: "append_id e d \<notin> env_id ` set (spool_queue d)"
    proof
      assume "append_id e d \<in> env_id ` set (spool_queue d)"
      then have "append_id e d @ ''.json'' \<in> json_names d"
        using set_spool_queue(2) [OF assms(1)] by force
      from commit(4) [OF this] show False by simp
    qed
    let ?new = "event\<lparr>env_id := append_id e d\<rparr>"
    note queue = commit_file_queue [OF assms(1), of ?new e r d']
    have i: "env_id ?new = append_id e d" by simp
    have "r = Inr () \<longrightarrow> \<not> (\<exists>k\<in>{2..6}. io_fault e k \<noteq> None)"
      using queue(3) commit by (simp add: i)
    moreover have "io_ok e \<longrightarrow> r = Inr ()" using queue(3) commit by (simp add: i io_ok_def)
    moreover have "spool_ok d'" "spool_queue d' =
        (if \<exists>k\<in>{2..6}. io_fault e k \<noteq> None then spool_queue d else spool_queue d @ [?new])"
      using queue(1,2) [unfolded i, OF commit(2,3,4,1)] by simp_all
    ultimately show ?thesis using fresh by presburger
  qed
  then show "spool_ok d'"
    "spool_queue d' = spool_queue d \<or>
      spool_queue d' = spool_queue d @ [event\<lparr>env_id := append_id e d\<rparr>] \<and>
      append_id e d \<notin> env_id ` set (spool_queue d)"
    "r = Inr () \<Longrightarrow> spool_queue d' = spool_queue d @ [event\<lparr>env_id := append_id e d\<rparr>]"
    "io_ok e \<Longrightarrow> max_sequence (map fst d) 0 \<noteq> 2 ^ 64 - 1 \<Longrightarrow> r = Inr ()"
    by blast+
qed

subsection \<open>Acknowledging and reading\<close>

lemma json_names_long: "spool_ok d \<Longrightarrow> name \<in> json_names d \<Longrightarrow> 29 \<le> length name"
  by (erule spool_ok_file, assumption) (auto dest: sequence_of_take(3))

lemma ack_event_queue:
  assumes "spool_ok d" "ack_event e i d = (r, d')"
  shows "spool_ok d'"
    and "spool_queue d' \<in> {spool_queue d, filter (\<lambda>event. env_id event \<noteq> i) (spool_queue d)}"
    and "r = Inr () \<Longrightarrow> spool_queue d' = filter (\<lambda>event. env_id event \<noteq> i) (spool_queue d)"
    and "io_ok e \<Longrightarrow> i \<noteq> [] \<Longrightarrow> filepath_base i = i \<Longrightarrow> r = Inr ()"
proof -
  let ?rest = "filter (\<lambda>event. env_id event \<noteq> i) (spool_queue d)"
  have absent: "?rest = spool_queue d" if "i @ ''.json'' \<notin> json_names d"
    using set_spool_queue(2) [OF assms(1)] that by (intro filter_True) auto
  have slash: "''/.json'' \<notin> json_names d" "''.json'' \<notin> json_names d"
    using json_names_long [OF assms(1)] by force+
  have entry: "entry_name i = i @ ''.json'' \<or> i = ''/'' \<and> entry_name i = ''.json''"
    by (simp add: entry_name_def)
  have json: "has_suffix (entry_name i) ''.json''"
    using has_suffix_append [of "[]" "''.json''"] by (auto simp: entry_name_def)
  have gone: "?rest = spool_queue d" if "map_of d (entry_name i) = None"
    using that entry slash by (intro absent) (auto simp: json_names_def has_suffix_def)
  have left: "spool_ok (AList.delete (entry_name i) d) \<and>
      spool_queue (AList.delete (entry_name i) d) = ?rest" if "map_of d (entry_name i) \<noteq> None"
  proof -
    have "entry_name i = i @ ''.json''"
      using that entry slash json by (auto simp: json_names_def)
    moreover have "distinct (map fst d)" using assms(1) by (simp add: spool_ok_def)
    ultimately show ?thesis by (auto intro!: spool_remove [OF assms(1)] simp: delete_conv)
  qed
  have "spool_ok d' \<and> spool_queue d' \<in> {spool_queue d, ?rest} \<and> (r = Inr () \<longrightarrow> spool_queue d' = ?rest) \<and>
     (io_ok e \<longrightarrow> i \<noteq> [] \<longrightarrow> filepath_base i = i \<longrightarrow> r = Inr ())"
    using assms gone left
    by (auto simp: ack_event_def check_ctx_def sys_def attempt_def io_ok_def
        split: option.splits if_splits)
  then show "spool_ok d'"
    "spool_queue d' \<in> {spool_queue d, ?rest}" "r = Inr () \<Longrightarrow> spool_queue d' = ?rest"
    "io_ok e \<Longrightarrow> i \<noteq> [] \<Longrightarrow> filepath_base i = i \<Longrightarrow> r = Inr ()"
    by blast+
qed

lemma read_events_ok:
  assumes "\<forall>k. io_fault e k = None"
    and "\<And>name. name \<in> set names \<Longrightarrow> \<exists>event. event_at d name = Some event \<and>
      env_id event \<noteq> [] \<and> name = env_id event @ ''.json''"
  shows "read_events e d i names = Inr (List.map_filter (event_at d) names)"
  using assms(2)
proof (induction names arbitrary: i)
  case (Cons name names)
  from Cons.prems obtain event where "event_at d name = Some event" "env_id event \<noteq> []"
    "name = env_id event @ ''.json''" by force
  then show ?case
    using Cons assms(1)
    by (auto simp: event_at_def sys_def fail_if_def List.map_filter_simps
        split: option.splits node.splits content.splits)
qed (simp add: List.map_filter_simps)

lemma pending_events_queue:
  assumes "spool_ok d" "io_ok e"
  shows "pending_events e d = Inr (spool_queue d)"
proof -
  have "\<exists>event. event_at d name = Some event \<and> env_id event \<noteq> [] \<and> name = env_id event @ ''.json''"
    if "name \<in> set (event_names d)" for name
  proof -
    from that have "name \<in> json_names d" by (simp add: event_names_sorted [OF assms(1)])
    from spool_ok_file [OF assms(1) this] show ?thesis by (force simp: sequence_of_def)
  qed
  then show ?thesis
    using assms(2) by (simp add: pending_events_def check_ctx_def io_ok_def sys_def spool_queue_def read_events_ok)
qed

subsection \<open>The contract of the spool\<close>

text \<open>
  What the worker client relies on: a queue that appends at the end or not at all, that loses only
  what was acknowledged, and that says so truthfully when it reports success.
\<close>

datatype spool_op = Append io_env envelope | Ack io_env string

fun run_spool ::
  "(io_env \<Rightarrow> envelope \<Rightarrow> 'd \<Rightarrow> (go_error + unit) \<times> 'd) \<Rightarrow> (io_env \<Rightarrow> string \<Rightarrow> 'd \<Rightarrow> (go_error + unit) \<times> 'd) \<Rightarrow>
   spool_op list \<Rightarrow> 'd \<Rightarrow> 'd" where
  "run_spool put ack [] d = d"
| "run_spool put ack (Append e event # ops) d = run_spool put ack ops (snd (put e event d))"
| "run_spool put ack (Ack e i # ops) d = run_spool put ack ops (snd (ack e i d))"

fun acked_ids :: "spool_op list \<Rightarrow> string set" where
  "acked_ids [] = {}"
| "acked_ids (Append e event # ops) = acked_ids ops"
| "acked_ids (Ack e i # ops) = insert i (acked_ids ops)"

fun unnumbered :: "spool_op list \<Rightarrow> bool" where
  "unnumbered [] \<longleftrightarrow> True"
| "unnumbered (Append e event # ops) \<longleftrightarrow> env_id event = [] \<and> unnumbered ops"
| "unnumbered (Ack e i # ops) \<longleftrightarrow> unnumbered ops"

locale event_queue =
  fixes ok :: "'d \<Rightarrow> bool"
    and queue :: "'d \<Rightarrow> envelope list"
    and put :: "io_env \<Rightarrow> envelope \<Rightarrow> 'd \<Rightarrow> (go_error + unit) \<times> 'd"
    and ack :: "io_env \<Rightarrow> string \<Rightarrow> 'd \<Rightarrow> (go_error + unit) \<times> 'd"
  assumes append_law: "ok d \<Longrightarrow> env_id event = [] \<Longrightarrow> put e event d = (r, d') \<Longrightarrow>
      ok d' \<and> (\<exists>i. queue d' \<in> {queue d, queue d @ [event\<lparr>env_id := i\<rparr>]} \<and>
        (r = Inr () \<longrightarrow> queue d' = queue d @ [event\<lparr>env_id := i\<rparr>]))"
    and ack_law: "ok d \<Longrightarrow> ack e i d = (r, d') \<Longrightarrow>
      ok d' \<and> queue d' \<in> {queue d, filter (\<lambda>event. env_id event \<noteq> i) (queue d)} \<and>
      (r = Inr () \<longrightarrow> queue d' = filter (\<lambda>event. env_id event \<noteq> i) (queue d))"
begin

lemma run_keeps_order:
  "ok d \<Longrightarrow> unnumbered ops \<Longrightarrow>
   ok (run_spool put ack ops d) \<and>
   (\<exists>gone news. gone \<subseteq> acked_ids ops \<and>
      queue (run_spool put ack ops d) = filter (\<lambda>event. env_id event \<notin> gone) (queue d) @ news)"
proof (induction ops arbitrary: d)
  case Nil
  show ?case using Nil.prems by (auto intro!: exI [of _ "{}"])
next
  case (Cons op ops)
  show ?case
  proof (cases op)
    case (Append e event)
    obtain r d' where op: "put e event d = (r, d')" by force
    with append_law Cons.prems Append obtain new where d': "ok d'" "queue d' = queue d @ new"
      by fastforce
    with Cons.IH [OF d'(1)] Cons.prems(2) Append obtain gone news where
      "gone \<subseteq> acked_ids ops" "ok (run_spool put ack ops d')"
      "queue (run_spool put ack ops d') = filter (\<lambda>event. env_id event \<notin> gone) (queue d') @ news"
      by auto
    then show ?thesis
      using op d'(2) Append
      by (auto intro!: exI [of _ gone] exI [of _ "filter (\<lambda>event. env_id event \<notin> gone) new @ news"])
  next
    case (Ack e i)
    obtain r d' where op: "ack e i d = (r, d')" by force
    with ack_law Cons.prems have d': "ok d'"
      "queue d' \<in> {queue d, filter (\<lambda>event. env_id event \<noteq> i) (queue d)}" by blast+
    from Cons.IH [OF d'(1)] Cons.prems(2) Ack obtain gone news where rest:
      "gone \<subseteq> acked_ids ops" "ok (run_spool put ack ops d')"
      "queue (run_spool put ack ops d') = filter (\<lambda>event. env_id event \<notin> gone) (queue d') @ news"
      by auto
    have "\<exists>gone' \<subseteq> insert i gone. filter (\<lambda>event. env_id event \<notin> gone) (queue d') =
        filter (\<lambda>event. env_id event \<notin> gone') (queue d)"
      using d'(2)
    proof
      assume "queue d' = queue d"
      then show ?thesis by (intro exI [of _ gone]) (simp add: subset_insertI)
    next
      assume "queue d' \<in> {filter (\<lambda>event. env_id event \<noteq> i) (queue d)}"
      then have "filter (\<lambda>event. env_id event \<notin> gone) (queue d') =
          filter (\<lambda>event. env_id event \<notin> insert i gone) (queue d)"
        by (simp add: conj_commute)
      then show ?thesis by (intro exI [of _ "insert i gone"] conjI subset_refl)
    qed
    then obtain gone' where gone': "gone' \<subseteq> insert i gone"
      "filter (\<lambda>event. env_id event \<notin> gone) (queue d') = filter (\<lambda>event. env_id event \<notin> gone') (queue d)"
      by blast
    have "gone' \<subseteq> acked_ids (op # ops)" using gone'(1) rest(1) Ack by auto
    moreover have "run_spool put ack (op # ops) d = run_spool put ack ops d'" using op Ack by simp
    ultimately show ?thesis using rest(2,3) gone'(2) by (metis (no_types))
  qed
qed

text \<open>An event that is stored and never acknowledged stays, whatever fails meanwhile.\<close>

lemma unacked_stays:
  assumes "ok d" "unnumbered ops" "event \<in> set (queue d)" "env_id event \<notin> acked_ids ops"
  shows "event \<in> set (queue (run_spool put ack ops d))"
  using run_keeps_order [OF assms(1,2)] assms(3,4) by fastforce

end

interpretation spool: event_queue spool_ok spool_queue append_event ack_event
proof
  show "spool_ok d' \<and> (\<exists>i. spool_queue d' \<in> {spool_queue d, spool_queue d @ [event\<lparr>env_id := i\<rparr>]} \<and>
        (r = Inr () \<longrightarrow> spool_queue d' = spool_queue d @ [event\<lparr>env_id := i\<rparr>]))"
    if "spool_ok d" "env_id event = []" "append_event e event d = (r, d')" for d e event r d'
    using append_event_queue(1-3) [OF that] by blast
  show "spool_ok d' \<and> spool_queue d' \<in> {spool_queue d, filter (\<lambda>event. env_id event \<noteq> i) (spool_queue d)} \<and>
      (r = Inr () \<longrightarrow> spool_queue d' = filter (\<lambda>event. env_id event \<noteq> i) (spool_queue d))"
    if "spool_ok d" "ack_event e i d = (r, d')" for d e i r d'
    using ack_event_queue(1-3) [OF that] by blast
qed

subsection \<open>Properties\<close>

definition sample_envelope :: "string \<Rightarrow> envelope" where
  "sample_envelope i = empty_envelope\<lparr>env_version := 1, env_id := i\<rparr>"

definition sample_io :: io_env where
  "sample_io = \<lparr>io_ctx = None, io_fault = (\<lambda>_. None), io_base = sample_env 0\<rparr>"

definition sample_id :: string where
  "sample_id = event_id 7 ''ab''"

definition sample_spool :: dir where
  "sample_spool = [(event_id 8 ''cd'' @ ''.json.tmp'', File Partial),
     (sample_id @ ''.json'', File (Encoded (sample_envelope sample_id)))]"

lemma sample_envelope_id [simp]: "env_id (sample_envelope i) = i"
  by (simp add: sample_envelope_def)

lemma sample_id_sequence: "sequence_of sample_id = Some 7" "sequence_of (sample_id @ r) = Some 7"
  unfolding sample_id_def by (rule sequence_of_event_id' sequence_of_event_id; simp)+

lemma sample_tmp_sequence: "sequence_of (event_id 8 s @ r) = Some 8"
  by (rule sequence_of_event_id) simp

lemma sample_spool_max: "max_sequence (map fst sample_spool) 0 = 8"
  by (simp add: sample_spool_def sample_id_sequence sample_tmp_sequence)

lemma sample_spool_ok: "spool_ok sample_spool"
proof -
  have "\<not> has_suffix (event_id 8 ''cd'' @ ''.json.tmp'') ''.json''"
    using not_json_tmp [of "event_id 8 ''cd'' @ ''.json''"] by (simp del: not_json_tmp)
  moreover have "CHR ''/'' \<notin> set sample_id" unfolding sample_id_def by (rule event_id_no_slash) simp
  moreover have "event_id 8 ''cd'' @ ''.json.tmp'' \<noteq> sample_id @ ''.json''"
    using sample_tmp_sequence [of "''cd''" "''.json.tmp''"] sample_id_sequence(2) [of "''.json''"] by force
  ultimately show ?thesis
    by (simp add: spool_ok_def sample_spool_def event_file_def sample_id_sequence)
qed

lemma sample_io_ok [simp]: "io_ok sample_io"
  by (simp add: io_ok_def sample_io_def sample_env_def)

text \<open>
  C34. An append is all or nothing under every pattern of failing system calls, and so under a crash
  between any two of them: the directory stays well formed, the events it holds are those from
  before, or those followed by the new one under a fresh identifier, and the latter is the case when
  the append reports success.
\<close>

theorem spool_append_atomic:
  assumes "spool_ok d" "env_id event = []" "append_event e event d = (r, d')"
  shows "spool_ok d' \<and>
    (spool_queue d' = spool_queue d \<and> r \<noteq> Inr () \<or>
     spool_queue d' = spool_queue d @ [event\<lparr>env_id := append_id e d\<rparr>] \<and>
     append_id e d \<notin> env_id ` set (spool_queue d))"
  using append_event_queue [OF assms] by auto

theorem spool_append_atomic_witness:
  "spool_ok (snd (append_event sample_io (sample_envelope []) sample_spool))"
  using spool_append_atomic [OF sample_spool_ok, of "sample_envelope []" sample_io]
  by (simp add: sample_envelope_def prod_eq_iff)

text \<open>
  When no call fails and the numbers are not exhausted, an append succeeds and a later
  \<open>Pending\<close>, from this process or the next, returns the earlier events, oldest first, and then the
  new one.
\<close>

theorem spool_append_pending:
  assumes "spool_ok d" "env_id event = []" "io_ok e" "io_ok e'"
    and "max_sequence (map fst d) 0 \<noteq> 2 ^ 64 - 1"
  shows "\<exists>d'. append_event e event d = (Inr (), d') \<and>
    pending_events e' d' = Inr (spool_queue d @ [event\<lparr>env_id := append_id e d\<rparr>])"
proof -
  obtain r d' where result: "append_event e event d = (r, d')" by force
  note queue = append_event_queue [OF assms(1,2) result]
  have "r = Inr ()" using queue(4) assms(3,5) by blast
  then show ?thesis
    using queue(1,3) result pending_events_queue [OF queue(1) assms(4)] by simp
qed

theorem spool_append_pending_witness:
  "\<exists>d'. append_event sample_io (sample_envelope []) sample_spool = (Inr (), d') \<and>
    pending_events sample_io d' =
      Inr (spool_queue sample_spool @ [(sample_envelope []) \<lparr>env_id := append_id sample_io sample_spool\<rparr>])"
  by (rule spool_append_pending [OF sample_spool_ok]) (simp_all add: sample_envelope_def sample_spool_max)

text \<open>
  A successful acknowledgement removes exactly the event it names; an identifier that is not in
  the spool is acknowledged without effect, and a failing one removes that event or nothing.
\<close>

theorem spool_ack_exact:
  assumes "spool_ok d" "ack_event e i d = (r, d')" "io_ok e'"
  shows "pending_events e' d' = Inr (spool_queue d) \<and> r \<noteq> Inr () \<or>
    pending_events e' d' = Inr (filter (\<lambda>event. env_id event \<noteq> i) (spool_queue d))"
  using ack_event_queue [OF assms(1,2)] pending_events_queue [OF _ assms(3), of d'] by auto

theorem spool_ack_exact_witness:
  "pending_events sample_io (snd (ack_event sample_io sample_id sample_spool)) = Inr (spool_queue sample_spool) \<or>
   pending_events sample_io (snd (ack_event sample_io sample_id sample_spool)) =
     Inr (filter (\<lambda>event. env_id event \<noteq> sample_id) (spool_queue sample_spool))"
  using spool_ack_exact [OF sample_spool_ok surjective_pairing sample_io_ok] by blast



end
