(* ===== verification/Realtime.thy ===== *)
theory Realtime
  imports Protocol
begin

section \<open>Realtime events to clients\<close>

text \<open>
  \<^verbatim>\<open>internal/realtime/hub.go\<close>: the hub that fans events out to the WebSocket connections of a user.
  A \<open>client\<close> is a call of \<open>Serve\<close>: its subscriber (the buffered channel \<open>events\<close>, the flags \<open>done\<close>
  and \<open>active\<close>), its place in the serve loop, and the frames it has written to its connection. The
  loop's \<open>select\<close> takes any ready branch, so a run is a sequence of events, each of them one branch
  of one client, one publication, or one arrival. A publication is one event: it holds the hub's
  lock, and what a client does between two of its sends commutes with them. Shown: users are
  separated, a client that is not dropped misses nothing, and the registry leaks nothing.
\<close>

datatype serve_phase = Serving | Leaving | Gone

record client =
  cl_user :: string
  cl_events :: "envelope list"
  cl_done :: bool
  cl_active :: bool
  cl_phase :: serve_phase
  cl_written :: "envelope list"

record rt_hub =
  rt_subscribers :: "string \<rightharpoonup> nat list"
  rt_clients :: "nat \<rightharpoonup> client"

definition new_rt_hub :: rt_hub where
  "new_rt_hub = \<lparr>rt_subscribers = Map.empty, rt_clients = Map.empty\<rparr>"

subsection \<open>Publishing\<close>

definition events_capacity :: nat where
  "events_capacity = 64"

definition offer :: "envelope \<Rightarrow> client \<Rightarrow> client" where
  "offer event c =
     (if \<not> cl_active c then c
      else if length (cl_events c) < events_capacity then c\<lparr>cl_events := cl_events c @ [event]\<rparr>
      else c\<lparr>cl_done := True\<rparr>)"

definition members :: "rt_hub \<Rightarrow> string \<Rightarrow> nat list" where
  "members h u = (case rt_subscribers h u of None \<Rightarrow> [] | Some is \<Rightarrow> is)"

definition update_client :: "nat \<Rightarrow> (client \<Rightarrow> client) \<Rightarrow> rt_hub \<Rightarrow> rt_hub" where
  "update_client i f h = h\<lparr>rt_clients := (rt_clients h)(i := map_option f (rt_clients h i))\<rparr>"

definition publish :: "string \<Rightarrow> string \<Rightarrow> go_error + json \<Rightarrow> rt_hub \<Rightarrow> (go_error + unit) \<times> rt_hub" where
  "publish user_id event_type payload h =
     (case new_envelope event_type payload of
        Inl err \<Rightarrow> (Inl err, h)
      | Inr envelope \<Rightarrow> (Inr (), fold (\<lambda>i. update_client i (offer envelope)) (members h user_id) h))"

subsection \<open>Serving a client\<close>

definition new_client :: "string \<Rightarrow> client" where
  "new_client user_id = \<lparr>cl_user = user_id, cl_events = [], cl_done = False, cl_active = True,
     cl_phase = Serving, cl_written = []\<rparr>"

text \<open>\<open>h.add\<close>.\<close>

definition add_subscriber :: "string \<Rightarrow> nat \<Rightarrow> rt_hub \<Rightarrow> rt_hub" where
  "add_subscriber user_id i h = h\<lparr>rt_subscribers :=
     (rt_subscribers h)(user_id \<mapsto> List.insert i (members h user_id))\<rparr>"

text \<open>\<open>h.remove\<close>: the subscriber is closed, then taken out of the registry.\<close>

definition remove_subscriber :: "string \<Rightarrow> nat \<Rightarrow> rt_hub \<Rightarrow> rt_hub" where
  "remove_subscriber user_id i h =
     (let h = update_client i (\<lambda>c. c\<lparr>cl_done := True\<rparr>) h;
          left = removeAll i (members h user_id)
      in h\<lparr>rt_subscribers := (rt_subscribers h)(user_id := (if left = [] then None else Some left))\<rparr>)"

definition leave :: "client \<Rightarrow> client" where
  "leave c = c\<lparr>cl_phase := Leaving\<rparr>"

definition write_frame :: "bool \<Rightarrow> envelope \<Rightarrow> client \<Rightarrow> client" where
  "write_frame ok frame c = (if ok then c\<lparr>cl_written := cl_written c @ [frame]\<rparr> else leave c)"

text \<open>\<open>case event := <-sub.events\<close>; \<open>ok\<close> tells whether the write succeeds.\<close>

definition serve_event :: "bool \<Rightarrow> client \<Rightarrow> client option" where
  "serve_event ok c =
     (case cl_events c of
        [] \<Rightarrow> None
      | event # events \<Rightarrow>
          let c = c\<lparr>cl_events := events\<rparr> in
          Some (if \<not> cl_active c then c else write_frame ok event c))"

definition subscription_ack :: "string \<Rightarrow> envelope \<Rightarrow> envelope" where
  "subscription_ack state request = empty_envelope\<lparr>env_version := Version, env_id := env_id request,
     env_type := state, env_status := ''ok'', env_payload := Some (JObj [(''state'', JStr state)])\<rparr>"

text \<open>
  The check of the upgrade: a browser names the page's origin, a native client none. \<open>parse_host\<close> is the
  host \<open>url.Parse\<close> finds in an origin, and \<open>host\<close> the host the request is for. A refused upgrade has
  no effect on the hub.
\<close>

definition same_origin_or_native :: "(string \<Rightarrow> string option) \<Rightarrow> string \<Rightarrow> string \<Rightarrow> bool" where
  "same_origin_or_native parse_host host origin \<longleftrightarrow> origin = [] \<or> parse_host origin = Some host"

text \<open>\<open>case request := <-incoming\<close>.\<close>

definition serve_request :: "bool \<Rightarrow> envelope \<Rightarrow> client \<Rightarrow> client" where
  "serve_request ok request c =
     (if env_type request \<noteq> ''subscribe'' \<and> env_type request \<noteq> ''unsubscribe'' then c
      else if env_type request = ''unsubscribe'' then
        write_frame ok (subscription_ack ''unsubscribed'' request) (c\<lparr>cl_active := False\<rparr>)
      else write_frame ok (subscription_ack ''subscribed'' request) (c\<lparr>cl_active := True\<rparr>))"

datatype rt_event =
    Connect string nat
  | Publish string string "go_error + json"
  | TakeEvent nat bool
  | TakeRequest nat envelope bool
  | Ping nat bool
  | TakeDone nat
  | ReadError nat
  | Remove nat

definition serving :: "rt_hub \<Rightarrow> nat \<Rightarrow> client option" where
  "serving h i = (case rt_clients h i of
     Some c \<Rightarrow> if cl_phase c = Serving then Some c else None | None \<Rightarrow> None)"

text \<open>\<open>None\<close>: the branch is not ready in this state.\<close>

fun rt_step :: "rt_event \<Rightarrow> rt_hub \<Rightarrow> rt_hub option" where
  "rt_step (Connect user_id i) h =
     (if rt_clients h i \<noteq> None then None
      else Some (add_subscriber user_id i
        (h\<lparr>rt_clients := (rt_clients h)(i \<mapsto> new_client user_id)\<rparr>)))"
| "rt_step (Publish user_id event_type payload) h = Some (snd (publish user_id event_type payload h))"
| "rt_step (TakeEvent i ok) h =
     (case serving h i of
        None \<Rightarrow> None
      | Some c \<Rightarrow> map_option (\<lambda>c'. update_client i (\<lambda>_. c') h) (serve_event ok c))"
| "rt_step (TakeRequest i request ok) h =
     (case serving h i of
        None \<Rightarrow> None
      | Some c \<Rightarrow> Some (update_client i (serve_request ok request) h))"
| "rt_step (Ping i ok) h =
     (case serving h i of
        None \<Rightarrow> None
      | Some c \<Rightarrow> Some (if ok then h else update_client i leave h))"
| "rt_step (TakeDone i) h =
     (case serving h i of
        None \<Rightarrow> None
      | Some c \<Rightarrow> if cl_done c then Some (update_client i leave h) else None)"
| "rt_step (ReadError i) h =
     (case serving h i of
        None \<Rightarrow> None
      | Some c \<Rightarrow> Some (update_client i leave h))"
| "rt_step (Remove i) h =
     (case rt_clients h i of
        None \<Rightarrow> None
      | Some c \<Rightarrow>
          if cl_phase c = Leaving then
            Some (update_client i (\<lambda>c. c\<lparr>cl_phase := Gone\<rparr>) (remove_subscriber (cl_user c) i h))
          else None)"

fun rt_run :: "rt_event list \<Rightarrow> rt_hub \<Rightarrow> rt_hub option" where
  "rt_run [] h = Some h"
| "rt_run (e # es) h = (case rt_step e h of None \<Rightarrow> None | Some h' \<Rightarrow> rt_run es h')"

text \<open>The envelopes a run publishes to a user.\<close>

fun published :: "string \<Rightarrow> rt_event list \<Rightarrow> envelope list" where
  "published u [] = []"
| "published u (Publish v event_type payload # es) =
     (case new_envelope event_type payload of
        Inr envelope \<Rightarrow> if v = u then envelope # published u es else published u es
      | Inl _ \<Rightarrow> published u es)"
| "published u (_ # es) = published u es"

subsection \<open>What a step does to one client\<close>

text \<open>The registry holds exactly the clients that have not left it.\<close>

definition rt_ok :: "rt_hub \<Rightarrow> bool" where
  "rt_ok h \<longleftrightarrow>
     (\<forall>u is. rt_subscribers h u = Some is \<longrightarrow> is \<noteq> [] \<and> distinct is) \<and>
     (\<forall>u i. i \<in> set (members h u) \<longleftrightarrow>
        (\<exists>c. rt_clients h i = Some c \<and> cl_user c = u \<and> cl_phase c \<noteq> Gone)) \<and>
     (\<forall>i c. rt_clients h i = Some c \<longrightarrow> length (cl_events c) \<le> events_capacity)"

lemma update_client_simps [simp]:
  "rt_clients (update_client i f h) j =
     (if j = i then map_option f (rt_clients h i) else rt_clients h j)"
  "rt_subscribers (update_client i f h) = rt_subscribers h"
  "members (update_client i f h) u = members h u"
  by (simp_all add: update_client_def members_def)

lemma members_clients [simp]: "members (h\<lparr>rt_clients := cs\<rparr>) u = members h u"
  by (simp add: members_def)

lemma fold_update_clients:
  "distinct is \<Longrightarrow>
   rt_clients (fold (\<lambda>i. update_client i f) is h) j =
     (if j \<in> set is then map_option f (rt_clients h j) else rt_clients h j) \<and>
   rt_subscribers (fold (\<lambda>i. update_client i f) is h) = rt_subscribers h"
  by (induction "is" arbitrary: h) auto

lemma rt_ok_members:
  assumes "rt_ok h"
  shows "distinct (members h u)"
    and "i \<in> set (members h u) \<longleftrightarrow>
      (\<exists>c. rt_clients h i = Some c \<and> cl_user c = u \<and> cl_phase c \<noteq> Gone)"
  using assms by (auto simp: rt_ok_def members_def split: option.splits)

lemma offer_simps [simp]:
  "cl_user (offer e c) = cl_user c" "cl_phase (offer e c) = cl_phase c"
  "cl_active (offer e c) = cl_active c" "cl_written (offer e c) = cl_written c"
  by (simp_all add: offer_def)

lemma publish_clients:
  assumes "rt_ok h"
  shows "rt_clients (snd (publish u k p h)) i =
    (case new_envelope k p of
       Inl _ \<Rightarrow> rt_clients h i
     | Inr e \<Rightarrow> (case rt_clients h i of
         Some c \<Rightarrow> Some (if cl_user c = u \<and> cl_phase c \<noteq> Gone then offer e c else c)
       | None \<Rightarrow> None))"
    and "rt_subscribers (snd (publish u k p h)) = rt_subscribers h"
  using fold_update_clients [OF rt_ok_members(1) [OF assms], where f = "offer e" for e]
    rt_ok_members(2) [OF assms]
  by (auto simp: publish_def split: sum.splits option.splits)

lemma serving_Some [simp]:
  "serving h i = Some c \<longleftrightarrow> rt_clients h i = Some c \<and> cl_phase c = Serving"
  by (auto simp: serving_def split: option.split)

lemma remove_subscriber_simps [simp]:
  "rt_clients (remove_subscriber u i h) j =
     (if j = i then map_option (\<lambda>c. c\<lparr>cl_done := True\<rparr>) (rt_clients h i) else rt_clients h j)"
  "rt_subscribers (remove_subscriber u i h) = (rt_subscribers h)(u :=
     (if removeAll i (members h u) = [] then None else Some (removeAll i (members h u))))"
  by (simp_all add: remove_subscriber_def Let_def)

lemma add_subscriber_simps [simp]:
  "rt_clients (add_subscriber u i h) = rt_clients h"
  "rt_subscribers (add_subscriber u i h) = (rt_subscribers h)(u \<mapsto> List.insert i (members h u))"
  by (simp_all add: add_subscriber_def)

definition is_ack :: "envelope \<Rightarrow> bool" where
  "is_ack f \<longleftrightarrow> (\<exists>state request. f = subscription_ack state request)"

text \<open>What any step may do to a client that exists before it.\<close>

definition client_step :: "rt_event \<Rightarrow> nat \<Rightarrow> client \<Rightarrow> client \<Rightarrow> bool" where
  "client_step e i c c' \<longleftrightarrow> cl_user c' = cl_user c \<and> (cl_done c \<longrightarrow> cl_done c') \<and>
     (cl_phase c \<noteq> Serving \<longrightarrow> cl_phase c' \<noteq> Serving) \<and>
     length (cl_events c') \<le> max events_capacity (length (cl_events c)) \<and>
     set (cl_written c' @ cl_events c') \<subseteq> set (cl_written c @ cl_events c) \<union>
       set (published (cl_user c) [e]) \<union> Collect is_ack \<and>
     (cl_phase c' = Serving \<and> \<not> cl_done c' \<and> cl_active c \<and> (\<forall>r ok. e \<noteq> TakeRequest i r ok) \<longrightarrow>
       cl_active c' \<and>
       cl_written c' @ cl_events c' = cl_written c @ cl_events c @ published (cl_user c) [e])"

lemma client_step_refl:
  "published (cl_user c) [e] = [] \<Longrightarrow> client_step e i c c"
  by (auto simp: client_step_def)

lemma client_step_leave [simp]: "published (cl_user c) [e] = [] \<Longrightarrow> client_step e i c (leave c)"
  by (auto simp: client_step_def leave_def)

lemma client_step_offer:
  "published (cl_user c) [e] = [f] \<Longrightarrow> cl_phase c \<noteq> Gone \<Longrightarrow> client_step e i c (offer f c)"
  by (auto simp: client_step_def offer_def)

lemma client_step_event:
  "serve_event ok c = Some c' \<Longrightarrow> client_step (TakeEvent j ok) i c c'"
  by (auto simp: client_step_def serve_event_def write_frame_def leave_def Let_def
      split: list.splits if_splits)

lemma serve_request_simps:
  "cl_user (serve_request ok r c) = cl_user c" "cl_events (serve_request ok r c) = cl_events c"
  "cl_phase (serve_request ok r c) = cl_phase c \<or> cl_phase (serve_request ok r c) = Leaving"
  by (simp_all add: serve_request_def write_frame_def leave_def)

lemma client_step_request: "client_step (TakeRequest i r ok) i c (serve_request ok r c)"
  by (auto simp: client_step_def serve_request_def write_frame_def leave_def is_ack_def)

lemma rt_step_client:
  assumes "rt_ok h" "rt_step e h = Some h'" "rt_clients h i = Some c"
  shows "\<exists>c'. rt_clients h' i = Some c' \<and> client_step e i c c'"
proof (cases e)
  case (Publish u k p)
  with assms have h': "h' = snd (publish u k p h)" by simp
  show ?thesis
  proof (cases "new_envelope k p")
    case (Inl err)
    then show ?thesis
      using Publish h' assms publish_clients(1) [OF assms(1), of u k p i]
      by (auto intro: client_step_refl)
  next
    case (Inr f)
    show ?thesis
    proof (cases "cl_user c = u \<and> cl_phase c \<noteq> Gone")
      case True
      then show ?thesis
        using Publish h' assms publish_clients(1) [OF assms(1), of u k p i] Inr
        by (auto intro: client_step_offer)
    next
      case False
      then show ?thesis
        using Publish h' assms publish_clients(1) [OF assms(1), of u k p i] Inr
        by (auto simp: client_step_def)
    qed
  qed
next
  case (TakeEvent j ok)
  have "published (cl_user c) [TakeEvent j ok] = []" by simp
  note refl = client_step_refl [OF this, of i]
  from TakeEvent assms obtain c0 z where "rt_clients h j = Some c0" "serve_event ok c0 = Some z"
    "h' = update_client j (\<lambda>_. z) h" by (auto split: option.splits)
  with TakeEvent assms(3) refl client_step_event [of ok c0 z j j] show ?thesis by (cases "i = j") auto
next
  case (TakeRequest j r ok)
  have "published (cl_user c) [TakeRequest j r ok] = []" by simp
  note refl = client_step_refl [OF this, of i]
  from TakeRequest assms have "h' = update_client j (serve_request ok r) h"
    by (auto split: option.splits)
  with TakeRequest assms(3) refl client_step_request [where i = j and r = r and ok = ok] show ?thesis by (cases "i = j") auto
qed (use assms in \<open>auto split: option.splits if_splits intro: client_step_refl
      simp: client_step_def leave_def\<close>)

lemma rt_ok_same_registry:
  assumes "rt_ok h" "rt_subscribers h' = rt_subscribers h"
    and "\<And>i c. rt_clients h i = Some c \<Longrightarrow> \<exists>c'. rt_clients h' i = Some c' \<and> cl_user c' = cl_user c \<and>
      (cl_phase c' = Gone \<longleftrightarrow> cl_phase c = Gone) \<and> length (cl_events c') \<le> events_capacity"
    and "\<And>i. rt_clients h i = None \<Longrightarrow> rt_clients h' i = None"
  shows "rt_ok h'"
proof -
  have members: "members h' u = members h u" for u by (simp add: members_def assms(2))
  have "(\<exists>c'. rt_clients h' i = Some c' \<and> cl_user c' = u \<and> cl_phase c' \<noteq> Gone) \<longleftrightarrow>
      (\<exists>c. rt_clients h i = Some c \<and> cl_user c = u \<and> cl_phase c \<noteq> Gone)" for i u
    using assms(3,4) [of i] by (cases "rt_clients h i") force+
  moreover have "length (cl_events c') \<le> events_capacity" if "rt_clients h' i = Some c'" for i c'
    using assms(3,4) [of i] that by (cases "rt_clients h i") force+
  ultimately show ?thesis using assms(1) by (simp add: rt_ok_def members assms(2))
qed

lemma rt_ok_events:
  "rt_ok h \<Longrightarrow> rt_clients h i = Some c \<Longrightarrow> length (cl_events c) \<le> events_capacity"
  by (auto simp: rt_ok_def)

lemma rt_ok_update:
  assumes "rt_ok h" "\<And>c. rt_clients h i = Some c \<Longrightarrow> cl_user (f c) = cl_user c \<and>
    (cl_phase (f c) = Gone \<longleftrightarrow> cl_phase c = Gone) \<and> length (cl_events (f c)) \<le> length (cl_events c)"
  shows "rt_ok (update_client i f h)"
  by (rule rt_ok_same_registry [OF assms(1)])
    (use assms(2) rt_ok_events [OF assms(1)] in \<open>force split: if_splits\<close>)+

lemma rt_ok_step:
  assumes "rt_ok h" "rt_step e h = Some h'"
  shows "rt_ok h'"
proof (cases e)
  case (Connect u i)
  with assms have new: "rt_clients h i = None" and h': "h' = add_subscriber u i
      (h\<lparr>rt_clients := (rt_clients h)(i \<mapsto> new_client u)\<rparr>)" by (auto split: if_splits)
  have "i \<notin> set (members h v)" for v using rt_ok_members(2) [OF assms(1)] new by simp
  then have "List.insert i (members h u) = i # members h u" by (simp add: List.insert_def)
  then have "members h' v = (if v = u then i # members h u else members h v)" for v
    by (simp add: h' members_def)
  then show ?thesis
    using assms(1) rt_ok_members [OF assms(1)] new
    by (auto simp: rt_ok_def h' new_client_def)
next
  case (Publish u k p)
  with assms have h': "h' = snd (publish u k p h)" by simp
  show ?thesis
    using rt_ok_events [OF assms(1)] publish_clients [OF assms(1), of u k p]
    by (intro rt_ok_same_registry [OF assms(1)])
      (auto simp: h' offer_def split: sum.splits)
next
  case (TakeEvent i ok)
  with assms show ?thesis
    by (auto split: option.splits intro!: rt_ok_update
        simp: serve_event_def write_frame_def leave_def Let_def split: list.splits if_splits)
next
  case (TakeRequest i r ok)
  with assms obtain c where "rt_clients h i = Some c" "cl_phase c = Serving"
    "h' = update_client i (serve_request ok r) h" by (auto split: option.splits)
  then show ?thesis
    using serve_request_simps [of ok r c] by (auto intro!: rt_ok_update [OF assms(1)])
next
  case (Remove i)
  with assms obtain c where c: "rt_clients h i = Some c" "cl_phase c = Leaving"
    and h': "h' = update_client i (\<lambda>c. c\<lparr>cl_phase := Gone\<rparr>) (remove_subscriber (cl_user c) i h)"
    by (auto split: option.splits if_splits)
  have members: "members h' u = (if u = cl_user c then removeAll i (members h u) else members h u)" for u
    by (simp add: h' members_def)
  have clients: "rt_clients h' j =
      (if j = i then Some (c\<lparr>cl_done := True, cl_phase := Gone\<rparr>) else rt_clients h j)" for j
    by (simp add: h' c)
  from members have in_members: "j \<in> set (members h' u) \<longleftrightarrow> j \<in> set (members h u) \<and> j \<noteq> i" for j u
    using rt_ok_members(2) [OF assms(1)] c by auto
  have "rt_subscribers h' u = Some is \<Longrightarrow> is \<noteq> [] \<and> distinct is" for u "is"
    using assms(1) rt_ok_members(1) [OF assms(1)]
    by (auto simp: rt_ok_def h' distinct_removeAll split: if_splits)
  moreover have "j \<in> set (members h' u) \<longleftrightarrow>
      (\<exists>c. rt_clients h' j = Some c \<and> cl_user c = u \<and> cl_phase c \<noteq> Gone)" for j u
    using rt_ok_members(2) [OF assms(1), of j u] by (cases "j = i") (auto simp: in_members clients)
  moreover have "rt_clients h' j = Some c' \<Longrightarrow> length (cl_events c') \<le> events_capacity" for j c'
    using rt_ok_events [OF assms(1)] c(1) by (auto simp: clients split: if_splits)
  ultimately show ?thesis by (auto simp: rt_ok_def)
qed (use assms in \<open>auto split: option.splits if_splits intro!: rt_ok_update simp: leave_def\<close>)

lemma rt_ok_run: "rt_ok h \<Longrightarrow> rt_run es h = Some h' \<Longrightarrow> rt_ok h'"
  by (induction es arbitrary: h) (auto split: option.splits dest: rt_ok_step)

lemma rt_ok_new: "rt_ok new_rt_hub"
  by (simp add: rt_ok_def new_rt_hub_def members_def)

text \<open>A client that is closed or has left the loop stays so.\<close>

lemma client_stays:
  "rt_ok h \<Longrightarrow> rt_run es h = Some h' \<Longrightarrow> rt_clients h i = Some c \<Longrightarrow>
   \<exists>c'. rt_clients h' i = Some c' \<and> cl_user c' = cl_user c \<and>
     (cl_phase c' = Serving \<longrightarrow> cl_phase c = Serving) \<and> (cl_done c \<longrightarrow> cl_done c')"
proof (induction es arbitrary: h c)
  case (Cons e es)
  then obtain h1 where h1: "rt_step e h = Some h1" "rt_run es h1 = Some h'"
    by (auto split: option.splits)
  obtain c1 where c1: "rt_clients h1 i = Some c1" "client_step e i c c1"
    using rt_step_client [OF Cons.prems(1) h1(1) Cons.prems(3)] by blast
  show ?case
    using Cons.IH [OF rt_ok_step [OF Cons.prems(1) h1(1)] h1(2) c1(1)] c1(2)
    by (auto simp: client_step_def)
qed simp

subsection \<open>Properties\<close>

lemma published_Cons: "published u (e # es) = published u [e] @ published u es"
  by (cases e) (auto split: sum.split)

lemma published_append: "published u (ds @ es) = published u ds @ published u es"
proof (induction ds)
  case (Cons d ds)
  then show ?case using published_Cons [of u d ds] published_Cons [of u d "ds @ es"] by simp
qed simp

lemma rt_step_new:
  assumes "rt_ok g" "rt_step e g = Some g'" "rt_clients g i = None" "rt_clients g' i = Some b"
  shows "cl_written b @ cl_events b = []"
  using assms publish_clients(1) [OF assms(1)]
  by (cases e) (auto simp: new_client_def split: option.splits if_splits sum.splits)


definition sample_rt :: rt_hub where
  "sample_rt = add_subscriber ''alice'' 0
     (new_rt_hub\<lparr>rt_clients := [0 \<mapsto> new_client ''alice'']\<rparr>)"

definition sample_rt_run :: "rt_event list" where
  "sample_rt_run =
     [Connect ''bob'' 1, Publish ''alice'' ''message.new'' (Inr JNull),
      Publish ''bob'' ''message.new'' (Inr (JBool True)), TakeEvent 0 True,
      Publish ''alice'' ''message.updated'' (Inr JNull), TakeEvent 1 True, Ping 0 True]"

lemma sample_rt_ok: "rt_ok sample_rt"
  by (rule rt_ok_step [OF rt_ok_new, of "Connect ''alice'' 0"]) (simp add: sample_rt_def new_rt_hub_def)

lemma sample_rt_runs: "\<exists>h'. rt_run sample_rt_run sample_rt = Some h' \<and>
   rt_clients h' 0 = Some \<lparr>cl_user = ''alice'',
     cl_events = [empty_envelope\<lparr>env_version := Version, env_type := ''message.updated'', env_payload := Some JNull\<rparr>],
     cl_done = False, cl_active = True, cl_phase = Serving,
     cl_written = [empty_envelope\<lparr>env_version := Version, env_type := ''message.new'', env_payload := Some JNull\<rparr>]\<rparr>"
  by (simp add: sample_rt_run_def sample_rt_def new_rt_hub_def publish_def new_envelope_def
      members_def offer_def events_capacity_def new_client_def serving_def serve_event_def
      write_frame_def add_subscriber_def update_client_def)


text \<open>
  C37. Users are separated: along every run of the hub from its start, every frame on a connection is
  the acknowledgement of its own request or an event published to the user it was opened for.
\<close>

theorem realtime_isolated:
  assumes "rt_run es new_rt_hub = Some h" "rt_clients h i = Some c" "frame \<in> set (cl_written c)"
  shows "is_ack frame \<or> frame \<in> set (published (cl_user c) es)"
proof -
  have "rt_ok g \<Longrightarrow> rt_run es g = Some h \<Longrightarrow>
      (\<And>b. rt_clients g i = Some b \<Longrightarrow>
        set (cl_written b @ cl_events b) \<subseteq> Collect is_ack \<union> set (published (cl_user b) ds)) \<Longrightarrow>
      set (cl_written c @ cl_events c) \<subseteq> Collect is_ack \<union> set (published (cl_user c) (ds @ es))"
    for g ds
  proof (induction es arbitrary: g ds)
    case Nil
    then show ?case using assms(2) by simp
  next
    case (Cons e es)
    from Cons.prems(2) obtain g1 where g1: "rt_step e g = Some g1" "rt_run es g1 = Some h"
      by (auto split: option.splits)
    have "set (cl_written b @ cl_events b) \<subseteq> Collect is_ack \<union> set (published (cl_user b) (ds @ [e]))"
      if b: "rt_clients g1 i = Some b" for b
    proof (cases "rt_clients g i")
      case None
      then show ?thesis using rt_step_new [OF Cons.prems(1) g1(1) None b] by simp
    next
      case (Some a)
      then have "client_step e i a b" using rt_step_client [OF Cons.prems(1) g1(1) Some] b by simp
      then show ?thesis
        using Cons.prems(3) [OF Some] by (auto simp: client_step_def published_append)
    qed
    from Cons.IH [OF rt_ok_step [OF Cons.prems(1) g1(1)] g1(2) this] show ?case by simp
  qed
  from this [OF rt_ok_new assms(1), of "[]"] assms(3) show ?thesis
    by (auto simp: new_rt_hub_def)
qed

theorem realtime_isolated_witness:
  "\<exists>frame. (is_ack frame \<or> frame \<in> set (published ''alice'' (Connect ''alice'' 0 # sample_rt_run))) \<and>
    env_type frame = ''message.new''"
proof -
  obtain h' c' where run: "rt_run sample_rt_run sample_rt = Some h'" "rt_clients h' 0 = Some c'"
    "cl_user c' = ''alice''" and
    frame: "empty_envelope\<lparr>env_version := Version, env_type := ''message.new'', env_payload := Some JNull\<rparr>
      \<in> set (cl_written c')"
    using sample_rt_runs by auto
  have "rt_step (Connect ''alice'' 0) new_rt_hub = Some sample_rt"
    by (simp add: sample_rt_def new_rt_hub_def)
  then have "rt_run (Connect ''alice'' 0 # sample_rt_run) new_rt_hub = Some h'"
    using run(1) by simp
  from realtime_isolated [OF this run(2) frame] show ?thesis
    unfolding run(3) by (intro exI conjI) (assumption, simp)
qed

text \<open>
  The registry leaks nothing: along every run it holds exactly the connections that have not
  been removed, no user without connections has an entry in it, and no channel holds more than its
  64 events.
\<close>

theorem realtime_registry:
  assumes "rt_run es new_rt_hub = Some h"
  shows "(i \<in> set (members h u) \<longleftrightarrow>
      (\<exists>c. rt_clients h i = Some c \<and> cl_user c = u \<and> cl_phase c \<noteq> Gone)) \<and>
    (u \<in> dom (rt_subscribers h) \<longleftrightarrow>
      (\<exists>j c. rt_clients h j = Some c \<and> cl_user c = u \<and> cl_phase c \<noteq> Gone)) \<and>
    (rt_clients h i = Some c \<longrightarrow> length (cl_events c) \<le> 64)"
proof -
  have ok: "rt_ok h" by (rule rt_ok_run [OF rt_ok_new assms])
  have "u \<in> dom (rt_subscribers h) \<longleftrightarrow> members h u \<noteq> []"
    using ok by (auto simp: rt_ok_def members_def split: option.splits)
  also have "\<dots> \<longleftrightarrow> (\<exists>j. j \<in> set (members h u))" by (cases "members h u") auto
  finally show ?thesis
    using rt_ok_members(2) [OF ok] rt_ok_events [OF ok] by (auto simp: events_capacity_def)
qed

theorem realtime_registry_witness:
  "0 \<in> set (members sample_rt ''alice'') \<and> ''bob'' \<notin> dom (rt_subscribers sample_rt)"
proof -
  have "rt_run [Connect ''alice'' 0] new_rt_hub = Some sample_rt"
    by (simp add: sample_rt_def new_rt_hub_def)
  note realtime_registry [OF this]
  from this [of 0 "''alice''"] this [of 0 "''bob''"] show ?thesis
    by (auto simp: sample_rt_def new_client_def split: if_splits)
qed

end
