(* ===== verification/MemoryStore.thy ===== *)
theory MemoryStore
  imports AccountStore
begin

section \<open>The in-memory account store\<close>

text \<open>
  \<open>gateway.Store\<close> of \<^verbatim>\<open>internal/gateway/store.go\<close>: three Go maps under one lock, so every method is
  one atomic step of the state \<open>mem_store\<close>. The parameter \<open>sha\<close> of the operations is
  \<open>sha256.Sum256\<close>. A Go map is iterated in an unspecified order: \<open>list_accounts\<close> takes that order as
  its argument. The theory interprets \<open>account_store_laws\<close> on these operations.
\<close>

record 'h mem_store =
  ms_accounts :: "string \<rightharpoonup> account"
  ms_enrollments :: "'h \<rightharpoonup> string"
  ms_credentials :: "'h \<rightharpoonup> string"

definition new_store :: "'h mem_store" where
  "new_store = \<lparr>ms_accounts = Map.empty, ms_enrollments = Map.empty,
     ms_credentials = Map.empty\<rparr>"

definition enrollment_lifetime :: time where
  "enrollment_lifetime = 10 * minute"

definition mem_create ::
  "(string \<Rightarrow> 'h) \<Rightarrow> env \<Rightarrow> string \<Rightarrow> string \<Rightarrow> string \<Rightarrow>
   ('h mem_store, account \<times> string) store_op" where
  "mem_create sha e user platform name s =
     (if platform \<noteq> ''signal'' \<and> platform \<noteq> ''telegram'' then
        (Inl (NewError ''platform must be signal or telegram''), s)
      else
        (case attempt (random_value e 0 ''acc_'' 16) (\<lambda>account_id.
              attempt (random_value e 1 ''say_enroll_'' 32) (\<lambda>enrollment.
              Inr (account_id, enrollment))) of
           Inl err \<Rightarrow> (Inl err, s)
         | Inr (account_id, enrollment) \<Rightarrow>
             let account = \<lparr>acc_id = account_id, acc_user_id = user, acc_platform = platform,
                   acc_external_id = [], acc_display_name = name, acc_status = ''unlinked'',
                   acc_hosting_mode = ''self_hosted'', acc_worker_id = [], acc_generation = 0,
                   acc_last_seen_at = None, acc_created_at = clock e,
                   acc_enrollment_end = clock e + enrollment_lifetime\<rparr>
             in (Inr (account, enrollment),
                 s\<lparr>ms_accounts := (ms_accounts s)(acc_id account \<mapsto> account),
                   ms_enrollments := (ms_enrollments s)(sha enrollment \<mapsto> acc_id account)\<rparr>)))"

text \<open>
  \<open>ks\<close> enumerates the map's keys in iteration order. \<open>sort.Slice\<close> is not stable, but every order
  it may leave equal times in is reached by some \<open>ks\<close>.
\<close>

definition mem_list :: "string list \<Rightarrow> env \<Rightarrow> string \<Rightarrow> 'h mem_store \<Rightarrow> go_error + account list" where
  "mem_list ks e user s =
     Inr (sort_key acc_created_at
       (filter (\<lambda>account. acc_user_id account = user) (List.map_filter (ms_accounts s) ks)))"

definition mem_get :: "env \<Rightarrow> string \<Rightarrow> string \<Rightarrow> 'h mem_store \<Rightarrow> go_error + account" where
  "mem_get e user a s =
     (case ms_accounts s a of
        None \<Rightarrow> Inl ErrNotFound
      | Some account \<Rightarrow> if acc_user_id account \<noteq> user then Inl ErrNotFound else Inr account)"

text \<open>The two loops of \<open>DeleteAccount\<close> drop every token that maps to the account.\<close>

definition drop_tokens :: "string \<Rightarrow> ('h \<rightharpoonup> string) \<Rightarrow> ('h \<rightharpoonup> string)" where
  "drop_tokens a m = (\<lambda>h. if m h = Some a then None else m h)"

definition mem_delete :: "env \<Rightarrow> string \<Rightarrow> string \<Rightarrow> ('h mem_store, unit) store_op" where
  "mem_delete e user a s =
     (case ms_accounts s a of
        None \<Rightarrow> (Inl ErrNotFound, s)
      | Some account \<Rightarrow>
          if acc_user_id account \<noteq> user then (Inl ErrNotFound, s)
          else (Inr (),
            \<lparr>ms_accounts = (ms_accounts s)(a := None),
             ms_enrollments = drop_tokens a (ms_enrollments s),
             ms_credentials = drop_tokens a (ms_credentials s)\<rparr>))"

definition mem_auth ::
  "(string \<Rightarrow> 'h) \<Rightarrow> env \<Rightarrow> string \<Rightarrow> string \<Rightarrow> ('h mem_store, worker_auth) store_op" where
  "mem_auth sha e token platform s =
     (case ms_credentials s (sha token) of
        Some a \<Rightarrow>
          (case ms_accounts s a of
             None \<Rightarrow> (Inl ErrInvalidToken, s)
           | Some account \<Rightarrow>
               if acc_platform account \<noteq> platform then (Inl ErrPlatformMismatch, s)
               else (Inr \<lparr>wa_account = account, wa_credential = []\<rparr>, s))
      | None \<Rightarrow>
          (case ms_enrollments s (sha token) of
             None \<Rightarrow> (Inl ErrInvalidToken, s)
           | Some a \<Rightarrow>
               (let dropped = s\<lparr>ms_enrollments := (ms_enrollments s)(sha token := None)\<rparr> in
                case ms_accounts s a of
                  None \<Rightarrow> (Inl ErrInvalidToken, dropped)
                | Some account \<Rightarrow>
                    if clock e > acc_enrollment_end account then (Inl ErrExpiredToken, dropped)
                    else if acc_platform account \<noteq> platform then (Inl ErrPlatformMismatch, s)
                    else
                      (case attempt (random_value e 0 ''say_worker_'' 32) (\<lambda>credential.
                            attempt (random_value e 1 ''wrk_'' 16) (\<lambda>worker_id.
                            Inr (credential, worker_id))) of
                         Inl err \<Rightarrow> (Inl err, s)
                       | Inr (credential, worker_id) \<Rightarrow>
                           let account' = account\<lparr>acc_worker_id := worker_id,
                                 acc_generation := acc_generation account + 1,
                                 acc_status := ''offline'', acc_enrollment_end := zero_time\<rparr>
                           in (Inr \<lparr>wa_account = account', wa_credential = credential\<rparr>,
                               \<lparr>ms_accounts = (ms_accounts s)(a \<mapsto> account'),
                                ms_enrollments = (ms_enrollments s)(sha token := None),
                                ms_credentials =
                                  (ms_credentials s)(sha credential \<mapsto> a)\<rparr>)))))"

text \<open>The guard the three worker writes share, and their updates.\<close>

definition mem_write ::
  "string \<Rightarrow> 64 word \<Rightarrow> (account \<Rightarrow> account) \<Rightarrow> ('h mem_store, unit) store_op" where
  "mem_write a generation f s =
     (case ms_accounts s a of
        None \<Rightarrow> (Inr (), s)
      | Some account \<Rightarrow>
          if acc_generation account \<noteq> generation then (Inr (), s)
          else (Inr (), s\<lparr>ms_accounts := (ms_accounts s)(a \<mapsto> f account)\<rparr>))"

definition mem_set_status ::
  "env \<Rightarrow> string \<Rightarrow> 64 word \<Rightarrow> string \<Rightarrow> ('h mem_store, unit) store_op" where
  "mem_set_status e a generation status =
     mem_write a generation
       (\<lambda>account. account\<lparr>acc_status := status, acc_last_seen_at := Some (clock e)\<rparr>)"

definition mem_touch :: "env \<Rightarrow> string \<Rightarrow> 64 word \<Rightarrow> ('h mem_store, unit) store_op" where
  "mem_touch e a generation =
     mem_write a generation (\<lambda>account. account\<lparr>acc_last_seen_at := Some (clock e)\<rparr>)"

definition mem_set_identity ::
  "env \<Rightarrow> string \<Rightarrow> 64 word \<Rightarrow> string \<Rightarrow> string \<Rightarrow> ('h mem_store, unit) store_op" where
  "mem_set_identity e a generation status external_id =
     mem_write a generation
       (\<lambda>account. account\<lparr>acc_status := status, acc_external_id := external_id,
          acc_last_seen_at := Some (clock e)\<rparr>)"

definition memory_store ::
  "(string \<Rightarrow> 'h) \<Rightarrow> string list \<Rightarrow> 'h mem_store account_store" where
  "memory_store sha ks = \<lparr>store_create = mem_create sha, store_list = mem_list ks,
     store_get = mem_get, store_delete = mem_delete, store_auth = mem_auth sha,
     store_set_status = mem_set_status, store_set_identity = mem_set_identity,
     store_touch = mem_touch\<rparr>"


subsection \<open>The store's invariant\<close>

text \<open>
  Every account is filed under its own id; a pending enrollment belongs to an account that has
  never been enrolled (generation 0), a credential to one that has (generation 1); no token is both;
  an account has at most one of each.
\<close>

definition generation_of :: "'h mem_store \<Rightarrow> string \<Rightarrow> 64 word option" where
  "generation_of s a = map_option acc_generation (ms_accounts s a)"

definition at_most_one :: "('h \<rightharpoonup> string) \<Rightarrow> bool" where
  "at_most_one m \<longleftrightarrow> (\<forall>h h' a. m h = Some a \<longrightarrow> m h' = Some a \<longrightarrow> h = h')"

definition mem_ok :: "'h mem_store \<Rightarrow> bool" where
  "mem_ok s \<longleftrightarrow>
     (\<forall>a acc. ms_accounts s a = Some acc \<longrightarrow> acc_id acc = a \<and> acc_generation acc \<in> {0, 1}) \<and>
     (\<forall>h a. ms_enrollments s h = Some a \<longrightarrow>
        generation_of s a = Some 0 \<and> ms_credentials s h = None) \<and>
     (\<forall>h a. ms_credentials s h = Some a \<longrightarrow> generation_of s a = Some 1) \<and>
     at_most_one (ms_enrollments s) \<and> at_most_one (ms_credentials s)"

text \<open>The drawn account id and the hash of the drawn token are not in use.\<close>

definition new_token :: "(string \<Rightarrow> 'h) \<Rightarrow> 'h mem_store \<Rightarrow> go_error + string \<Rightarrow> bool" where
  "new_token sha s r =
     (case r of
        Inl _ \<Rightarrow> True
      | Inr t \<Rightarrow> ms_enrollments s (sha t) = None \<and> ms_credentials s (sha t) = None)"

definition mem_fresh :: "(string \<Rightarrow> 'h) \<Rightarrow> env \<Rightarrow> store_call \<Rightarrow> 'h mem_store \<Rightarrow> bool" where
  "mem_fresh sha e c s =
     (case c of
        Create u p n \<Rightarrow>
          (case random_value e 0 ''acc_'' 16 of
             Inl _ \<Rightarrow> True | Inr a \<Rightarrow> ms_accounts s a = None) \<and>
          new_token sha s (random_value e 1 ''say_enroll_'' 32)
      | Auth t p \<Rightarrow> new_token sha s (random_value e 0 ''say_worker_'' 32)
      | _ \<Rightarrow> True)"

lemma mem_ok_accountD:
  "mem_ok s \<Longrightarrow> ms_accounts s a = Some acc \<Longrightarrow> acc_id acc = a \<and> acc_generation acc \<in> {0, 1}"
  unfolding mem_ok_def by blast

lemma mem_ok_enrollmentD:
  "mem_ok s \<Longrightarrow> ms_enrollments s h = Some a \<Longrightarrow>
   generation_of s a = Some 0 \<and> ms_credentials s h = None"
  unfolding mem_ok_def by blast

lemma mem_ok_credentialD:
  "mem_ok s \<Longrightarrow> ms_credentials s h = Some a \<Longrightarrow> generation_of s a = Some 1"
  unfolding mem_ok_def by blast

lemma mem_ok_onceD:
  "mem_ok s \<Longrightarrow> at_most_one (ms_enrollments s) \<and> at_most_one (ms_credentials s)"
  unfolding mem_ok_def by blast

lemma mem_okI:
  assumes "\<And>a acc. ms_accounts s a = Some acc \<Longrightarrow> acc_id acc = a \<and> acc_generation acc \<in> {0, 1}"
    and "\<And>h a. ms_enrollments s h = Some a \<Longrightarrow> generation_of s a = Some 0"
    and "\<And>h a. ms_enrollments s h = Some a \<Longrightarrow> ms_credentials s h = None"
    and "\<And>h a. ms_credentials s h = Some a \<Longrightarrow> generation_of s a = Some 1"
    and "at_most_one (ms_enrollments s)" and "at_most_one (ms_credentials s)"
  shows "mem_ok s"
  unfolding mem_ok_def using assms by blast

lemma at_most_one_drop: "at_most_one m \<Longrightarrow> at_most_one (m(h := None))"
  by (auto simp: at_most_one_def)

lemma at_most_one_drop_tokens: "at_most_one m \<Longrightarrow> at_most_one (drop_tokens a m)"
  by (auto simp: at_most_one_def drop_tokens_def split: if_splits)

lemma at_most_one_insert:
  assumes "at_most_one m" "\<And>h'. m h' \<noteq> Some a"
  shows "at_most_one (m(h \<mapsto> a))"
  using assms unfolding at_most_one_def by (metis fun_upd_apply option.inject)

lemma at_most_oneD: "at_most_one m \<Longrightarrow> m h = Some a \<Longrightarrow> m h' = Some a \<Longrightarrow> h = h'"
  unfolding at_most_one_def by blast

lemma mem_ok_new_store: "mem_ok new_store"
  by (simp add: mem_ok_def new_store_def at_most_one_def)

lemma mem_ok_write:
  assumes ok: "mem_ok s"
    and f: "\<And>acc. acc_id (f acc) = acc_id acc \<and> acc_generation (f acc) = acc_generation acc"
  shows "mem_ok (snd (mem_write a g f s))"
proof (rule mem_okI)
  have gen: "generation_of (snd (mem_write a g f s)) b = generation_of s b" for b
    using f by (auto simp: mem_write_def generation_of_def split: option.split)
  have same: "ms_enrollments (snd (mem_write a g f s)) = ms_enrollments s"
    "ms_credentials (snd (mem_write a g f s)) = ms_credentials s"
    by (auto simp: mem_write_def split: option.split)
  show "acc_id acc = b \<and> acc_generation acc \<in> {0, 1}"
    if "ms_accounts (snd (mem_write a g f s)) b = Some acc" for b acc
    using that f mem_ok_accountD [OF ok]
    by (fastforce simp: mem_write_def split: option.splits if_splits)
qed (use ok in \<open>auto simp: mem_write_def generation_of_def f dest: mem_ok_enrollmentD
      mem_ok_credentialD mem_ok_onceD split: option.splits if_splits\<close>)

lemma mem_ok_delete:
  assumes ok: "mem_ok s"
  shows "mem_ok (snd (mem_delete e u a s))"
proof -
  have "mem_ok \<lparr>ms_accounts = (ms_accounts s)(a := None),
      ms_enrollments = drop_tokens a (ms_enrollments s),
      ms_credentials = drop_tokens a (ms_credentials s)\<rparr>" (is "mem_ok ?t")
    using mem_ok_accountD [OF ok] mem_ok_enrollmentD [OF ok] mem_ok_credentialD [OF ok]
      mem_ok_onceD [OF ok]
    by (intro mem_okI)
      (auto simp: drop_tokens_def [of a] generation_of_def
        at_most_one_drop_tokens [unfolded drop_tokens_def] split: if_splits)
  with ok show ?thesis by (auto simp: mem_delete_def split: option.split)
qed

lemma mem_create_cases:
  obtains (Fail) err where "mem_create sha e u p n s = (Inl err, s)"
  | (Done) a t acc where
    "random_value e 0 ''acc_'' 16 = Inr a" "random_value e 1 ''say_enroll_'' 32 = Inr t"
    "p = ''signal'' \<or> p = ''telegram''"
    "acc_id acc = a" "acc_generation acc = 0" "acc_user_id acc = u" "acc_platform acc = p"
    "mem_create sha e u p n s = (Inr (acc, t),
       s\<lparr>ms_accounts := (ms_accounts s)(a \<mapsto> acc),
         ms_enrollments := (ms_enrollments s)(sha t \<mapsto> a)\<rparr>)"
  by (cases "random_value e 0 ''acc_'' 16"; cases "random_value e 1 ''say_enroll_'' 32";
      cases "p = ''signal'' \<or> p = ''telegram''")
    (auto simp: mem_create_def Let_def)

lemma mem_auth_cases:
  obtains (Fail) err where "mem_auth sha e t p s = (Inl err, s)"
  | (Dropped) err where "ms_credentials s (sha t) = None"
    "mem_auth sha e t p s =
       (Inl err, s\<lparr>ms_enrollments := (ms_enrollments s)(sha t := None)\<rparr>)"
  | (Known) a acc where "ms_credentials s (sha t) = Some a" "ms_accounts s a = Some acc"
    "acc_platform acc = p"
    "mem_auth sha e t p s = (Inr \<lparr>wa_account = acc, wa_credential = []\<rparr>, s)"
  | (Enrolled) a acc c w where "ms_credentials s (sha t) = None"
    "ms_enrollments s (sha t) = Some a" "ms_accounts s a = Some acc" "acc_platform acc = p"
    "clock e \<le> acc_enrollment_end acc"
    "random_value e 0 ''say_worker_'' 32 = Inr c" "random_value e 1 ''wrk_'' 16 = Inr w"
    "mem_auth sha e t p s =
       (Inr \<lparr>wa_account = acc\<lparr>acc_worker_id := w, acc_generation := acc_generation acc + 1,
               acc_status := ''offline'', acc_enrollment_end := zero_time\<rparr>, wa_credential = c\<rparr>,
        \<lparr>ms_accounts = (ms_accounts s)(a \<mapsto> acc\<lparr>acc_worker_id := w,
               acc_generation := acc_generation acc + 1,
               acc_status := ''offline'', acc_enrollment_end := zero_time\<rparr>),
         ms_enrollments = (ms_enrollments s)(sha t := None),
         ms_credentials = (ms_credentials s)(sha c \<mapsto> a)\<rparr>)"
proof (cases "ms_credentials s (sha t)")
  case (Some a)
  show thesis
  proof (cases "ms_accounts s a")
    case None
    with Some show thesis by (intro that(1)) (simp add: mem_auth_def)
  next
    fix acc
    assume acc: "ms_accounts s a = Some acc"
    with Some that(1,3) show thesis
      by (cases "acc_platform acc = p") (simp_all add: mem_auth_def)
  qed
next
  case None
  show thesis
  proof (cases "ms_enrollments s (sha t)")
    case None
    with \<open>ms_credentials s (sha t) = None\<close> show thesis
      by (intro that(1)) (simp add: mem_auth_def)
  next
    case (Some a)
    note enrolled = \<open>ms_credentials s (sha t) = None\<close> Some
    show thesis
    proof (cases "ms_accounts s a")
      case None
      with enrolled show thesis by (intro that(2)) (simp_all add: mem_auth_def)
    next
      case (Some acc)
      note facts = enrolled Some
      show thesis
      proof (cases "clock e > acc_enrollment_end acc")
        case True
        with facts show thesis by (intro that(2)) (simp_all add: mem_auth_def)
      next
        case False
        show thesis
        proof (cases "acc_platform acc = p")
          case True
          note facts = facts True \<open>\<not> clock e > acc_enrollment_end acc\<close>
          show thesis
          proof (cases "\<exists>c w. random_value e 0 ''say_worker_'' 32 = Inr c \<and>
              random_value e 1 ''wrk_'' 16 = Inr w")
            case True
            then obtain c w where "random_value e 0 ''say_worker_'' 32 = Inr c"
              "random_value e 1 ''wrk_'' 16 = Inr w" by blast
            with facts show thesis
              by (intro that(4) [of a acc c w]) (simp_all add: mem_auth_def Let_def)
          next
            case False
            then obtain err where "attempt (random_value e 0 ''say_worker_'' 32) (\<lambda>c.
                attempt (random_value e 1 ''wrk_'' 16) (\<lambda>w. Inr (c, w))) = Inl err"
              by (cases "random_value e 0 ''say_worker_'' 32";
                  cases "random_value e 1 ''wrk_'' 16") auto
            with facts show thesis by (intro that(1)) (simp add: mem_auth_def)
          qed
        next
          case False
          with facts \<open>\<not> clock e > acc_enrollment_end acc\<close> show thesis
            by (intro that(1)) (simp add: mem_auth_def)
        qed
      qed
    qed
  qed
qed

lemma mem_ok_create:
  assumes ok: "mem_ok s" and fresh: "mem_fresh sha e (Create u p n) s"
  shows "mem_ok (snd (mem_create sha e u p n s))"
proof (cases sha e u p n s rule: mem_create_cases)
  case (Done a t acc)
  with fresh have new: "ms_accounts s a = None" "ms_enrollments s (sha t) = None"
    "ms_credentials s (sha t) = None"
    by (simp_all add: mem_fresh_def new_token_def)
  have unused: "ms_enrollments s h \<noteq> Some a" "ms_credentials s h \<noteq> Some a" for h
    using new(1) mem_ok_enrollmentD [OF ok] mem_ok_credentialD [OF ok]
    by (fastforce simp: generation_of_def)+
  have "mem_ok (s\<lparr>ms_accounts := (ms_accounts s)(a \<mapsto> acc),
      ms_enrollments := (ms_enrollments s)(sha t \<mapsto> a)\<rparr>)"
    using mem_ok_accountD [OF ok] mem_ok_enrollmentD [OF ok] mem_ok_credentialD [OF ok]
      mem_ok_onceD [OF ok] new unused Done(4,5)
    by (intro mem_okI) (auto simp: generation_of_def at_most_one_insert split: if_splits)
  with Done show ?thesis by simp
qed (use ok in simp)

lemma mem_ok_auth:
  assumes ok: "mem_ok s" and fresh: "mem_fresh sha e (Auth t p) s"
  shows "mem_ok (snd (mem_auth sha e t p s))"
proof (cases sha e t p s rule: mem_auth_cases)
  case Dropped
  have "mem_ok (s\<lparr>ms_enrollments := (ms_enrollments s)(sha t := None)\<rparr>)"
    using mem_ok_accountD [OF ok] mem_ok_enrollmentD [OF ok] mem_ok_credentialD [OF ok]
      mem_ok_onceD [OF ok]
    by (intro mem_okI) (auto simp: generation_of_def at_most_one_drop split: if_splits)
  with Dropped show ?thesis by simp
next
  case (Enrolled a acc c w)
  with fresh have new: "ms_enrollments s (sha c) = None" "ms_credentials s (sha c) = None"
    by (simp_all add: mem_fresh_def new_token_def)
  have gen: "acc_generation acc = 0" "acc_id acc = a"
    using mem_ok_enrollmentD [OF ok Enrolled(2)] mem_ok_accountD [OF ok Enrolled(3)] Enrolled(3)
    by (auto simp: generation_of_def)
  have unused: "ms_credentials s h \<noteq> Some a" for h
    using mem_ok_credentialD [OF ok] Enrolled(3) gen by (fastforce simp: generation_of_def)
  have only: "ms_enrollments s h = Some a \<Longrightarrow> h = sha t" for h
    using mem_ok_onceD [OF ok] Enrolled(2) by (blast dest: at_most_oneD)
  show ?thesis
    unfolding Enrolled(8) snd_conv
    using mem_ok_accountD [OF ok] mem_ok_enrollmentD [OF ok] mem_ok_credentialD [OF ok]
      mem_ok_onceD [OF ok] new unused only gen
    by (intro mem_okI)
      (auto simp: generation_of_def at_most_one_insert at_most_one_drop split: if_splits)
qed (use ok in simp_all)

lemmas mem_write_defs = mem_set_status_def mem_set_identity_def mem_touch_def


subsection \<open>The interface\<close>

lemma mem_ok_step:
  assumes "mem_ok s" "mem_fresh sha e c s"
  shows "mem_ok (run_call (memory_store sha ks) e c s)"
  using assms
  by (cases c)
    (simp_all add: memory_store_def mem_write_defs mem_ok_write mem_ok_delete mem_ok_create
      mem_ok_auth)

lemma mem_write_call:
  assumes "write_target c = Some (a, g)"
  obtains f where "run_call (memory_store sha ks) e c s = snd (mem_write a g f s)"
    "\<And>acc. same_identity acc (f acc)" "\<And>acc. same_worker acc (f acc)"
proof (cases c)
  case (SetStatus b g' st)
  with assms that show thesis
    by (auto simp: memory_store_def mem_set_status_def same_identity_def same_worker_def)
next
  case (SetIdentity b g' st x)
  with assms that show thesis
    by (auto simp: memory_store_def mem_set_identity_def same_identity_def same_worker_def)
next
  case (Touch b g')
  with assms that show thesis
    by (auto simp: memory_store_def mem_touch_def same_identity_def same_worker_def)
qed (use assms in simp_all)

lemma mem_write_view:
  "ms_accounts (snd (mem_write a g f s)) b =
   (case ms_accounts s b of
      None \<Rightarrow> None
    | Some acc \<Rightarrow> Some (if b = a \<and> acc_generation acc = g then f acc else acc))"
  by (auto simp: mem_write_def split: option.split)

text \<open>Redeeming an enrollment token: the account's next generation, a credential that works, and a
  token that does not any more.\<close>

lemma mem_auth_enrolled:
  assumes ok: "mem_ok s" and fresh: "mem_fresh sha e (Auth t p) s"
    and auth: "mem_auth sha e t p s = (Inr w, s')" and cred: "wa_credential w \<noteq> []"
  shows "mem_auth sha e' t q s' = (Inl ErrInvalidToken, s')"
    and "mem_auth sha e' (wa_credential w) p s' =
      (Inr \<lparr>wa_account = wa_account w, wa_credential = []\<rparr>, s')"
proof -
  show "mem_auth sha e' t q s' = (Inl ErrInvalidToken, s')"
  proof (cases sha e t p s rule: mem_auth_cases)
    case (Enrolled a acc c v)
    with fresh have "sha c \<noteq> sha t" by (auto simp: mem_fresh_def new_token_def)
    moreover have "ms_credentials s (sha t) = None"
      using mem_ok_enrollmentD [OF ok] Enrolled by blast
    ultimately show ?thesis using auth Enrolled by (auto simp: mem_auth_def)
  qed (use auth cred in auto)
  show "mem_auth sha e' (wa_credential w) p s' =
      (Inr \<lparr>wa_account = wa_account w, wa_credential = []\<rparr>, s')"
  proof (cases sha e t p s rule: mem_auth_cases)
    case (Enrolled a acc c v)
    with auth show ?thesis by (auto simp: mem_auth_def)
  qed (use auth cred in auto)
qed

lemma mem_auth_frame:
  assumes ok: "mem_ok s" and acc: "ms_accounts s a = Some acc"
  shows "ms_accounts (snd (mem_auth sha e t p s)) a = Some acc \<or>
    (\<exists>acc'. ms_accounts (snd (mem_auth sha e t p s)) a = Some acc' \<and> same_identity acc acc' \<and>
       acc_generation acc = 0 \<and> acc_generation acc' = 1)"
proof (cases sha e t p s rule: mem_auth_cases)
  case (Enrolled b acc' c v)
  with mem_ok_enrollmentD [OF ok, of "sha t" b] acc show ?thesis
    by (auto simp: generation_of_def same_identity_def)
qed (use acc in simp_all)

lemma mem_auth_view:
  assumes ok: "mem_ok s" and auth: "mem_auth sha e t p s = (Inr w, s')"
  shows "ms_accounts s' (acc_id (wa_account w)) = Some (wa_account w) \<and>
         acc_platform (wa_account w) = p"
proof (cases sha e t p s rule: mem_auth_cases)
  case (Known a acc)
  with auth mem_ok_accountD [OF ok, of a acc] show ?thesis by auto
next
  case (Enrolled b acc' c v)
  with auth mem_ok_accountD [OF ok, of b acc'] show ?thesis by auto
qed (use auth in auto)

interpretation mem: account_store_laws "memory_store sha ks" ms_accounts mem_ok "mem_fresh sha"
  for sha ks
proof (unfold_locales, goal_cases)
  case (1 s e c)
  then show ?case by (rule mem_ok_step)
next
  case (2 s a acc)
  then show ?case by (blast dest: mem_ok_accountD)
next
  case (3 s e u a acc)
  then show ?case by (auto simp: memory_store_def mem_get_def split: option.splits if_splits)
next
  case (4 s e a u)
  then show ?case by (auto simp: memory_store_def mem_get_def split: option.splits)
next
  case (5 s e u p n a acc)
  then show ?case
    by (cases sha e u p n s rule: mem_create_cases)
      (auto simp: memory_store_def mem_fresh_def)
next
  case (6 s b acc a u e)
  then show ?case by (auto simp: memory_store_def mem_delete_def split: option.split)
next
  case (7 s c a g b e)
  then show ?case
    by (elim mem_write_call [where sha = sha and ks = ks and e = e and s = s])
      (auto simp: mem_write_view split: option.split)
next
  case (8 s c a g acc e)
  then show ?case
    by (elim mem_write_call [where sha = sha and ks = ks and e = e and s = s])
      (auto simp: mem_write_view)
next
  case (9 s e t p w s')
  then show ?case by (auto simp: memory_store_def dest: mem_auth_view)
next
  case (10 s e t p a acc)
  then show ?case using mem_auth_frame by (simp add: memory_store_def)
next
  case (11 s e t p w s' e' q)
  then show ?case by (simp add: memory_store_def mem_auth_enrolled(1))
next
  case (12 s e t p w s' e')
  then show ?case by (simp add: memory_store_def mem_auth_enrolled(2))
qed

subsection \<open>Properties\<close>

definition sample_member :: account where
  "sample_member = \<lparr>acc_id = ''acc-1'', acc_user_id = ''alice'', acc_platform = ''signal'',
     acc_external_id = [], acc_display_name = ''Phone'', acc_status = ''unlinked'',
     acc_hosting_mode = ''self_hosted'', acc_worker_id = [], acc_generation = 0,
     acc_last_seen_at = None, acc_created_at = minute, acc_enrollment_end = 11 * minute\<rparr>"

definition sample_store :: "string mem_store" where
  "sample_store = \<lparr>ms_accounts = [''acc-1'' \<mapsto> sample_member],
     ms_enrollments = [''say_enroll-1'' \<mapsto> ''acc-1''], ms_credentials = Map.empty\<rparr>"

lemma sample_store_ok: "mem_ok sample_store"
  by (rule mem_okI) (auto simp: sample_store_def sample_member_def generation_of_def at_most_one_def
      split: if_splits)

lemma sample_store_fresh: "mem_fresh id e (Auth t p) sample_store"
  by (auto simp: mem_fresh_def new_token_def sample_store_def random_value_def
      split: sum.split option.splits)

lemma sample_store_auth:
  "\<exists>w s'. mem_auth id (sample_env minute) ''say_enroll-1'' ''signal'' sample_store = (Inr w, s') \<and>
     wa_credential w \<noteq> []"
  by (simp add: mem_auth_def sample_store_def sample_member_def minute_def second_def Let_def)

text \<open>
  The in-memory store keeps the same contract: a redeemed enrollment token is refused from then
  on, and the credential it was exchanged for authenticates as the activated account.
\<close>

theorem mem_enrollment_once:
  assumes "mem_ok s" "mem_fresh sha e (Auth t p) s" "mem_auth sha e t p s = (Inr w, s')"
    and "wa_credential w \<noteq> []"
  shows "mem_auth sha e' t q s' = (Inl ErrInvalidToken, s') \<and>
    mem_auth sha e' (wa_credential w) p s' =
      (Inr \<lparr>wa_account = wa_account w, wa_credential = []\<rparr>, s')"
  using mem_auth_enrolled [OF assms] by simp

theorem mem_enrollment_once_witness:
  "\<exists>w s'. mem_auth id (sample_env minute) ''say_enroll-1'' ''signal'' sample_store = (Inr w, s') \<and>
     mem_auth id (sample_env 0) ''say_enroll-1'' ''signal'' s' = (Inl ErrInvalidToken, s')"
proof -
  obtain w s' where w: "mem_auth id (sample_env minute) ''say_enroll-1'' ''signal'' sample_store =
      (Inr w, s')" "wa_credential w \<noteq> []"
    using sample_store_auth by blast
  with mem_enrollment_once [OF sample_store_ok sample_store_fresh w] show ?thesis by simp
qed

text \<open>
  The in-memory store, along any sequence of calls in which the account itself is not deleted:
  the account stays, with its id, owner, platform, display name, hosting mode and creation time, and
  its generation never decreases.
\<close>

theorem mem_account_stable:
  assumes "mem_ok s" "all_fresh (memory_store sha ks) (mem_fresh sha) cs s"
    and "ms_accounts s a = Some acc" "\<And>e u. (e, Delete u a) \<notin> set cs"
  shows "\<exists>acc'. ms_accounts (run_calls (memory_store sha ks) cs s) a = Some acc' \<and>
    same_identity acc acc' \<and> unat (acc_generation acc) \<le> unat (acc_generation acc')"
  using mem.calls_identity assms by blast

theorem mem_account_stable_witness:
  "\<exists>acc'. ms_accounts (run_calls (memory_store id [])
       [(sample_env minute, Auth ''say_enroll-1'' ''signal''),
        (sample_env minute, SetStatus ''acc-1'' 1 ''live'')] sample_store) ''acc-1'' = Some acc' \<and>
     same_identity sample_member acc'"
proof -
  let ?cs = "[(sample_env minute, Auth ''say_enroll-1'' ''signal''),
        (sample_env minute, SetStatus ''acc-1'' 1 ''live'')]"
  have "all_fresh (memory_store id []) (mem_fresh id) ?cs sample_store"
    by (simp add: sample_store_fresh) (simp add: mem_fresh_def)
  then show ?thesis
    using mem_account_stable [OF sample_store_ok, of id "[]" ?cs "''acc-1''" sample_member]
    by (auto simp: sample_store_def)
qed

end
