(* ===== verification/GatewayHub.thy ===== *)
theory GatewayHub
  imports MemoryStore
begin

section \<open>The worker gateway\<close>

text \<open>
  \<^verbatim>\<open>internal/gateway/hub.go\<close>: the hub holds one connection per account to the worker that runs it,
  forwards commands to it and receives its events. A \<open>connection\<close> is a call of \<open>ServeWorker\<close>; its
  phase says which statement comes next. The account store and the event handler are arguments, over
  a shared state \<open>'s\<close>, as they are fields of the Go struct. Every step names a connection or a
  request, so a run is an interleaving of any number of them; a frame is handled in one step, the
  deferred \<open>unregister\<close> in two, because it writes the store after it has released the lock.
\<close>

datatype conn_phase = Authenticated | Registered | Welcomed | Open | Leaving | Departed | Closed

text \<open>
  \<open>cn_pending\<close> maps a command id to its response channel, of capacity one; \<open>cn_closed\<close> is the channel
  \<open>closed\<close>; \<open>cn_dead\<close> tells that \<open>Disconnect\<close> has closed the socket; \<open>cn_written\<close> are the frames sent.
\<close>

record connection =
  cn_auth :: worker_auth
  cn_phase :: conn_phase
  cn_pending :: "string \<rightharpoonup> envelope option"
  cn_closed :: bool
  cn_dead :: bool
  cn_written :: "envelope list"

type_synonym reply = "go_error + json option"

text \<open>
  A call of \<open>Request\<close>: the command and the connection it was written to, if it got that far, and the
  result, once it has returned.
\<close>

record request =
  rq_account_id :: string
  rq_sent :: "(nat \<times> envelope) option"
  rq_reply :: "reply option"

record 's gateway =
  g_workers :: "string \<rightharpoonup> nat"
  g_conns :: "nat \<rightharpoonup> connection"
  g_requests :: "nat \<rightharpoonup> request"
  g_state :: 's

definition cn_account_id :: "connection \<Rightarrow> string" where
  "cn_account_id c = acc_id (wa_account (cn_auth c))"

definition cn_generation :: "connection \<Rightarrow> 64 word" where
  "cn_generation c = acc_generation (wa_account (cn_auth c))"

definition set_phase :: "conn_phase \<Rightarrow> connection \<Rightarrow> connection" where
  "set_phase p c = c\<lparr>cn_phase := p\<rparr>"

definition update_conn :: "nat \<Rightarrow> (connection \<Rightarrow> connection) \<Rightarrow> 's gateway \<Rightarrow> 's gateway" where
  "update_conn i f g = g\<lparr>g_conns := (g_conns g)(i := map_option f (g_conns g i))\<rparr>"

subsection \<open>Handshake\<close>

text \<open>The hello frame; \<open>None\<close> is a failed read, \<open>Inl\<close> the error frame that is sent back.\<close>

definition read_hello :: "envelope option \<Rightarrow> (string \<times> string) + hello" where
  "read_hello frame =
     (case frame of
        None \<Rightarrow> Inl (''invalid_hello'', ''failed to read worker hello'')
      | Some envelope \<Rightarrow>
          if validate envelope \<noteq> Inr () \<or> env_type envelope \<noteq> TypeHello then
            Inl (''invalid_hello'', ''first message must be a valid hello envelope'')
          else
            (case decode_payload decode_hello envelope of
               Inl err \<Rightarrow> Inl (''invalid_hello'', ''token, platform, and worker_version are required'')
             | Inr h \<Rightarrow>
                 if hello_token h = [] \<or> hello_platform h = [] \<or> hello_version h = [] then
                   Inl (''invalid_hello'', ''token, platform, and worker_version are required'')
                 else Inr h))"

definition auth_error_code :: "go_error \<Rightarrow> string" where
  "auth_error_code err =
     (if errors_is err ErrExpiredToken then ''expired_token''
      else if errors_is err ErrPlatformMismatch then ''platform_mismatch''
      else ''invalid_token'')"

text \<open>\<open>err.Error()\<close>, the text of the error frame.\<close>

fun error_text :: "go_error \<Rightarrow> string" where
  "error_text (Sentinel n) =
     (if Sentinel n = ErrNotFound then ''not found''
      else if Sentinel n = ErrInvalidToken then ''invalid worker token''
      else if Sentinel n = ErrExpiredToken then ''expired worker token''
      else if Sentinel n = ErrPlatformMismatch then ''worker platform does not match account''
      else if Sentinel n = ErrWorkerOffline then ''worker is offline''
      else n)"
| "error_text (NewError m) = m"
| "error_text (Wrapped m err) = m @ '': '' @ error_text err"
| "error_text (WorkerCommand code m) = code @ '': '' @ m"
| "error_text (Panic m) = m"

text \<open>
  From the upgrade to the end of \<open>AuthenticateWorker\<close>; \<open>Inl\<close> is the frame of \<open>writeAndClose\<close>.
\<close>

definition authenticate ::
  "'s account_store \<Rightarrow> env \<Rightarrow> envelope option \<Rightarrow> 's \<Rightarrow> (envelope + connection) \<times> 's"
where
  "authenticate S e frame s =
     (case read_hello frame of
        Inl (code, message) \<Rightarrow> (Inl (error_envelope code message), s)
      | Inr h \<Rightarrow>
          (case store_auth S e (hello_token h) (hello_platform h) s of
             (Inl err, s') \<Rightarrow> (Inl (error_envelope (auth_error_code err) (error_text err)), s')
           | (Inr auth, s') \<Rightarrow>
               (Inr \<lparr>cn_auth = auth, cn_phase = Authenticated, cn_pending = Map.empty,
                  cn_closed = False, cn_dead = False, cn_written = []\<rparr>, s')))"

definition register :: "nat \<Rightarrow> connection \<Rightarrow> 's gateway \<Rightarrow> bool \<times> 's gateway" where
  "register i c g =
     (if g_workers g (cn_account_id c) \<noteq> None then (False, g)
      else (True, g\<lparr>g_workers := (g_workers g)(cn_account_id c \<mapsto> i)\<rparr>))"

definition ready_envelope :: "connection \<Rightarrow> envelope" where
  "ready_envelope c =
     (let a = wa_account (cn_auth c) in
      empty_envelope\<lparr>env_version := Version, env_type := TypeReady,
        env_payload := Some (encode_ready \<lparr>ready_account_id = acc_id a,
          ready_worker_id = acc_worker_id a, ready_credential = wa_credential (cn_auth c),
          ready_generation = acc_generation a\<rparr>),
        env_generation := acc_generation a\<rparr>)"

definition write_json :: "envelope \<Rightarrow> connection \<Rightarrow> connection" where
  "write_json envelope c = c\<lparr>cn_written := cn_written c @ [envelope]\<rparr>"

subsection \<open>Frames of a connected worker\<close>

definition deliver :: "envelope \<Rightarrow> connection \<Rightarrow> connection" where
  "deliver envelope c =
     (case cn_pending c (env_id envelope) of
        Some None \<Rightarrow> c\<lparr>cn_pending := (cn_pending c)(env_id envelope \<mapsto> Some envelope)\<rparr>
      | _ \<Rightarrow> c)"

definition ack_envelope :: "connection \<Rightarrow> envelope \<Rightarrow> envelope" where
  "ack_envelope c envelope = empty_envelope\<lparr>env_version := Version, env_id := env_id envelope,
     env_type := TypeEventAck, env_generation := cn_generation c, env_status := ''ok''\<rparr>"

type_synonym 's event_handler = "env \<Rightarrow> account \<Rightarrow> envelope \<Rightarrow> 's \<Rightarrow> (go_error + unit) \<times> 's"

text \<open>
  The tail of the loop body: the event handler, then the acknowledgement; \<open>ok\<close> tells whether the
  write succeeds.
\<close>

definition handle_event ::
  "'s event_handler option \<Rightarrow> env \<Rightarrow> bool \<Rightarrow> envelope \<Rightarrow> connection \<Rightarrow> 's \<Rightarrow> connection \<times> 's"
where
  "handle_event on_event e ok envelope c s =
     (case (case on_event of None \<Rightarrow> (Inr (), s) | Some f \<Rightarrow> f e (wa_account (cn_auth c)) envelope s) of
        (Inl err, s') \<Rightarrow> (set_phase Leaving c, s')
      | (Inr _, s') \<Rightarrow>
          if env_id envelope = [] then (c, s')
          else if ok then (write_json (ack_envelope c envelope) c, s')
          else (set_phase Leaving c, s'))"

text \<open>The body of the read loop; \<open>e\<close> is what the store sees and \<open>e'\<close> what the event handler sees.\<close>

definition handle_frame ::
  "'s account_store \<Rightarrow> 's event_handler option \<Rightarrow> env \<Rightarrow> env \<Rightarrow> bool \<Rightarrow> envelope \<Rightarrow> connection \<Rightarrow> 's \<Rightarrow>
   connection \<times> 's"
where
  "handle_frame S on_event e e' ok envelope c s =
     (if validate envelope \<noteq> Inr () then (c, s)
      else if env_generation envelope \<noteq> 0 \<and> env_generation envelope \<noteq> cn_generation c then (c, s)
      else if env_type envelope = TypeHeartbeat then
        (case store_touch S e (cn_account_id c) (cn_generation c) s of
           (Inl err, s') \<Rightarrow> (set_phase Leaving c, s')
         | (Inr _, s') \<Rightarrow> (c, s'))
      else if env_id envelope \<noteq> [] \<and> (env_status envelope \<noteq> [] \<or> env_error envelope \<noteq> None) then
        (deliver envelope c, s)
      else
        let envelope = envelope\<lparr>env_generation := cn_generation c\<rparr> in
        if env_type envelope = TypeAccountStatus then
          (case decode_payload decode_account_status envelope of
             Inl err \<Rightarrow> (c, s)
           | Inr status \<Rightarrow>
               (case store_set_identity S e (cn_account_id c) (cn_generation c)
                       (as_state status) (as_external_id status) s of
                  (Inl err, s') \<Rightarrow> (set_phase Leaving c, s')
                | (Inr _, s') \<Rightarrow> handle_event on_event e' ok envelope c s'))
        else handle_event on_event e' ok envelope c s)"

subsection \<open>Commands\<close>

definition new_command :: "env \<Rightarrow> string \<Rightarrow> go_error + json \<Rightarrow> connection \<Rightarrow> go_error + envelope" where
  "new_command e command_type payload c =
     attempt (random_value e 0 ''cmd_'' 16) (\<lambda>command_id.
     attempt (new_envelope command_type payload) (\<lambda>envelope.
     Inr (envelope\<lparr>env_id := command_id, env_generation := cn_generation c\<rparr>)))"

definition forget :: "string \<Rightarrow> connection \<Rightarrow> connection" where
  "forget i c = c\<lparr>cn_pending := (cn_pending c)(i := None)\<rparr>"

text \<open>
  \<open>Request\<close> up to its \<open>select\<close>: either it has returned (\<open>Inl\<close>), or the command is written and its
  response channel is registered.
\<close>

definition start_request ::
  "env \<Rightarrow> string \<Rightarrow> string \<Rightarrow> go_error + json \<Rightarrow> bool \<Rightarrow> 's gateway \<Rightarrow> (go_error + nat \<times> envelope) \<times> 's gateway"
where
  "start_request e account_id command_type payload ok g =
     (case g_workers g account_id of
        None \<Rightarrow> (Inl ErrWorkerOffline, g)
      | Some i \<Rightarrow>
          (case g_conns g i of
             None \<Rightarrow> (Inl ErrWorkerOffline, g)
           | Some c \<Rightarrow>
               (case new_command e command_type payload c of
                  Inl err \<Rightarrow> (Inl err, g)
                | Inr envelope \<Rightarrow>
                    if ok then
                      (Inr (i, envelope),
                       update_conn i (\<lambda>c. write_json envelope
                         (c\<lparr>cn_pending := (cn_pending c)(env_id envelope \<mapsto> None)\<rparr>)) g)
                    else (Inl ErrWorkerOffline, update_conn i (forget (env_id envelope)) g))))"

text \<open>The response, once it is in the channel.\<close>

definition response_result :: "envelope \<Rightarrow> reply" where
  "response_result result =
     (case env_error result of
        Some err \<Rightarrow> Inl (WorkerCommand (pe_code err) (pe_message err))
      | None \<Rightarrow>
          if env_status result \<noteq> ''ok'' then
            Inl (WorkerCommand ''invalid_worker_response'' ''worker response did not report success'')
          else Inr (env_payload result))"

definition finish_request :: "nat \<Rightarrow> reply \<Rightarrow> request \<Rightarrow> 's gateway \<Rightarrow> 's gateway" where
  "finish_request r result q g =
     (case rq_sent q of
        None \<Rightarrow> g
      | Some (i, envelope) \<Rightarrow>
          (update_conn i (forget (env_id envelope)) g)
            \<lparr>g_requests := (g_requests g)(r \<mapsto> q\<lparr>rq_reply := Some result\<rparr>)\<rparr>)"

subsection \<open>Steps\<close>

datatype gw_event =
    Hello nat env "envelope option"
  | Register nat
  | SendReady nat bool
  | TouchReady nat env
  | Frame nat env env bool "envelope option"
  | Unregister nat
  | SetOffline nat env
  | StartRequest nat env string string "go_error + json" bool
  | Expire nat go_error
  | Lost nat
  | Answered nat
  | Disconnect string

definition at_phase :: "'s gateway \<Rightarrow> nat \<Rightarrow> conn_phase \<Rightarrow> connection option" where
  "at_phase g i p = (case g_conns g i of
     Some c \<Rightarrow> if cn_phase c = p then Some c else None | None \<Rightarrow> None)"

definition waiting :: "'s gateway \<Rightarrow> nat \<Rightarrow> (request \<times> nat \<times> envelope \<times> connection) option" where
  "waiting g r =
     (case g_requests g r of
        None \<Rightarrow> None
      | Some q \<Rightarrow>
          (case (rq_reply q, rq_sent q) of
             (None, Some (i, envelope)) \<Rightarrow> map_option (\<lambda>c. (q, i, envelope, c)) (g_conns g i)
           | _ \<Rightarrow> None))"

text \<open>\<open>Disconnect\<close>.\<close>

definition disconnect_account :: "string \<Rightarrow> 's gateway \<Rightarrow> 's gateway" where
  "disconnect_account account_id g =
     (case g_workers g account_id of
        None \<Rightarrow> g
      | Some i \<Rightarrow> update_conn i (\<lambda>c. c\<lparr>cn_dead := True\<rparr>) g)"

text \<open>\<open>None\<close>: the step is not possible in this state. A closed socket neither reads nor writes.\<close>

fun gw_step ::
  "'s account_store \<Rightarrow> 's event_handler option \<Rightarrow> gw_event \<Rightarrow> 's gateway \<Rightarrow> 's gateway option"
where
  "gw_step S f (Hello i e frame) g =
     (if g_conns g i \<noteq> None then None
      else case authenticate S e frame (g_state g) of
        (Inl _, s') \<Rightarrow> Some (g\<lparr>g_state := s'\<rparr>)
      | (Inr c, s') \<Rightarrow> Some (g\<lparr>g_conns := (g_conns g)(i \<mapsto> c), g_state := s'\<rparr>))"
| "gw_step S f (Register i) g =
     (case at_phase g i Authenticated of
        None \<Rightarrow> None
      | Some c \<Rightarrow>
          (case register i c g of
             (False, g') \<Rightarrow> Some (update_conn i (\<lambda>c. set_phase Closed (write_json
               (error_envelope ''already_connected'' ''account already has a live worker'') c)) g')
           | (True, g') \<Rightarrow> Some (update_conn i (set_phase Registered) g')))"
| "gw_step S f (SendReady i ok) g =
     (case at_phase g i Registered of
        None \<Rightarrow> None
      | Some c \<Rightarrow>
          if \<not> ok then Some (update_conn i (set_phase Leaving) g)
          else if cn_dead c then None
          else Some (update_conn i (\<lambda>c. set_phase Welcomed (write_json (ready_envelope c) c)) g))"
| "gw_step S f (TouchReady i e) g =
     (case at_phase g i Welcomed of
        None \<Rightarrow> None
      | Some c \<Rightarrow>
          (case store_touch S e (cn_account_id c) (cn_generation c) (g_state g) of
             (Inl err, s') \<Rightarrow> Some (update_conn i (set_phase Leaving) (g\<lparr>g_state := s'\<rparr>))
           | (Inr _, s') \<Rightarrow> Some (update_conn i (set_phase Open) (g\<lparr>g_state := s'\<rparr>))))"
| "gw_step S f (Frame i e e' ok frame) g =
     (case at_phase g i Open of
        None \<Rightarrow> None
      | Some c \<Rightarrow>
          (case frame of
             None \<Rightarrow> Some (update_conn i (set_phase Leaving) g)
           | Some envelope \<Rightarrow>
               if cn_dead c then None
               else case handle_frame S f e e' ok envelope c (g_state g) of
                 (c', s') \<Rightarrow> Some (g\<lparr>g_conns := (g_conns g)(i \<mapsto> c'), g_state := s'\<rparr>)))"
| "gw_step S f (Unregister i) g =
     (case at_phase g i Leaving of
        None \<Rightarrow> None
      | Some c \<Rightarrow>
          if g_workers g (cn_account_id c) = Some i then
            Some (update_conn i (\<lambda>c. set_phase Departed (c\<lparr>cn_closed := True\<rparr>))
              (g\<lparr>g_workers := (g_workers g)(cn_account_id c := None)\<rparr>))
          else Some (update_conn i (set_phase Closed) g))"
| "gw_step S f (SetOffline i e) g =
     (case at_phase g i Departed of
        None \<Rightarrow> None
      | Some c \<Rightarrow>
          Some (update_conn i (set_phase Closed) (g\<lparr>g_state := snd (store_set_status S e
            (cn_account_id c) (cn_generation c) ''offline'' (g_state g))\<rparr>)))"
| "gw_step S f (StartRequest r e account_id command_type payload ok) g =
     (if g_requests g r \<noteq> None then None
      else if ok \<and> (\<exists>i \<in> set_option (g_workers g account_id). \<exists>c \<in> set_option (g_conns g i). cn_dead c)
        then None
      else case start_request e account_id command_type payload ok g of
        (Inl err, g') \<Rightarrow> Some (g'\<lparr>g_requests := (g_requests g')(r \<mapsto>
           \<lparr>rq_account_id = account_id, rq_sent = None, rq_reply = Some (Inl err)\<rparr>)\<rparr>)
      | (Inr sent, g') \<Rightarrow> Some (g'\<lparr>g_requests := (g_requests g')(r \<mapsto>
           \<lparr>rq_account_id = account_id, rq_sent = Some sent, rq_reply = None\<rparr>)\<rparr>))"
| "gw_step S f (Expire r err) g =
     (case waiting g r of
        None \<Rightarrow> None
      | Some (q, i, envelope, c) \<Rightarrow>
          if err \<in> {ErrContextCanceled, ErrDeadlineExceeded} then Some (finish_request r (Inl err) q g)
          else None)"
| "gw_step S f (Lost r) g =
     (case waiting g r of
        None \<Rightarrow> None
      | Some (q, i, envelope, c) \<Rightarrow>
          if cn_closed c then Some (finish_request r (Inl ErrWorkerOffline) q g) else None)"
| "gw_step S f (Answered r) g =
     (case waiting g r of
        None \<Rightarrow> None
      | Some (q, i, envelope, c) \<Rightarrow>
          (case cn_pending c (env_id envelope) of
             Some (Some result) \<Rightarrow> Some (finish_request r (response_result result) q g)
           | _ \<Rightarrow> None))"
| "gw_step S f (Disconnect account_id) g =
     Some (disconnect_account account_id g)"

fun gw_run ::
  "'s account_store \<Rightarrow> 's event_handler option \<Rightarrow> gw_event list \<Rightarrow> 's gateway \<Rightarrow> 's gateway option"
where
  "gw_run S f [] g = Some g"
| "gw_run S f (e # es) g = (case gw_step S f e g of None \<Rightarrow> None | Some g' \<Rightarrow> gw_run S f es g')"

definition new_gateway :: "'s \<Rightarrow> 's gateway" where
  "new_gateway s = \<lparr>g_workers = Map.empty, g_conns = Map.empty, g_requests = Map.empty, g_state = s\<rparr>"

subsection \<open>The invariant of the hub\<close>

definition live :: "conn_phase \<Rightarrow> bool" where
  "live p \<longleftrightarrow> p \<in> {Registered, Welcomed, Open, Leaving}"

lemma live_simps [simp]:
  "\<not> live Authenticated" "live Registered" "live Welcomed" "live Open" "live Leaving"
  "\<not> live Departed" "\<not> live Closed"
  by (simp_all add: live_def)

text \<open>The frames a run reads from connection \<open>i\<close>.\<close>

fun frames :: "nat \<Rightarrow> gw_event list \<Rightarrow> envelope list" where
  "frames i [] = []"
| "frames i (Frame j e e' ok (Some envelope) # es) =
     (if i = j then envelope # frames i es else frames i es)"
| "frames i (_ # es) = frames i es"

lemma frames_Cons: "frames i (e # es) = frames i [e] @ frames i es"
  by (cases "(i, e # es)" rule: frames.cases) auto

lemma frames_append: "frames i (ds @ es) = frames i ds @ frames i es"
proof (induction ds)
  case (Cons d ds)
  then show ?case using frames_Cons [of i d ds] frames_Cons [of i d "ds @ es"] by simp
qed simp

text \<open>
  The registry holds exactly the live connections; a response channel holds a frame that the worker
  sent under the id of the command; a command that waits has been written to a connection of its
  account that is live or has announced its end; a reply is the payload of a frame that answers it.
\<close>

definition registry_ok :: "'s gateway \<Rightarrow> bool" where
  "registry_ok g \<longleftrightarrow> (\<forall>a i. g_workers g a = Some i \<longleftrightarrow>
     (\<exists>c. g_conns g i = Some c \<and> cn_account_id c = a \<and> live (cn_phase c)))"

definition channels_ok :: "gw_event list \<Rightarrow> nat \<Rightarrow> connection \<Rightarrow> bool" where
  "channels_ok ds i c \<longleftrightarrow> (\<forall>x v. cn_pending c x = Some (Some v) \<longrightarrow> env_id v = x \<and> v \<in> set (frames i ds))"

definition sent_ok :: "'s gateway \<Rightarrow> request \<Rightarrow> nat \<Rightarrow> envelope \<Rightarrow> bool" where
  "sent_ok g q i command \<longleftrightarrow> (\<exists>c. g_conns g i = Some c \<and> cn_account_id c = rq_account_id q \<and>
     command \<in> set (cn_written c) \<and> (live (cn_phase c) \<or> cn_closed c))"

definition reply_ok :: "gw_event list \<Rightarrow> request \<Rightarrow> bool" where
  "reply_ok ds q \<longleftrightarrow> (\<forall>p. rq_reply q = Some (Inr p) \<longrightarrow>
     (\<exists>i command v. rq_sent q = Some (i, command) \<and> v \<in> set (frames i ds) \<and>
        env_id v = env_id command \<and> env_status v = ''ok'' \<and> env_error v = None \<and> env_payload v = p))"

definition gw_inv :: "gw_event list \<Rightarrow> 's gateway \<Rightarrow> bool" where
  "gw_inv ds g \<longleftrightarrow> registry_ok g \<and>
     (\<forall>i c. g_conns g i = Some c \<longrightarrow> channels_ok ds i c) \<and>
     (\<forall>r q. g_requests g r = Some q \<longrightarrow> reply_ok ds q \<and>
        (\<forall>i command. rq_sent q = Some (i, command) \<longrightarrow> sent_ok g q i command))"

lemma gw_inv_new: "gw_inv [] (new_gateway s)"
  by (simp add: gw_inv_def registry_ok_def new_gateway_def)

lemma gw_inv_more: "gw_inv ds g \<Longrightarrow> gw_inv (ds @ es) g"
  by (simp add: gw_inv_def channels_ok_def reply_ok_def frames_append) blast

text \<open>What a step may do to one connection.\<close>

definition conn_le :: "connection \<Rightarrow> connection \<Rightarrow> bool" where
  "conn_le c c' \<longleftrightarrow> cn_auth c' = cn_auth c \<and> set (cn_written c) \<subseteq> set (cn_written c') \<and>
     (cn_closed c \<longrightarrow> cn_closed c') \<and> (live (cn_phase c') \<longleftrightarrow> live (cn_phase c))"

lemma conn_le_account: "conn_le c c' \<Longrightarrow> cn_account_id c' = cn_account_id c"
  by (simp add: conn_le_def cn_account_id_def)

lemma gw_inv_conn:
  assumes "gw_inv ds g" "g_conns g i = Some c" "conn_le c c'" "channels_ok ds i c'"
    and g': "g_workers g' = g_workers g" "g_requests g' = g_requests g"
      "g_conns g' = (g_conns g)(i \<mapsto> c')"
  shows "gw_inv ds g'"
proof -
  have "registry_ok g'"
    using assms(1,2,3) conn_le_account [OF assms(3)]
    by (auto simp: gw_inv_def registry_ok_def g' conn_le_def)
  moreover have "sent_ok g' q j command" if "sent_ok g q j command" for q j command
    using that assms(2,3) conn_le_account [OF assms(3)]
    by (auto simp: sent_ok_def g' conn_le_def)
  ultimately show ?thesis
    using assms(1,4) by (auto simp: gw_inv_def g')
qed

lemma gw_inv_channels: "gw_inv ds g \<Longrightarrow> g_conns g i = Some c \<Longrightarrow> channels_ok ds i c"
  by (simp add: gw_inv_def)

lemma update_conn_simps [simp]:
  "g_conns (update_conn i f g) = (g_conns g)(i := map_option f (g_conns g i))"
  "g_workers (update_conn i f g) = g_workers g" "g_requests (update_conn i f g) = g_requests g"
  "g_state (update_conn i f g) = g_state g"
  by (simp_all add: update_conn_def)

lemma at_phase_Some [simp]:
  "at_phase g i p = Some c \<longleftrightarrow> g_conns g i = Some c \<and> cn_phase c = p"
  by (auto simp: at_phase_def split: option.split)

lemma conn_simps [simp]:
  "cn_auth (set_phase p c) = cn_auth c" "cn_pending (set_phase p c) = cn_pending c"
  "cn_written (set_phase p c) = cn_written c" "cn_closed (set_phase p c) = cn_closed c"
  "cn_phase (set_phase p c) = p" "cn_dead (set_phase p c) = cn_dead c"
  "cn_auth (write_json v c) = cn_auth c" "cn_pending (write_json v c) = cn_pending c"
  "cn_written (write_json v c) = cn_written c @ [v]" "cn_closed (write_json v c) = cn_closed c"
  "cn_phase (write_json v c) = cn_phase c" "cn_dead (write_json v c) = cn_dead c"
  "cn_account_id (set_phase p c) = cn_account_id c" "cn_account_id (write_json v c) = cn_account_id c"
  by (simp_all add: set_phase_def write_json_def cn_account_id_def)

lemma handle_event_conn:
  assumes "handle_event f e ok envelope c s = (c', s')"
  shows "c' = c \<or> c' = set_phase Leaving c \<or> c' = write_json (ack_envelope c envelope) c"
  using assms by (auto simp: handle_event_def split: prod.splits sum.splits if_splits)

lemma handle_frame_conn:
  assumes "handle_frame S f e e' ok envelope c s = (c', s')"
  shows "c' = c \<or> c' = set_phase Leaving c \<or> c' = deliver envelope c \<or>
    (\<exists>v. c' = write_json v c)"
proof -
  have event: "c' = c \<or> c' = set_phase Leaving c \<or> (\<exists>v. c' = write_json v c)"
    if "handle_event f e' ok v c t = (c', s')" for v t
    using handle_event_conn [OF that] by blast
  show ?thesis
    using assms unfolding handle_frame_def Let_def
    by (auto split: if_splits prod.splits sum.splits dest!: event)
qed

lemma written_deliver [simp]: "cn_written (deliver v c) = cn_written c"
  by (simp add: deliver_def split: option.split)

text \<open>A frame that makes the hub write anything has reached the event handler.\<close>

lemma handle_frame_event:
  "handle_frame S f e e' ok v c s = (c', s') \<Longrightarrow> cn_written c' \<noteq> cn_written c \<Longrightarrow>
   \<exists>t. handle_event f e' ok (v\<lparr>env_generation := cn_generation c\<rparr>) c t = (c', s')"
  unfolding handle_frame_def Let_def
  by (auto split: if_splits prod.splits sum.splits)

lemma conn_le_refl [simp]: "conn_le c c"
  and conn_le_leave: "live (cn_phase c) \<Longrightarrow> conn_le c (set_phase Leaving c)"
  and conn_le_write [simp]: "conn_le c (write_json v c)"
  and conn_le_forget [simp]: "conn_le c (forget x c)"
  and conn_le_deliver [simp]: "conn_le c (deliver v c)"
  and conn_le_dead [simp]: "conn_le c (c\<lparr>cn_dead := d\<rparr>)"
  by (auto simp: conn_le_def live_def forget_def deliver_def split: option.splits)

lemma channels_simps [simp]:
  "channels_ok ds i (set_phase p c) = channels_ok ds i c"
  "channels_ok ds i (write_json v c) = channels_ok ds i c"
  "channels_ok ds i (c\<lparr>cn_closed := d\<rparr>) = channels_ok ds i c"
  "channels_ok ds i (c\<lparr>cn_dead := d\<rparr>) = channels_ok ds i c"
  by (simp_all add: channels_ok_def)

lemma channels_forget [simp]: "channels_ok ds i c \<Longrightarrow> channels_ok ds i (forget x c)"
  by (simp add: channels_ok_def forget_def)

lemma channels_deliver:
  "channels_ok ds i c \<Longrightarrow> v \<in> set (frames i ds) \<Longrightarrow> channels_ok ds i (deliver v c)"
  by (auto simp: channels_ok_def deliver_def split: option.splits)

lemma gw_inv_state [simp]: "gw_inv ds (g\<lparr>g_state := s\<rparr>) = gw_inv ds g"
  by (simp add: gw_inv_def registry_ok_def sent_ok_def)

lemma gw_inv_update:
  assumes "gw_inv ds g" "\<And>c. g_conns g i = Some c \<Longrightarrow> conn_le c (f c) \<and>
    (channels_ok ds i c \<longrightarrow> channels_ok ds i (f c))"
  shows "gw_inv ds (update_conn i f g)"
proof (cases "g_conns g i")
  case None
  then have "update_conn i f g = g" by (simp add: update_conn_def fun_upd_idem)
  with assms(1) show ?thesis by simp
next
  case (Some c)
  with assms(2) gw_inv_channels [OF assms(1) Some] show ?thesis
    by (intro gw_inv_conn [OF assms(1) Some, of "f c"]) auto
qed

lemma gw_inv_frame:
  assumes inv: "gw_inv ds g" and c: "g_conns g i = Some c" "live (cn_phase c)"
    and frame: "handle_frame S f e e' ok v c (g_state g) = (c', s')" "v \<in> set (frames i ds)"
  shows "gw_inv ds (g\<lparr>g_conns := (g_conns g)(i \<mapsto> c'), g_state := s'\<rparr>)"
proof -
  have "conn_le c c' \<and> channels_ok ds i c'"
    using handle_frame_conn [OF frame(1)] gw_inv_channels [OF inv c(1)] c(2) frame(2)
    by (auto intro: conn_le_leave channels_deliver)
  then show ?thesis by (intro gw_inv_conn [OF inv c(1)]) auto
qed

lemma gw_inv_connect:
  assumes "gw_inv ds g" "g_conns g i = None" "\<not> live (cn_phase c)" "cn_pending c = Map.empty"
  shows "gw_inv ds (g\<lparr>g_conns := (g_conns g)(i \<mapsto> c), g_state := s\<rparr>)"
proof -
  have "sent_ok (g\<lparr>g_conns := (g_conns g)(i \<mapsto> c), g_state := s\<rparr>) q j command"
    if "sent_ok g q j command" for q j command
    using that assms(2) by (auto simp: sent_ok_def)
  then show ?thesis
    using assms by (auto simp: gw_inv_def registry_ok_def channels_ok_def)
qed

lemma registry_live:
  "registry_ok g \<Longrightarrow> g_conns g i = Some c \<Longrightarrow> live (cn_phase c) \<Longrightarrow>
   g_workers g (cn_account_id c) = Some i"
  and registry_conn:
  "registry_ok g \<Longrightarrow> g_workers g a = Some i \<Longrightarrow>
   \<exists>c. g_conns g i = Some c \<and> cn_account_id c = a \<and> live (cn_phase c)"
  by (auto simp: registry_ok_def)

lemma registry_okI:
  assumes "\<And>i c. g_conns g i = Some c \<Longrightarrow> live (cn_phase c) \<Longrightarrow> g_workers g (cn_account_id c) = Some i"
    and "\<And>a i. g_workers g a = Some i \<Longrightarrow>
      \<exists>c. g_conns g i = Some c \<and> cn_account_id c = a \<and> live (cn_phase c)"
  shows "registry_ok g"
  using assms by (auto simp: registry_ok_def)

lemma gw_inv_register:
  assumes inv: "gw_inv ds g" and c: "g_conns g i = Some c" "cn_phase c = Authenticated"
    and free: "g_workers g (cn_account_id c) = None"
  shows "gw_inv ds (update_conn i (set_phase Registered)
    (g\<lparr>g_workers := (g_workers g)(cn_account_id c \<mapsto> i)\<rparr>))" (is "gw_inv ds ?g")
proof -
  have reg: "registry_ok g" using inv by (simp add: gw_inv_def)
  have "registry_ok ?g"
    using registry_live [OF reg] registry_conn [OF reg] c free
    by (intro registry_okI) (force split: if_splits)+
  moreover have "sent_ok ?g q j command" if "sent_ok g q j command" for q j command
    using that c by (auto simp: sent_ok_def)
  moreover have "channels_ok ds j d" if "g_conns ?g j = Some d" for j d
    using that gw_inv_channels [OF inv] c by (auto split: if_splits)
  ultimately show ?thesis using inv by (auto simp: gw_inv_def)
qed

lemma gw_inv_unregister:
  assumes inv: "gw_inv ds g" and c: "g_conns g i = Some c" "cn_phase c = Leaving"
  shows "g_workers g (cn_account_id c) = Some i"
    and "gw_inv ds (update_conn i (\<lambda>c. set_phase Departed (c\<lparr>cn_closed := True\<rparr>))
      (g\<lparr>g_workers := (g_workers g)(cn_account_id c := None)\<rparr>))" (is "gw_inv ds ?g")
proof -
  have reg: "registry_ok g" using inv by (simp add: gw_inv_def)
  then show i: "g_workers g (cn_account_id c) = Some i"
    using c registry_live [OF reg c(1)] by simp
  have id: "cn_account_id (c\<lparr>cn_closed := True\<rparr>) = cn_account_id c" by (simp add: cn_account_id_def)
  have "registry_ok ?g"
  proof (rule registry_okI)
    fix j d assume d: "g_conns ?g j = Some d" "live (cn_phase d)"
    with c have j: "j \<noteq> i" "g_conns g j = Some d" by (auto split: if_splits)
    then have "g_workers g (cn_account_id d) = Some j" using registry_live [OF reg] d(2) by blast
    then show "g_workers ?g (cn_account_id d) = Some j" using i j(1) by auto
  next
    fix a j assume "g_workers ?g a = Some j"
    then have a: "a \<noteq> cn_account_id c" "g_workers g a = Some j" by (auto split: if_splits)
    from registry_conn [OF reg a(2)] c a(1)
    show "\<exists>d. g_conns ?g j = Some d \<and> cn_account_id d = a \<and> live (cn_phase d)" by auto
  qed
  moreover have "sent_ok ?g q j command" if "sent_ok g q j command" for q j command
    using that c by (auto simp: sent_ok_def id)
  moreover have "channels_ok ds j d" if "g_conns ?g j = Some d" for j d
    using that gw_inv_channels [OF inv] c by (auto split: if_splits)
  ultimately show "gw_inv ds ?g" using inv by (auto simp: gw_inv_def)
qed

lemma gw_inv_request:
  assumes "gw_inv ds g" "reply_ok ds q"
    "\<And>i command. rq_sent q = Some (i, command) \<Longrightarrow> sent_ok g q i command"
  shows "gw_inv ds (g\<lparr>g_requests := (g_requests g)(r \<mapsto> q)\<rparr>)"
proof -
  have "sent_ok (g\<lparr>g_requests := rs\<rparr>) p j command = sent_ok g p j command" for rs p j command
    by (simp add: sent_ok_def)
  then show ?thesis using assms by (auto simp: gw_inv_def registry_ok_def)
qed

lemma gw_inv_start:
  assumes inv: "gw_inv ds g"
    and start: "start_request e a t p ok g = (r, g')"
  shows "gw_inv ds g'"
    and "r = Inr (i, command) \<Longrightarrow> sent_ok g' \<lparr>rq_account_id = a, rq_sent = Some (i, command), rq_reply = None\<rparr> i command"
proof -
  have reg: "registry_ok g" using inv by (simp add: gw_inv_def)
  have new: "conn_le c (write_json v (c\<lparr>cn_pending := (cn_pending c)(x \<mapsto> None)\<rparr>)) \<and>
      (channels_ok ds j c \<longrightarrow> channels_ok ds j (write_json v (c\<lparr>cn_pending := (cn_pending c)(x \<mapsto> None)\<rparr>)))"
    for c j v x
    by (auto simp: conn_le_def channels_ok_def)
  show "gw_inv ds g'"
    using start inv new
    by (auto simp: start_request_def intro!: gw_inv_update split: option.splits sum.splits if_splits)
  assume "r = Inr (i, command)"
  with start obtain c where "g_workers g a = Some i" "g_conns g i = Some c"
    "g' = update_conn i (\<lambda>c. write_json command
       (c\<lparr>cn_pending := (cn_pending c)(env_id command \<mapsto> None)\<rparr>)) g"
    by (auto simp: start_request_def split: option.splits sum.splits if_splits)
  then show "sent_ok g' \<lparr>rq_account_id = a, rq_sent = Some (i, command), rq_reply = None\<rparr> i command"
    using reg by (auto simp: sent_ok_def registry_ok_def cn_account_id_def)
qed

lemma waiting_Some:
  "waiting g r = Some (q, i, command, c) \<longleftrightarrow>
   g_requests g r = Some q \<and> rq_reply q = None \<and> rq_sent q = Some (i, command) \<and> g_conns g i = Some c"
  by (auto simp: waiting_def split: option.splits)

lemma gw_inv_finish:
  assumes inv: "gw_inv ds g" and w: "waiting g r = Some (q, i, command, c)"
    and reply: "\<And>p. result = Inr p \<Longrightarrow> \<exists>v \<in> set (frames i ds). env_id v = env_id command \<and>
      env_status v = ''ok'' \<and> env_error v = None \<and> env_payload v = p"
  shows "gw_inv ds (finish_request r result q g)"
proof -
  from w have q: "g_requests g r = Some q" "rq_sent q = Some (i, command)" "g_conns g i = Some c"
    by (auto simp: waiting_Some)
  have inv': "gw_inv ds (update_conn i (forget (env_id command)) g)"
    by (rule gw_inv_update [OF inv]) simp
  have "reply_ok ds (q\<lparr>rq_reply := Some result\<rparr>)"
    using reply q(2) by (fastforce simp: reply_ok_def)
  moreover have "sent_ok (update_conn i (forget (env_id command)) g)
      (q\<lparr>rq_reply := Some result\<rparr>) j command'" if "rq_sent q = Some (j, command')" for j command'
    using inv' q(1) that by (simp add: gw_inv_def sent_ok_def)
  ultimately show ?thesis
    using gw_inv_request [OF inv', of "q\<lparr>rq_reply := Some result\<rparr>" r] q(2)
    by (simp add: finish_request_def)
qed

lemma gw_inv_step:
  assumes inv: "gw_inv ds g" and step: "gw_step S f e g = Some g'"
  shows "gw_inv (ds @ [e]) g'"
proof -
  have inv': "gw_inv (ds @ [e]) g" by (rule gw_inv_more [OF inv])
  have reg: "registry_ok g" using inv by (simp add: gw_inv_def)
  show ?thesis
  proof (cases e)
    case (Hello i env frame)
    with step obtain s' r where s': "authenticate S env frame (g_state g) = (r, s')"
      "g_conns g i = None" "g' = (case r of Inl _ \<Rightarrow> g\<lparr>g_state := s'\<rparr>
        | Inr c \<Rightarrow> g\<lparr>g_conns := (g_conns g)(i \<mapsto> c), g_state := s'\<rparr>)"
      by (auto split: if_splits prod.splits sum.splits)
    show ?thesis
    proof (cases r)
      case (Inr c)
      then have "cn_phase c = Authenticated" "cn_pending c = Map.empty"
        using s'(1) by (auto simp: authenticate_def split: sum.splits prod.splits)
      then show ?thesis using Inr s'(2,3) gw_inv_connect [OF inv', of i c s'] by simp
    qed (use s' inv' in simp)
  next
    case (Register i)
    with step obtain c where c: "g_conns g i = Some c" "cn_phase c = Authenticated"
      by (auto split: option.splits)
    show ?thesis
    proof (cases "g_workers g (cn_account_id c)")
      case None
      then show ?thesis
        using gw_inv_register [OF inv' c None] Register step c by (auto simp: register_def split: option.splits)
    next
      case (Some j)
      then have "g' = update_conn i (\<lambda>c. set_phase Closed (write_json
          (error_envelope ''already_connected'' ''account already has a live worker'') c)) g"
        using Register step c by (auto simp: register_def split: option.splits)
      then show ?thesis using c by (auto intro!: gw_inv_update [OF inv'] simp: conn_le_def)
    qed
  next
    case (Frame i env env' ok frame)
    show ?thesis
    proof (cases frame)
      case (Some v)
      with Frame step obtain c c' s' where "g_conns g i = Some c" "cn_phase c = Open"
        "handle_frame S f env env' ok v c (g_state g) = (c', s')"
        "g' = g\<lparr>g_conns := (g_conns g)(i \<mapsto> c'), g_state := s'\<rparr>"
        by (auto split: option.splits if_splits prod.splits)
      then show ?thesis
        using gw_inv_frame [OF inv', of i c S f env env' ok v c' s'] Frame Some
        by (simp add: frames_append)
    qed (use Frame step inv' in \<open>auto intro!: gw_inv_update conn_le_leave split: option.splits\<close>)
  next
    case (Unregister i)
    with step obtain c where c: "g_conns g i = Some c" "cn_phase c = Leaving"
      by (auto split: option.splits)
    then show ?thesis
      using step Unregister gw_inv_unregister [OF inv' c] by (simp add: at_phase_def)
  next
    case (StartRequest r env a t p ok)
    with step obtain res g1 where start: "start_request env a t p ok g = (res, g1)" and
      g': "g' = g1\<lparr>g_requests := (g_requests g1)(r \<mapsto> (case res of
         Inl err \<Rightarrow> \<lparr>rq_account_id = a, rq_sent = None, rq_reply = Some (Inl err)\<rparr>
       | Inr sent \<Rightarrow> \<lparr>rq_account_id = a, rq_sent = Some sent, rq_reply = None\<rparr>))\<rparr>"
      by (auto split: if_splits prod.splits sum.splits)
    show ?thesis
      unfolding g' using gw_inv_start(2) [OF inv' start]
      by (intro gw_inv_request [OF gw_inv_start(1) [OF inv' start]])
        (auto simp: reply_ok_def split: sum.splits)
  next
    case (Answered r)
    with step obtain q i command c v where w: "waiting g r = Some (q, i, command, c)"
      and v: "cn_pending c (env_id command) = Some (Some v)"
      and g': "g' = finish_request r (response_result v) q g"
      by (auto split: option.splits)
    then have "channels_ok (ds @ [e]) i c"
      using gw_inv_channels [OF inv'] by (auto simp: waiting_Some)
    then have "env_id v = env_id command" "v \<in> set (frames i (ds @ [e]))"
      using v by (auto simp: channels_ok_def)
    then show ?thesis
      unfolding g' by (intro gw_inv_finish [OF inv' w])
        (auto simp: response_result_def split: option.splits if_splits)
  next
    case (SendReady i ok)
    then show ?thesis
      using step inv' by (auto intro!: gw_inv_update simp: conn_le_def split: option.splits if_splits)
  next
    case (TouchReady i env)
    then show ?thesis
      using step inv'
      by (auto intro!: gw_inv_update simp: conn_le_def split: option.splits prod.splits sum.splits)
  next
    case (SetOffline i env)
    then show ?thesis
      using step inv' by (auto intro!: gw_inv_update simp: conn_le_def split: option.splits)
  next
    case (Expire r err)
    with step obtain q i command c where "waiting g r = Some (q, i, command, c)"
      "g' = finish_request r (Inl err) q g" by (auto split: option.splits if_splits)
    then show ?thesis using gw_inv_finish [OF inv', of r q i command c "Inl err"] by simp
  next
    case (Lost r)
    with step obtain q i command c where "waiting g r = Some (q, i, command, c)"
      "g' = finish_request r (Inl ErrWorkerOffline) q g" by (auto split: option.splits if_splits)
    then show ?thesis using gw_inv_finish [OF inv', of r q i command c "Inl ErrWorkerOffline"] by simp
  next
    case (Disconnect a)
    then show ?thesis
      using step inv' by (auto simp: disconnect_account_def intro!: gw_inv_update split: option.splits)
  qed
qed

lemma gw_run_append:
  "gw_run S f (ds @ es) g = (case gw_run S f ds g of None \<Rightarrow> None | Some g' \<Rightarrow> gw_run S f es g')"
  by (induction ds arbitrary: g) (auto split: option.split)

lemma gw_inv_run: "gw_inv ds g \<Longrightarrow> gw_run S f es g = Some g' \<Longrightarrow> gw_inv (ds @ es) g'"
proof (induction es arbitrary: ds g)
  case (Cons e es)
  then obtain g1 where "gw_step S f e g = Some g1" "gw_run S f es g1 = Some g'"
    by (auto split: option.splits)
  then show ?case using Cons.IH [OF gw_inv_step [OF Cons.prems(1)]] by force
qed simp

subsection \<open>A worked example\<close>

definition worker_account :: account where
  "worker_account = sample_member\<lparr>acc_status := ''offline'', acc_worker_id := ''wrk-1'',
     acc_generation := 1, acc_enrollment_end := zero_time\<rparr>"

definition worker_store :: "string mem_store" where
  "worker_store = \<lparr>ms_accounts = [''acc-1'' \<mapsto> worker_account], ms_enrollments = Map.empty,
     ms_credentials = [''tok'' \<mapsto> ''acc-1'']\<rparr>"

definition sample_hello :: envelope where
  "sample_hello = empty_envelope\<lparr>env_version := Version, env_type := TypeHello,
     env_payload := Some (encode_hello
       \<lparr>hello_token = ''tok'', hello_platform = ''signal'', hello_version = ''1''\<rparr>)\<rparr>"

abbreviation mem_gw_run ::
  "gw_event list \<Rightarrow> string mem_store gateway \<Rightarrow> string mem_store gateway option" where
  "mem_gw_run \<equiv> gw_run (memory_store id []) None"

abbreviation touched :: "time \<Rightarrow> account \<Rightarrow> account" where
  "touched t a \<equiv> a\<lparr>acc_last_seen_at := Some t\<rparr>"

definition sample_connect :: "nat \<Rightarrow> gw_event list" where
  "sample_connect i = [Hello i (sample_env 0) (Some sample_hello), Register i, SendReady i True,
     TouchReady i (sample_env minute)]"

definition sample_conn :: "account \<Rightarrow> connection" where
  "sample_conn a = (let c = \<lparr>cn_auth = \<lparr>wa_account = a, wa_credential = []\<rparr>, cn_phase = Open,
     cn_pending = Map.empty, cn_closed = False, cn_dead = False, cn_written = []\<rparr>
     in write_json (ready_envelope c) c)"

lemma authenticate_sample:
  assumes "ms_credentials s ''tok'' = Some ''acc-1''" "ms_accounts s ''acc-1'' = Some a"
    "acc_platform a = ''signal''"
  shows "authenticate (memory_store id []) e (Some sample_hello) s =
    (Inr \<lparr>cn_auth = \<lparr>wa_account = a, wa_credential = []\<rparr>, cn_phase = Authenticated,
       cn_pending = Map.empty, cn_closed = False, cn_dead = False, cn_written = []\<rparr>, s)"
  using assms
  by (simp add: authenticate_def read_hello_def sample_hello_def decode_payload_def
      decode_encode_hello validate_def empty_envelope_def Version_def TypeHello_def memory_store_def
      mem_auth_def)

lemma memory_store_simps [simp]:
  "store_touch (memory_store sha ks) = mem_touch"
  "store_set_status (memory_store sha ks) = mem_set_status"
  "store_set_identity (memory_store sha ks) = mem_set_identity"
  by (simp_all add: memory_store_def)

lemma sample_connect_run:
  assumes "ms_credentials (g_state g) ''tok'' = Some ''acc-1''" "ms_accounts (g_state g) ''acc-1'' = Some a"
    "acc_platform a = ''signal''" "acc_id a = ''acc-1''"
    "g_workers g ''acc-1'' = None" "g_conns g i = None"
  shows "mem_gw_run (sample_connect i) g = Some (g\<lparr>
    g_workers := (g_workers g)(''acc-1'' \<mapsto> i),
    g_conns := (g_conns g)(i \<mapsto> sample_conn a),
    g_state := (g_state g)\<lparr>ms_accounts := (ms_accounts (g_state g))(''acc-1'' \<mapsto> touched minute a)\<rparr>\<rparr>)"
  using assms
  by (simp add: sample_connect_def authenticate_sample at_phase_def register_def cn_account_id_def
      cn_generation_def set_phase_def write_json_def update_conn_def sample_conn_def Let_def
      mem_touch_def mem_write_def ready_envelope_def)

definition sample_gateway :: "string mem_store gateway" where
  "sample_gateway = \<lparr>g_workers = [''acc-1'' \<mapsto> 0], g_conns = [0 \<mapsto> sample_conn worker_account],
     g_requests = Map.empty, g_state = worker_store\<lparr>ms_accounts := [''acc-1'' \<mapsto> touched minute worker_account]\<rparr>\<rparr>"

lemma sample_gateway_run: "mem_gw_run (sample_connect 0) (new_gateway worker_store) = Some sample_gateway"
  by (subst sample_connect_run [of _ worker_account])
    (simp_all add: new_gateway_def worker_store_def worker_account_def sample_member_def
      sample_gateway_def fun_eq_iff)

definition sample_command_id :: string where
  "sample_command_id = ''cmd_'' @ hex_encode (map (entropy (sample_env 0) 0) [0..<16])"

definition sample_response :: envelope where
  "sample_response = empty_envelope\<lparr>env_version := Version, env_id := sample_command_id,
     env_type := TypeSend, env_status := ''ok'', env_payload := Some (JBool True)\<rparr>"

definition sample_exchange :: "gw_event list" where
  "sample_exchange = [StartRequest 7 (sample_env 0) ''acc-1'' TypeSend (Inr JNull) True,
     Frame 0 (sample_env 0) (sample_env 0) True (Some sample_response), Answered 7]"

lemma sample_exchange_run:
  "\<exists>g q. mem_gw_run sample_exchange sample_gateway = Some g \<and> g_requests g 7 = Some q \<and>
     rq_account_id q = ''acc-1'' \<and> rq_reply q = Some (Inr (Some (JBool True)))"
proof -
  have id: "sample_command_id \<noteq> []" by (simp add: sample_command_id_def)
  show ?thesis
    by (simp add: sample_exchange_def sample_gateway_def sample_conn_def start_request_def new_command_def
        new_envelope_def sample_command_id_def [symmetric] update_conn_def write_json_def Let_def
        at_phase_def handle_frame_def validate_def sample_response_def empty_envelope_def Version_def
        TypeSend_def TypeHeartbeat_def deliver_def id waiting_def response_result_def finish_request_def
        forget_def) (simp add: sample_command_id_def)
qed

lemma sample_lost_run:
  "\<exists>g q command c. mem_gw_run [StartRequest 7 (sample_env 0) ''acc-1'' TypeSend (Inr JNull) True,
      Frame 0 (sample_env 0) (sample_env 0) True None, Unregister 0] sample_gateway = Some g \<and>
    g_requests g 7 = Some q \<and> rq_sent q = Some (0, command) \<and> rq_reply q = None \<and>
    g_conns g 0 = Some c \<and> \<not> live (cn_phase c)"
  by (simp add: sample_gateway_def sample_conn_def start_request_def new_command_def new_envelope_def
      update_conn_def write_json_def Let_def at_phase_def set_phase_def cn_account_id_def
      worker_account_def sample_member_def)

subsection \<open>Properties\<close>

text \<open>
  C35. One worker per account: along every run, whatever connects, fails or is removed and in
  whatever order, two connections that are registered for the same account are the same one.
\<close>

theorem one_live_worker:
  assumes "gw_run S f es (new_gateway s) = Some g"
    and "g_conns g i = Some c" "live (cn_phase c)" "g_conns g j = Some d" "live (cn_phase d)"
    and "cn_account_id c = cn_account_id d"
  shows "i = j"
proof -
  have "registry_ok g" using gw_inv_run [OF gw_inv_new assms(1)] by (simp add: gw_inv_def)
  from registry_live [OF this assms(2,3)] registry_live [OF this assms(4,5)] assms(6)
  show ?thesis by simp
qed

definition sample_intruder :: "gw_event list" where
  "sample_intruder = [Hello 1 (sample_env 0) (Some sample_hello), Register 1]"

lemma sample_intruder_run:
  "\<exists>g d. mem_gw_run sample_intruder sample_gateway = Some g \<and>
     g_conns g 0 = Some (sample_conn worker_account) \<and> g_conns g 1 = Some d \<and> cn_account_id d = ''acc-1''"
  by (simp add: sample_intruder_def sample_gateway_def authenticate_sample [of _ "touched minute worker_account"]
      worker_store_def worker_account_def sample_member_def at_phase_def register_def update_conn_def
      cn_account_id_def write_json_def set_phase_def)

theorem one_live_worker_witness:
  "\<exists>g d. mem_gw_run (sample_connect 0 @ sample_intruder) (new_gateway worker_store) = Some g \<and>
    g_conns g 1 = Some d \<and> cn_account_id d = ''acc-1'' \<and> \<not> live (cn_phase d)"
proof -
  obtain g d where g: "mem_gw_run sample_intruder sample_gateway = Some g"
    "g_conns g 0 = Some (sample_conn worker_account)" "g_conns g 1 = Some d" "cn_account_id d = ''acc-1''"
    using sample_intruder_run by blast
  then have run: "mem_gw_run (sample_connect 0 @ sample_intruder) (new_gateway worker_store) = Some g"
    by (simp add: gw_run_append sample_gateway_run)
  have "live (cn_phase (sample_conn worker_account))"
    "cn_account_id (sample_conn worker_account) = cn_account_id d"
    using g(4) by (simp_all add: sample_conn_def worker_account_def sample_member_def cn_account_id_def write_json_def Let_def)
  then have "\<not> live (cn_phase d)" using one_live_worker [OF run g(2) _ g(3)] by auto
  with run g show ?thesis by blast
qed

text \<open>
  C30. A reply belongs to its command: when a request returns a payload, a frame with that payload and
  the status ok was read from the connection the command had been written to, under the id of the
  command, and that connection belongs to the account of the request.
\<close>

theorem reply_answers_command:
  assumes "gw_run S f es (new_gateway s) = Some g"
    and "g_requests g r = Some q" "rq_reply q = Some (Inr payload)"
  shows "\<exists>i command c v. rq_sent q = Some (i, command) \<and> g_conns g i = Some c \<and>
    cn_account_id c = rq_account_id q \<and> command \<in> set (cn_written c) \<and>
    v \<in> set (frames i es) \<and> env_id v = env_id command \<and> env_status v = ''ok'' \<and>
    env_error v = None \<and> env_payload v = payload"
proof -
  have inv: "gw_inv es g" using gw_inv_run [OF gw_inv_new assms(1)] by simp
  then have "reply_ok es q" using assms(2) by (simp add: gw_inv_def)
  with assms(3) obtain i command v where v: "rq_sent q = Some (i, command)" "v \<in> set (frames i es)"
    "env_id v = env_id command" "env_status v = ''ok''" "env_error v = None" "env_payload v = payload"
    by (auto simp: reply_ok_def)
  moreover have "sent_ok g q i command" using inv assms(2) v(1) by (simp add: gw_inv_def)
  ultimately show ?thesis by (auto simp: sent_ok_def)
qed

theorem reply_answers_command_witness:
  "\<exists>g q i command c v. mem_gw_run (sample_connect 0 @ sample_exchange) (new_gateway worker_store) = Some g \<and>
    g_requests g 7 = Some q \<and> rq_sent q = Some (i, command) \<and> g_conns g i = Some c \<and>
    cn_account_id c = ''acc-1'' \<and> v \<in> set (frames i (sample_connect 0 @ sample_exchange)) \<and>
    env_id v = env_id command \<and> env_payload v = Some (JBool True)"
proof -
  obtain g q where g: "mem_gw_run sample_exchange sample_gateway = Some g" "g_requests g 7 = Some q"
    "rq_account_id q = ''acc-1''" "rq_reply q = Some (Inr (Some (JBool True)))"
    using sample_exchange_run by blast
  then have run: "mem_gw_run (sample_connect 0 @ sample_exchange) (new_gateway worker_store) = Some g"
    by (simp add: gw_run_append sample_gateway_run)
  from reply_answers_command [OF run g(2,4)] g(2,3) run show ?thesis by metis
qed

text \<open>
  C39. No request hangs on a worker that is gone: along every run, a request that has not returned was
  written to a connection that is still registered, or it can return \<open>ErrWorkerOffline\<close> now.
\<close>

theorem request_not_stuck:
  assumes "gw_run S f es (new_gateway s) = Some g"
    and "g_requests g r = Some q" "rq_sent q = Some (i, command)" "rq_reply q = None"
  shows "\<exists>c. g_conns g i = Some c \<and> (live (cn_phase c) \<or>
    (\<exists>g'. gw_step S f (Lost r) g = Some g' \<and>
       map_option rq_reply (g_requests g' r) = Some (Some (Inl ErrWorkerOffline))))"
proof -
  have "sent_ok g q i command"
    using gw_inv_run [OF gw_inv_new assms(1)] assms(2,3) by (simp add: gw_inv_def)
  then obtain c where c: "g_conns g i = Some c" "live (cn_phase c) \<or> cn_closed c"
    by (auto simp: sent_ok_def)
  then have "waiting g r = Some (q, i, command, c)" using assms by (simp add: waiting_Some)
  with c assms(3) show ?thesis by (auto simp: finish_request_def)
qed

theorem request_not_stuck_witness:
  "\<exists>g c. mem_gw_run (sample_connect 0 @ [StartRequest 7 (sample_env 0) ''acc-1'' TypeSend (Inr JNull) True,
      Frame 0 (sample_env 0) (sample_env 0) True None, Unregister 0]) (new_gateway worker_store) = Some g \<and>
    g_conns g 0 = Some c \<and> \<not> live (cn_phase c) \<and>
    (\<exists>g'. gw_step (memory_store id []) None (Lost 7) g = Some g')"
proof -
  obtain g q command c where g: "mem_gw_run [StartRequest 7 (sample_env 0) ''acc-1'' TypeSend (Inr JNull) True,
      Frame 0 (sample_env 0) (sample_env 0) True None, Unregister 0] sample_gateway = Some g"
    "g_requests g 7 = Some q" "rq_sent q = Some (0, command)" "rq_reply q = None" "g_conns g 0 = Some c"
    "\<not> live (cn_phase c)"
    using sample_lost_run by blast
  then have run: "mem_gw_run (sample_connect 0 @ [StartRequest 7 (sample_env 0) ''acc-1'' TypeSend (Inr JNull) True,
      Frame 0 (sample_env 0) (sample_env 0) True None, Unregister 0]) (new_gateway worker_store) = Some g"
    by (simp only: gw_run_append sample_gateway_run option.case)
  have "\<exists>g'. gw_step (memory_store id []) None (Lost 7) g = Some g'"
    using request_not_stuck [OF run g(2-4)] unfolding g(5) using g(6)
    by (elim exE conjE disjE) (simp, blast)
  then show ?thesis using run g(5,6) by blast
qed

text \<open>
  A worker of an older generation is not heard: a frame that carries another generation than the
  connection was authenticated for changes neither the connection nor the stored state.
\<close>

theorem stale_frame_ignored:
  assumes "env_generation v \<noteq> 0" "env_generation v \<noteq> cn_generation c"
  shows "handle_frame S f e e' ok v c s = (c, s)"
  using assms by (simp add: handle_frame_def)

theorem stale_frame_ignored_witness:
  "handle_frame (memory_store id []) None (sample_env 0) (sample_env 0) True
     (sample_response\<lparr>env_generation := 2\<rparr>) (sample_conn worker_account) worker_store =
   (sample_conn worker_account, worker_store)"
  by (rule stale_frame_ignored)
    (simp_all add: sample_conn_def worker_account_def sample_member_def cn_generation_def write_json_def Let_def)

lemma acked_handled:
  assumes "handle_frame S (Some f) e e' ok v c s = (c', s')" "cn_written c' \<noteq> cn_written c"
  shows "cn_written c' = cn_written c @ [ack_envelope c v] \<and> env_id v \<noteq> [] \<and> cn_phase c' = cn_phase c \<and>
    (\<exists>t. f e' (wa_account (cn_auth c)) (v\<lparr>env_generation := cn_generation c\<rparr>) t = (Inr (), s'))"
proof -
  let ?v = "v\<lparr>env_generation := cn_generation c\<rparr>"
  obtain t where "handle_event (Some f) e' ok ?v c t = (c', s')"
    using handle_frame_event [OF assms] by blast
  then have event: "handle_event (Some f) e' ok ?v c t = (c', s')" .
  obtain r t' where f: "f e' (wa_account (cn_auth c)) ?v t = (r, t')" by force
  have ack: "ack_envelope c ?v = ack_envelope c v" by (simp add: ack_envelope_def)
  show ?thesis
  proof (cases r)
    case (Inl err)
    with event f have "c' = set_phase Leaving c" by (simp add: handle_event_def)
    with assms(2) show ?thesis by simp
  next
    case (Inr u)
    have "env_id v \<noteq> [] \<and> (c', s') = (write_json (ack_envelope c v) c, t')"
      using event f Inr assms(2)
      by (cases "env_id v = []"; cases ok) (auto simp: handle_event_def ack)
    then show ?thesis using f Inr by (intro conjI exI [of _ t]) simp_all
  qed
qed

text \<open>
  An acknowledgement means that the event has been handled: when handling a frame writes anything,
  it is the acknowledgement of that frame's id, the connection stays open, and the event handler has
  accepted the event in the state that was left; when the handler rejects an event, the connection
  ends and nothing is written.
\<close>

theorem ack_after_handling:
  assumes "handle_frame S (Some f) e e' ok v c s = (c', s')" "cn_written c' \<noteq> cn_written c"
  shows "cn_written c' = cn_written c @ [ack_envelope c v] \<and> env_id v \<noteq> [] \<and> cn_phase c' = cn_phase c \<and>
    (\<exists>t. f e' (wa_account (cn_auth c)) (v\<lparr>env_generation := cn_generation c\<rparr>) t = (Inr (), s'))"
  by (rule acked_handled [OF assms])

definition sample_note :: envelope where
  "sample_note = empty_envelope\<lparr>env_version := Version, env_id := ''e1'', env_type := TypeMessageNew\<rparr>"

theorem ack_after_handling_witness:
  "\<exists>c'. handle_frame (memory_store id []) (Some (\<lambda>e a v s. (Inr (), s))) (sample_env 0) (sample_env 0) True
     sample_note (sample_conn worker_account) worker_store = (c', worker_store) \<and>
   cn_written c' = cn_written (sample_conn worker_account) @ [ack_envelope (sample_conn worker_account) sample_note]"
proof -
  obtain c' where run: "handle_frame (memory_store id []) (Some (\<lambda>e a v s. (Inr (), s))) (sample_env 0) (sample_env 0) True
      sample_note (sample_conn worker_account) worker_store = (c', worker_store)"
    "cn_written c' \<noteq> cn_written (sample_conn worker_account)"
    by (simp add: handle_frame_def handle_event_def sample_note_def validate_def empty_envelope_def
        Version_def TypeMessageNew_def TypeHeartbeat_def TypeAccountStatus_def)
  from ack_after_handling [OF run] run(1) show ?thesis by blast
qed

definition account_status_of :: "'h mem_store gateway \<Rightarrow> string option" where
  "account_status_of g = map_option acc_status (ms_accounts (g_state g) ''acc-1'')"

definition heartbeat :: envelope where
  "heartbeat = empty_envelope\<lparr>env_version := Version, env_type := TypeHeartbeat\<rparr>"

definition live_report :: envelope where
  "live_report = empty_envelope\<lparr>env_version := Version, env_type := TypeAccountStatus,
     env_payload := Some (encode_account_status
       \<lparr>as_state = ''live'', as_external_id = [], as_detail = []\<rparr>)\<rparr>"

definition report :: "nat \<Rightarrow> gw_event" where
  "report i = Frame i (sample_env 0) (sample_env 0) True (Some live_report)"

definition beat :: "nat \<Rightarrow> gw_event" where
  "beat i = Frame i (sample_env 0) (sample_env 0) True (Some heartbeat)"

definition drop_connection :: "gw_event list" where
  "drop_connection = [Frame 0 (sample_env 0) (sample_env 0) True None, Unregister 0]"

text \<open>The state of account \<open>acc-1\<close> and of the connection that carries it.\<close>

definition stored :: "account \<Rightarrow> 'h mem_store gateway \<Rightarrow> bool" where
  "stored a g \<longleftrightarrow> ms_accounts (g_state g) ''acc-1'' = Some a \<and> acc_id a = ''acc-1'' \<and>
     acc_platform a = ''signal'' \<and> acc_generation a = 1"

definition carries :: "nat \<Rightarrow> 'h mem_store gateway \<Rightarrow> conn_phase \<Rightarrow> bool" where
  "carries i g p \<longleftrightarrow> (\<exists>c. g_conns g i = Some c \<and> cn_phase c = p \<and> cn_account_id c = ''acc-1'' \<and>
     cn_generation c = 1 \<and> \<not> cn_dead c)"

lemma report_step:
  assumes "stored a g" "carries i g Open"
  shows "\<exists>g'. gw_step (memory_store id []) None (report i) g = Some g' \<and>
    stored (a\<lparr>acc_status := ''live'', acc_external_id := [], acc_last_seen_at := Some 0\<rparr>) g' \<and>
    carries i g' Open \<and> g_workers g' = g_workers g \<and> ms_credentials (g_state g') = ms_credentials (g_state g) \<and>
    (\<forall>j. j \<noteq> i \<longrightarrow> g_conns g' j = g_conns g j)"
proof -
  have "validate live_report = Inr ()" "env_generation live_report = 0" "env_id live_report = []"
    "env_type live_report = TypeAccountStatus"
    "decode_payload decode_account_status (live_report\<lparr>env_generation := x\<rparr>) =
      Inr \<lparr>as_state = ''live'', as_external_id = [], as_detail = []\<rparr>" for x
    by (simp_all add: live_report_def validate_def empty_envelope_def Version_def TypeAccountStatus_def
        decode_payload_def decode_encode_account_status)
  then show ?thesis
    using assms
    by (auto simp: report_def stored_def carries_def at_phase_def handle_frame_def handle_event_def
        mem_set_identity_def mem_write_def TypeAccountStatus_def TypeHeartbeat_def)
qed

lemma beat_step:
  assumes "stored a g" "carries i g Open"
  shows "\<exists>g'. gw_step (memory_store id []) None (beat i) g = Some g' \<and>
    stored (touched 0 a) g' \<and> carries i g' Open"
  using assms
  by (auto simp: beat_def heartbeat_def validate_def empty_envelope_def Version_def TypeHeartbeat_def
      stored_def carries_def at_phase_def handle_frame_def mem_touch_def mem_write_def)

lemma beats_run:
  "stored a g \<Longrightarrow> carries i g Open \<Longrightarrow>
   \<exists>g' b. mem_gw_run (replicate n (beat i)) g = Some g' \<and> stored b g' \<and> acc_status b = acc_status a \<and>
     carries i g' Open"
proof (induction n arbitrary: g a)
  case (Suc n)
  obtain g1 where g1: "gw_step (memory_store id []) None (beat i) g = Some g1"
    "stored (touched 0 a) g1" "carries i g1 Open"
    using beat_step [OF Suc.prems] by blast
  have "acc_status (touched 0 a) = acc_status a" by simp
  from Suc.IH [OF g1(2,3), unfolded this] show ?case
    unfolding replicate_Suc gw_run.simps g1(1) option.case by blast
qed auto

lemma gw_runI:
  "gw_run S f ds g = Some g' \<Longrightarrow> gw_run S f (ds @ es) g = gw_run S f es g'"
  by (simp add: gw_run_append)

lemma first_connection:
  "\<exists>g a. mem_gw_run (sample_connect 0 @ [report 0]) (new_gateway worker_store) = Some g \<and>
    stored a g \<and> acc_status a = ''live'' \<and> carries 0 g Open \<and> g_workers g = [''acc-1'' \<mapsto> 0] \<and>
    g_conns g 1 = None \<and> ms_credentials (g_state g) ''tok'' = Some ''acc-1''"
proof -
  have "stored (touched minute worker_account) sample_gateway"
    by (simp add: stored_def sample_gateway_def worker_account_def sample_member_def)
  moreover have "carries 0 sample_gateway Open"
    by (simp add: carries_def sample_gateway_def sample_conn_def cn_account_id_def cn_generation_def
        write_json_def worker_account_def sample_member_def Let_def)
  ultimately obtain g where g: "gw_step (memory_store id []) None (report 0) sample_gateway = Some g"
    "stored (touched minute worker_account\<lparr>acc_status := ''live'', acc_external_id := [], acc_last_seen_at := Some 0\<rparr>) g"
    "carries 0 g Open" "g_workers g = g_workers sample_gateway"
    "ms_credentials (g_state g) = ms_credentials (g_state sample_gateway)"
    "\<forall>j. j \<noteq> 0 \<longrightarrow> g_conns g j = g_conns sample_gateway j"
    using report_step by blast
  have "mem_gw_run (sample_connect 0 @ [report 0]) (new_gateway worker_store) = Some g"
    unfolding gw_runI [OF sample_gateway_run] using g(1) by (simp del: gw_step.simps)
  then show ?thesis
    using g(2-6)
    by (intro exI [of _ g] exI [of _ "touched minute worker_account\<lparr>acc_status := ''live'', acc_external_id := [],
        acc_last_seen_at := Some 0\<rparr>"]) (simp add: sample_gateway_def worker_store_def)
qed

lemma drop_run:
  assumes "stored a g" "carries 0 g Open" "g_workers g = [''acc-1'' \<mapsto> 0]" "g_conns g 1 = None"
  shows "\<exists>g'. mem_gw_run drop_connection g = Some g' \<and> stored a g' \<and> carries 0 g' Departed \<and>
    g_workers g' = Map.empty \<and> g_conns g' 1 = None \<and>
    ms_credentials (g_state g') = ms_credentials (g_state g)"
  using assms
  by (auto simp: drop_connection_def at_phase_def stored_def carries_def update_conn_def set_phase_def
      cn_account_id_def cn_generation_def)

lemma reconnect_run:
  assumes "stored a g" "g_workers g = Map.empty" "g_conns g 1 = None"
    "ms_credentials (g_state g) ''tok'' = Some ''acc-1''"
  shows "\<exists>g'. mem_gw_run (sample_connect 1) g = Some g' \<and> stored (touched minute a) g' \<and>
    carries 1 g' Open \<and> g_conns g' 0 = g_conns g 0"
  using assms sample_connect_run [of g a 1]
  by (auto simp: stored_def carries_def sample_conn_def cn_account_id_def cn_generation_def
      write_json_def Let_def)

lemma set_offline_step:
  assumes "stored a g" "carries 0 g Departed"
  shows "\<exists>g'. gw_step (memory_store id []) None (SetOffline 0 (sample_env 0)) g = Some g' \<and>
    stored (a\<lparr>acc_status := ''offline'', acc_last_seen_at := Some 0\<rparr>) g' \<and>
    g_workers g' = g_workers g \<and> ms_credentials (g_state g') = ms_credentials (g_state g) \<and>
    (\<forall>j. j \<noteq> 0 \<longrightarrow> g_conns g' j = g_conns g j)"
  using assms
  by (auto simp: stored_def carries_def at_phase_def update_conn_def mem_set_status_def mem_write_def)

definition reconnect_events :: "nat \<Rightarrow> gw_event list" where
  "reconnect_events n = (sample_connect 0 @ [report 0]) @ drop_connection @ [SetOffline 0 (sample_env 0)] @
     sample_connect 1 @ replicate n (beat 1)"

definition late_write_events :: "gw_event list" where
  "late_write_events = (sample_connect 0 @ [report 0]) @ drop_connection @ sample_connect 1 @
     [report 1] @ [SetOffline 0 (sample_env 0)]"

lemma run_one: "gw_step S f e g = Some g' \<Longrightarrow> gw_run S f [e] g = Some g'"
  by (simp del: gw_step.simps)

lemma stored_status: "stored a g \<Longrightarrow> account_status_of g = Some (acc_status a)"
  by (simp add: stored_def account_status_of_def)

text \<open>
  What the stored presence is worth: after a worker has reconnected, its account stays \<open>offline\<close>
  through any number of heartbeats, because connecting only touches the account; and when the worker
  reports itself live at once, the status write of the connection it replaces, which comes after the
  registry has let it go, can still set the account to \<open>offline\<close>. In both runs the worker is
  connected.
\<close>

theorem presence_not_restored:
  "(\<exists>g c. mem_gw_run (reconnect_events n) (new_gateway worker_store) = Some g \<and>
     g_conns g 1 = Some c \<and> cn_phase c = Open \<and> account_status_of g = Some ''offline'') \<and>
   (\<exists>g c. mem_gw_run late_write_events (new_gateway worker_store) = Some g \<and>
     g_conns g 1 = Some c \<and> cn_phase c = Open \<and> account_status_of g = Some ''offline'')"
proof -
  obtain g0 a where g0: "mem_gw_run (sample_connect 0 @ [report 0]) (new_gateway worker_store) = Some g0"
    "stored a g0" "carries 0 g0 Open" "g_workers g0 = [''acc-1'' \<mapsto> 0]" "g_conns g0 1 = None"
    "ms_credentials (g_state g0) ''tok'' = Some ''acc-1''"
    using first_connection by blast
  obtain g1 where g1: "mem_gw_run drop_connection g0 = Some g1" "stored a g1" "carries 0 g1 Departed"
    "g_workers g1 = Map.empty" "g_conns g1 1 = None" "ms_credentials (g_state g1) ''tok'' = Some ''acc-1''"
    using drop_run [OF g0(2-5)] g0(6) by auto
  note off = set_offline_step
  obtain g2 where g2: "gw_step (memory_store id []) None (SetOffline 0 (sample_env 0)) g1 = Some g2"
    "stored (a\<lparr>acc_status := ''offline'', acc_last_seen_at := Some 0\<rparr>) g2"
    "g_workers g2 = g_workers g1" "ms_credentials (g_state g2) = ms_credentials (g_state g1)"
    "\<forall>j. j \<noteq> 0 \<longrightarrow> g_conns g2 j = g_conns g1 j"
    using off [OF g1(2,3)] by blast
  have "g_workers g2 = Map.empty" "g_conns g2 1 = None"
    "ms_credentials (g_state g2) ''tok'' = Some ''acc-1''" using g1 g2 by auto
  from reconnect_run [OF g2(2) this] obtain g3 b where g3: "mem_gw_run (sample_connect 1) g2 = Some g3"
    "stored b g3" "acc_status b = ''offline''" "carries 1 g3 Open"
    by fastforce
  obtain g4 d where g4: "mem_gw_run (replicate n (beat 1)) g3 = Some g4" "stored d g4"
    "acc_status d = ''offline''" "carries 1 g4 Open"
    using beats_run [OF g3(2,4), of n] g3(3) by auto
  have run1: "mem_gw_run (reconnect_events n) (new_gateway worker_store) = Some g4"
    unfolding reconnect_events_def gw_runI [OF g0(1)] gw_runI [OF g1(1)] gw_runI [OF run_one [OF g2(1)]]
      gw_runI [OF g3(1)] by (rule g4(1))
  obtain h3 where h3: "mem_gw_run (sample_connect 1) g1 = Some h3" "stored (touched minute a) h3"
    "carries 1 h3 Open" "g_conns h3 0 = g_conns g1 0"
    using reconnect_run [OF g1(2,4-6)] by blast
  obtain h4 b' where h4: "gw_step (memory_store id []) None (report 1) h3 = Some h4" "stored b' h4"
    "carries 1 h4 Open" "g_conns h4 0 = g_conns g1 0"
    using report_step [OF h3(2,3)] h3(4) by force
  have "carries 0 h4 Departed" using g1(3) h4(4) by (simp add: carries_def)
  from set_offline_step [OF h4(2) this] obtain h5 d' where
    h5: "gw_step (memory_store id []) None (SetOffline 0 (sample_env 0)) h4 = Some h5" "stored d' h5"
    "acc_status d' = ''offline''" "g_conns h5 1 = g_conns h4 1"
    by fastforce
  have run2: "mem_gw_run late_write_events (new_gateway worker_store) = Some h5"
    unfolding late_write_events_def gw_runI [OF g0(1)] gw_runI [OF g1(1)] gw_runI [OF h3(1)]
      gw_runI [OF run_one [OF h4(1)]] by (rule run_one [OF h5(1)])
  have "carries 1 h5 Open" using h4(3) h5(4) by (simp add: carries_def)
  then show ?thesis
    using run1 run2 g4(2-4) h5(2,3) stored_status by (force simp: carries_def)
qed

end
