(* ===== verification/Auth.thy ===== *)
theory Auth
  imports Database EventSpool
begin

section \<open>Authentication of users\<close>

text \<open>
  \<^verbatim>\<open>internal/auth/service.go\<close>: e-mail login codes, refresh tokens and access tokens, over the tables
  \<open>users\<close>, \<open>auth_logins\<close> and \<open>refresh_tokens\<close>. A record holds what the service takes from libraries:
  SHA-256 and HMAC, the address parser, the JWT library, \<open>crypto/rand\<close> and the server's \<open>lower\<close>
  (\<open>lib_pg_lower\<close>, used by a \<open>CHECK\<close>); the properties that need something of them say so. Shown: a login code can be tried five times, a login and a refresh token
  can be used once.
\<close>

record 'h login_row =
  l_id :: string
  l_email :: string
  l_code_hash :: 'h
  l_expires_at :: time
  l_attempts :: int
  l_consumed_at :: "time option"

record 'h refresh_row =
  f_id :: string
  f_user_id :: string
  f_token_hash :: 'h
  f_expires_at :: time
  f_revoked_at :: "time option"
  f_replaced_by :: "string option"

record 'h auth_db =
  ad_users :: "user_row list"
  ad_logins :: "'h login_row list"
  ad_refresh_tokens :: "'h refresh_row list"

record claims =
  cl_user_id :: string
  cl_token_type :: string
  cl_issuer :: string
  cl_subject :: string
  cl_issued_at :: time
  cl_expires_at :: time

text \<open>
  \<open>lib_jwt_parse key issuer now token\<close> are the claims of a token that the JWT library accepts:
  signed with HS256 under the key, by the issuer, with an expiry that has not passed.
\<close>

record 'h auth_lib =
  lib_sha :: "string \<Rightarrow> 'h"
  lib_hmac :: "string \<Rightarrow> string \<Rightarrow> 'h"
  lib_parse_address :: "string \<Rightarrow> string option"
  lib_to_lower :: "string \<Rightarrow> string"
  lib_pg_lower :: "string \<Rightarrow> string"
  lib_rand_int :: "env \<Rightarrow> nat \<Rightarrow> go_error + nat"
  lib_jwt_sign :: "string \<Rightarrow> claims \<Rightarrow> go_error + string"
  lib_jwt_parse :: "string \<Rightarrow> string \<Rightarrow> time \<Rightarrow> string \<Rightarrow> claims option"

record auth_config =
  cfg_issuer :: string
  cfg_jwt_key :: string
  cfg_hash_key :: string
  cfg_access_lifetime :: time
  cfg_refresh_lifetime :: time
  cfg_login_lifetime :: time
  cfg_debug_code :: bool

record login_start =
  ls_login_id :: string
  ls_expires_at :: time
  ls_debug_code :: string

record token_pair =
  tp_access :: string
  tp_refresh :: string
  tp_expires_at :: time

definition ErrInvalidLogin :: go_error where
  "ErrInvalidLogin = Sentinel ''auth.ErrInvalidLogin''"
definition ErrInvalidRefresh :: go_error where
  "ErrInvalidRefresh = Sentinel ''auth.ErrInvalidRefresh''"
definition ErrInvalidAccess :: go_error where
  "ErrInvalidAccess = Sentinel ''auth.ErrInvalidAccess''"
definition ErrDeliveryUnavailable :: go_error where
  "ErrDeliveryUnavailable = Sentinel ''auth.ErrDeliveryUnavailable''"
definition ErrInvalidEmail :: go_error where
  "ErrInvalidEmail = Sentinel ''auth.ErrInvalidEmail''"

lemmas auth_errors = ErrInvalidLogin_def ErrInvalidRefresh_def ErrInvalidAccess_def
  ErrDeliveryUnavailable_def ErrInvalidEmail_def ErrConstraint_def

text \<open>\<open>NewService\<close>: the configuration, with its defaults.\<close>

definition new_service :: "auth_config \<Rightarrow> go_error + auth_config" where
  "new_service cfg =
     attempt (fail_if (length (cfg_jwt_key cfg) < 32)
       (NewError ''JWT signing key must contain at least 32 bytes'')) (\<lambda>_.
     attempt (fail_if (length (cfg_hash_key cfg) < 32)
       (NewError ''login hash key must contain at least 32 bytes'')) (\<lambda>_.
     Inr (cfg\<lparr>cfg_issuer := (if cfg_issuer cfg = [] then ''say'' else cfg_issuer cfg),
       cfg_access_lifetime := (if cfg_access_lifetime cfg = 0 then 15 * minute else cfg_access_lifetime cfg),
       cfg_refresh_lifetime := (if cfg_refresh_lifetime cfg = 0 then 30 * 24 * 60 * minute
         else cfg_refresh_lifetime cfg),
       cfg_login_lifetime := (if cfg_login_lifetime cfg = 0 then 10 * minute else cfg_login_lifetime cfg)\<rparr>)))"

subsection \<open>Tables\<close>

definition insert_login :: "'h login_row \<Rightarrow> 'h auth_db \<Rightarrow> 'h auth_db option" where
  "insert_login r db =
     (if l_id r \<in> l_id ` set (ad_logins db) then None
      else Some (db\<lparr>ad_logins := ad_logins db @ [r]\<rparr>))"

definition insert_refresh_token :: "'h refresh_row \<Rightarrow> 'h auth_db \<Rightarrow> 'h auth_db option" where
  "insert_refresh_token r db =
     (if f_id r \<in> f_id ` set (ad_refresh_tokens db) \<or>
         f_token_hash r \<in> f_token_hash ` set (ad_refresh_tokens db) \<or>
         f_user_id r \<notin> u_id ` set (ad_users db) then None
      else Some (db\<lparr>ad_refresh_tokens := ad_refresh_tokens db @ [r]\<rparr>))"

text \<open>
  \<open>INSERT INTO users ... ON CONFLICT (email) DO UPDATE SET email = EXCLUDED.email RETURNING id\<close>, with
  the table's \<open>CHECK (email = lower(email))\<close>.
\<close>

definition upsert_user ::
  "'h auth_lib \<Rightarrow> user_row \<Rightarrow> 'h auth_db \<Rightarrow> (string \<times> 'h auth_db) option"
where
  "upsert_user lib r db =
     (if u_email r \<noteq> lib_pg_lower lib (u_email r) then None else
      case row_by u_email (u_email r) (ad_users db) of
        Some u \<Rightarrow> Some (u_id u, db)
      | None \<Rightarrow>
          if u_id r \<in> u_id ` set (ad_users db) then None
          else Some (u_id r, db\<lparr>ad_users := ad_users db @ [r]\<rparr>))"

subsection \<open>Login codes\<close>

definition normalize_email :: "'h auth_lib \<Rightarrow> string \<Rightarrow> go_error + string" where
  "normalize_email lib raw =
     (let raw = trim_space raw in
      case lib_parse_address lib raw of
        None \<Rightarrow> Inl ErrInvalidEmail
      | Some address \<Rightarrow>
          if address \<noteq> raw \<or> length raw > 320 then Inl ErrInvalidEmail
          else Inr (lib_to_lower lib address))"

definition login_code :: "'h auth_lib \<Rightarrow> env \<Rightarrow> go_error + string" where
  "login_code lib e =
     (case lib_rand_int lib e 1000000 of
        Inl err \<Rightarrow> Inl (Wrapped ''generate login code'' err)
      | Inr value \<Rightarrow> Inr (decimal 6 value))"

definition hash_login_code :: "'h auth_lib \<Rightarrow> auth_config \<Rightarrow> string \<Rightarrow> string \<Rightarrow> 'h" where
  "hash_login_code lib cfg login_id code =
     lib_hmac lib (cfg_hash_key cfg) (login_id @ [CHR 0x0A] @ code)"

text \<open>
  \<open>Start\<close>; \<open>sender\<close> is the error or success of \<open>SendLoginCode\<close>, \<open>None\<close> when no sender is configured.
\<close>

definition start_login ::
  "'h auth_lib \<Rightarrow> auth_config \<Rightarrow> (string \<Rightarrow> string \<Rightarrow> go_error + unit) option \<Rightarrow> env \<Rightarrow> string \<Rightarrow>
   'h auth_db \<Rightarrow> (go_error + login_start) \<times> 'h auth_db"
where
  "start_login lib cfg sender e raw_email db =
     (case attempt (fail_if (sender = None \<and> \<not> cfg_debug_code cfg) ErrDeliveryUnavailable) (\<lambda>_.
           attempt (normalize_email lib raw_email) (\<lambda>email.
           attempt (random_value e 0 ''login_'' 16) (\<lambda>login_id.
           attempt (login_code lib e) (\<lambda>code.
           attempt (stmt e 0 ''store login'' (insert_login
             \<lparr>l_id = login_id, l_email = email, l_code_hash = hash_login_code lib cfg login_id code,
              l_expires_at = pg_time (clock e + cfg_login_lifetime cfg), l_attempts = 0,
              l_consumed_at = None\<rparr> db)) (\<lambda>db.
           Inr (email, login_id, code, db)))))) of
        Inl err \<Rightarrow> (Inl err, db)
      | Inr (email, login_id, code, db') \<Rightarrow>
          (case (case sender of None \<Rightarrow> Inr () | Some send \<Rightarrow> send email code) of
             Inl err \<Rightarrow> (Inl (Wrapped ''send login code'' err), db')
           | Inr _ \<Rightarrow>
               (Inr \<lparr>ls_login_id = login_id, ls_expires_at = clock e + cfg_login_lifetime cfg,
                  ls_debug_code = (if cfg_debug_code cfg then code else [])\<rparr>, db')))"

subsection \<open>Tokens\<close>

definition issue_token_pair ::
  "'h auth_lib \<Rightarrow> auth_config \<Rightarrow> env \<Rightarrow> nat \<Rightarrow> nat \<Rightarrow> string \<Rightarrow> 'h auth_db \<Rightarrow>
   go_error + (token_pair \<times> string) \<times> 'h auth_db"
where
  "issue_token_pair lib cfg e r k user_id db =
     (let now = clock e; access_expires_at = now + cfg_access_lifetime cfg in
      attempt (case lib_jwt_sign lib (cfg_jwt_key cfg) \<lparr>cl_user_id = user_id, cl_token_type = ''access'',
          cl_issuer = cfg_issuer cfg, cl_subject = user_id, cl_issued_at = now,
          cl_expires_at = access_expires_at\<rparr> of
        Inl err \<Rightarrow> Inl (Wrapped ''sign access token'' err) | Inr t \<Rightarrow> Inr t) (\<lambda>access_token.
      attempt (random_value e r ''say_refresh_'' 32) (\<lambda>refresh_token.
      attempt (random_value e (r + 1) ''rft_'' 16) (\<lambda>refresh_id.
      attempt (stmt e k ''store refresh token'' (insert_refresh_token
        \<lparr>f_id = refresh_id, f_user_id = user_id, f_token_hash = lib_sha lib refresh_token,
         f_expires_at = pg_time (now + cfg_refresh_lifetime cfg), f_revoked_at = None,
         f_replaced_by = None\<rparr> db)) (\<lambda>db.
      Inr ((\<lparr>tp_access = access_token, tp_refresh = refresh_token,
              tp_expires_at = access_expires_at\<rparr>, refresh_id), db))))))"

definition failed_attempt :: "env \<Rightarrow> 'h login_row \<Rightarrow> 'h login_row" where
  "failed_attempt e r = r\<lparr>l_attempts := l_attempts r + 1,
     l_consumed_at := (if l_attempts r + 1 \<ge> 5 then Some (pg_time (db_clock e)) else l_consumed_at r)\<rparr>"

definition consume_login :: "env \<Rightarrow> 'h login_row \<Rightarrow> 'h login_row" where
  "consume_login e r = r\<lparr>l_consumed_at := Some (pg_time (db_clock e))\<rparr>"

definition usable_login :: "env \<Rightarrow> 'h login_row \<Rightarrow> bool" where
  "usable_login e r \<longleftrightarrow> l_consumed_at r = None \<and> l_attempts r < 5 \<and> \<not> clock e > l_expires_at r"

text \<open>
  The transaction of \<open>Verify\<close>. \<open>Inr (None, _)\<close>: the code is wrong, and the failed attempt is committed
  before \<open>ErrInvalidLogin\<close> is returned.
\<close>

definition verify_tx ::
  "'h auth_lib \<Rightarrow> auth_config \<Rightarrow> env \<Rightarrow> string \<Rightarrow> string \<Rightarrow> 'h auth_db \<Rightarrow>
   go_error + token_pair option \<times> 'h auth_db"
where
  "verify_tx lib cfg e login_id code db =
     attempt (stmt e 0 ''begin login verification'' (Some db)) (\<lambda>db.
     attempt (query_row e 1 ''read login'' ErrInvalidLogin (row_by l_id login_id (ad_logins db))) (\<lambda>login.
     attempt (fail_if (\<not> usable_login e login) ErrInvalidLogin) (\<lambda>_.
     if l_code_hash login \<noteq> hash_login_code lib cfg login_id code then
       attempt (stmt e 2 ''record failed login'' (Some (db\<lparr>ad_logins :=
         update_where (\<lambda>r. l_id r = login_id) (failed_attempt e) (ad_logins db)\<rparr>))) (\<lambda>db.
       attempt (stmt e 3 ''commit failed login'' (Some db)) (\<lambda>db.
       Inr (None, db)))
     else
       attempt (stmt e 2 ''consume login'' (Some (db\<lparr>ad_logins :=
         update_where (\<lambda>r. l_id r = login_id) (consume_login e) (ad_logins db)\<rparr>))) (\<lambda>db.
       attempt (random_value e 0 ''usr_'' 16) (\<lambda>proposed_user_id.
       attempt (stmt e 3 ''upsert user'' (upsert_user lib
         \<lparr>u_id = proposed_user_id, u_email = l_email login\<rparr> db)) (\<lambda>(user_id, db).
       attempt (issue_token_pair lib cfg e 1 4 user_id db) (\<lambda>((pair, _), db).
       attempt (stmt e 5 ''commit login'' (Some db)) (\<lambda>db.
       Inr (Some pair, db)))))))))"

definition verify_login ::
  "'h auth_lib \<Rightarrow> auth_config \<Rightarrow> env \<Rightarrow> string \<Rightarrow> string \<Rightarrow> 'h auth_db \<Rightarrow>
   (go_error + token_pair) \<times> 'h auth_db"
where
  "verify_login lib cfg e login_id code db =
     (case in_tx (verify_tx lib cfg e login_id code) db of
        (Inl err, db') \<Rightarrow> (Inl err, db')
      | (Inr None, db') \<Rightarrow> (Inl ErrInvalidLogin, db')
      | (Inr (Some pair), db') \<Rightarrow> (Inr pair, db'))"

definition revoke_refresh :: "env \<Rightarrow> string \<Rightarrow> 'h refresh_row \<Rightarrow> 'h refresh_row" where
  "revoke_refresh e replacement r = r\<lparr>f_revoked_at := Some (pg_time (db_clock e)), f_replaced_by := Some replacement\<rparr>"

definition refresh_login ::
  "'h auth_lib \<Rightarrow> auth_config \<Rightarrow> env \<Rightarrow> string \<Rightarrow> 'h auth_db \<Rightarrow> (go_error + token_pair) \<times> 'h auth_db"
where
  "refresh_login lib cfg e refresh_token =
     in_tx (\<lambda>db.
       attempt (stmt e 0 ''begin refresh'' (Some db)) (\<lambda>db.
       attempt (query_row e 1 ''read refresh token'' ErrInvalidRefresh
         (row_by f_token_hash (lib_sha lib refresh_token) (ad_refresh_tokens db))) (\<lambda>old.
       attempt (fail_if (f_revoked_at old \<noteq> None \<or> clock e > f_expires_at old) ErrInvalidRefresh) (\<lambda>_.
       attempt (issue_token_pair lib cfg e 0 2 (f_user_id old) db) (\<lambda>((pair, replacement), db).
       attempt (stmt e 3 ''revoke refresh token'' (Some (db\<lparr>ad_refresh_tokens :=
         update_where (\<lambda>r. f_id r = f_id old) (revoke_refresh e replacement) (ad_refresh_tokens db)\<rparr>))) (\<lambda>db.
       attempt (stmt e 4 ''commit refresh'' (Some db)) (\<lambda>db.
       Inr (pair, db))))))))"

definition validate_access_token :: "'h auth_lib \<Rightarrow> auth_config \<Rightarrow> env \<Rightarrow> string \<Rightarrow> go_error + string" where
  "validate_access_token lib cfg e token =
     (case lib_jwt_parse lib (cfg_jwt_key cfg) (cfg_issuer cfg) (clock e) token of
        None \<Rightarrow> Inl ErrInvalidAccess
      | Some claims \<Rightarrow>
          if cl_token_type claims \<noteq> ''access'' \<or> cl_user_id claims = [] then Inl ErrInvalidAccess
          else Inr (cl_user_id claims))"

subsection \<open>Runs\<close>

text \<open>The calls of the service that write the database, one after the other.\<close>

datatype auth_op =
    OpStart "(string \<Rightarrow> string \<Rightarrow> go_error + unit) option" env string
  | OpVerify env string string
  | OpRefresh env string

fun auth_step :: "'h auth_lib \<Rightarrow> auth_config \<Rightarrow> auth_op \<Rightarrow> 'h auth_db \<Rightarrow> 'h auth_db" where
  "auth_step lib cfg (OpStart sender e email) db = snd (start_login lib cfg sender e email db)"
| "auth_step lib cfg (OpVerify e login code) db = snd (verify_login lib cfg e login code db)"
| "auth_step lib cfg (OpRefresh e token) db = snd (refresh_login lib cfg e token db)"

definition auth_run :: "'h auth_lib \<Rightarrow> auth_config \<Rightarrow> auth_op list \<Rightarrow> 'h auth_db \<Rightarrow> 'h auth_db" where
  "auth_run lib cfg ops db = fold (auth_step lib cfg) ops db"

lemma auth_run_simps [simp]:
  "auth_run lib cfg [] db = db"
  "auth_run lib cfg (op # ops) db = auth_run lib cfg ops (auth_step lib cfg op db)"
  by (simp_all add: auth_run_def)

subsection \<open>What each call does to the tables\<close>

lemma insert_loginD:
  "insert_login r db = Some db' \<Longrightarrow>
   ad_logins db' = ad_logins db @ [r] \<and> ad_refresh_tokens db' = ad_refresh_tokens db \<and>
   ad_users db' = ad_users db \<and> l_id r \<notin> l_id ` set (ad_logins db)"
  by (auto simp: insert_login_def split: if_splits)

lemma insert_refresh_tokenD:
  "insert_refresh_token r db = Some db' \<Longrightarrow>
   ad_refresh_tokens db' = ad_refresh_tokens db @ [r] \<and> ad_logins db' = ad_logins db \<and>
   ad_users db' = ad_users db \<and> f_token_hash r \<notin> f_token_hash ` set (ad_refresh_tokens db)"
  by (auto simp: insert_refresh_token_def split: if_splits)

lemma upsert_userD:
  assumes "upsert_user lib r db = Some (i, db')"
  shows "ad_logins db' = ad_logins db" "ad_refresh_tokens db' = ad_refresh_tokens db"
    "\<exists>u. row_by u_email (u_email r) (ad_users db') = Some u \<and> u_id u = i"
  using assms by (auto simp: upsert_user_def row_by_append split: option.splits if_splits)

lemma issue_token_pairD:
  assumes "issue_token_pair lib cfg e r k u db = Inr ((pair, i), db')"
  shows "ad_logins db' = ad_logins db" "ad_users db' = ad_users db"
    "\<exists>row. ad_refresh_tokens db' = ad_refresh_tokens db @ [row] \<and>
      f_token_hash row = lib_sha lib (tp_refresh pair) \<and> f_user_id row = u \<and> f_revoked_at row = None"
    "tp_expires_at pair = clock e + cfg_access_lifetime cfg"
    "lib_jwt_sign lib (cfg_jwt_key cfg) \<lparr>cl_user_id = u, cl_token_type = ''access'',
       cl_issuer = cfg_issuer cfg, cl_subject = u, cl_issued_at = clock e,
       cl_expires_at = tp_expires_at pair\<rparr> = Inr (tp_access pair)"
  using assms
  by (auto simp: issue_token_pair_def Let_def attempt_dests dest!: insert_refresh_tokenD
      split: sum.splits)

lemma start_login_tables:
  "ad_refresh_tokens (snd (start_login lib cfg sender e email db)) = ad_refresh_tokens db"
  "\<exists>new. ad_logins (snd (start_login lib cfg sender e email db)) = ad_logins db @ new"
  by (auto simp: start_login_def attempt_dests dest!: insert_loginD split: sum.splits)

text \<open>A committed \<open>Verify\<close>: the login was usable; the code was wrong or the login is now consumed.\<close>

lemma verify_wrong:
  assumes "verify_tx lib cfg e L code db = Inr (None, db')"
  shows "\<exists>r. row_by l_id L (ad_logins db) = Some r \<and> usable_login e r \<and>
    l_code_hash r \<noteq> hash_login_code lib cfg L code \<and>
    db' = db\<lparr>ad_logins := update_where (\<lambda>r. l_id r = L) (failed_attempt e) (ad_logins db)\<rparr>"
  using assms by (auto simp: verify_tx_def attempt_dests split: if_splits)

lemma verify_right:
  assumes "verify_tx lib cfg e L code db = Inr (Some pair, db')"
  shows "\<exists>r u. row_by l_id L (ad_logins db) = Some r \<and> usable_login e r \<and>
    l_code_hash r = hash_login_code lib cfg L code \<and>
    ad_logins db' = update_where (\<lambda>r. l_id r = L) (consume_login e) (ad_logins db) \<and>
    row_by u_email (l_email r) (ad_users db') = Some u \<and>
    (u \<in> set (ad_users db) \<or> u_id u \<noteq> []) \<and>
    lib_jwt_sign lib (cfg_jwt_key cfg) \<lparr>cl_user_id = u_id u, cl_token_type = ''access'',
      cl_issuer = cfg_issuer cfg, cl_subject = u_id u, cl_issued_at = clock e,
      cl_expires_at = tp_expires_at pair\<rparr> = Inr (tp_access pair) \<and>
    (\<exists>row. ad_refresh_tokens db' = ad_refresh_tokens db @ [row])"
proof -
  from assms obtain r p i u db1 db2 where
    r: "row_by l_id L (ad_logins db) = Some r" "usable_login e r"
      "l_code_hash r = hash_login_code lib cfg L code"
    and p: "random_value e 0 ''usr_'' 16 = Inr p"
    and up: "upsert_user lib \<lparr>u_id = p, u_email = l_email r\<rparr> (db\<lparr>ad_logins :=
         update_where (\<lambda>r. l_id r = L) (consume_login e) (ad_logins db)\<rparr>) = Some (u, db1)"
    and iss: "issue_token_pair lib cfg e 1 4 u db1 = Inr ((pair, i), db')"
    by (auto simp: verify_tx_def attempt_dests split: if_splits prod.splits)
  note U = upsert_userD [OF up] and I = issue_token_pairD [OF iss]
  from U(3) obtain w where w: "row_by u_email (l_email r) (ad_users db1) = Some w" "u_id w = u"
    by auto
  have "w \<in> set (ad_users db) \<or> u_id w \<noteq> []"
    using up w p by (auto simp: upsert_user_def row_by_append random_value_eq_Inr dest: row_byD
        split: option.splits if_splits)
  then show ?thesis using r U I w by auto
qed

lemma verify_login_cases:
  obtains (Unchanged) err where "verify_login lib cfg e L code db = (Inl err, db)"
    | (Wrong) db' where "verify_tx lib cfg e L code db = Inr (None, db')"
        "verify_login lib cfg e L code db = (Inl ErrInvalidLogin, db')"
    | (Right) pair db' where "verify_tx lib cfg e L code db = Inr (Some pair, db')"
        "verify_login lib cfg e L code db = (Inr pair, db')"
proof (cases "verify_tx lib cfg e L code db")
  case (Inl err)
  then show thesis by (intro Unchanged) (simp add: verify_login_def in_tx_def)
next
  case (Inr v)
  obtain o' db' where v: "v = (o', db')" by (cases v)
  show thesis
  proof (cases o')
    case None
    with Inr v Wrong show thesis by (simp add: verify_login_def in_tx_def)
  next
    case (Some pair)
    with Inr v Right show thesis by (simp add: verify_login_def in_tx_def)
  qed
qed

lemma refresh_loginD:
  assumes "refresh_login lib cfg e token db = (Inr pair, db')"
  shows "\<exists>old row replacement. row_by f_token_hash (lib_sha lib token) (ad_refresh_tokens db) = Some old \<and>
    f_revoked_at old = None \<and> ad_logins db' = ad_logins db \<and> ad_users db' = ad_users db \<and>
    ad_refresh_tokens db' = update_where (\<lambda>r. f_id r = f_id old) (revoke_refresh e replacement)
      (ad_refresh_tokens db @ [row]) \<and>
    lib_jwt_sign lib (cfg_jwt_key cfg) \<lparr>cl_user_id = f_user_id old, cl_token_type = ''access'',
      cl_issuer = cfg_issuer cfg, cl_subject = f_user_id old, cl_issued_at = clock e,
      cl_expires_at = tp_expires_at pair\<rparr> = Inr (tp_access pair)"
proof -
  from assms obtain old i db1 where
    old: "row_by f_token_hash (lib_sha lib token) (ad_refresh_tokens db) = Some old"
      "f_revoked_at old = None"
    and iss: "issue_token_pair lib cfg e 0 2 (f_user_id old) db = Inr ((pair, i), db1)"
    and db': "db' = db1\<lparr>ad_refresh_tokens := update_where (\<lambda>r. f_id r = f_id old)
         (revoke_refresh e i) (ad_refresh_tokens db1)\<rparr>"
    by (auto simp: refresh_login_def in_tx_Inr attempt_dests split: prod.splits)
  note I = issue_token_pairD [OF iss]
  from I(3) obtain row where "ad_refresh_tokens db1 = ad_refresh_tokens db @ [row]" by blast
  then show ?thesis using old I db' by auto
qed

lemma refresh_login_cases:
  obtains (Unchanged) err where "refresh_login lib cfg e token db = (Inl err, db)"
    | (Rotated) pair db' where "refresh_login lib cfg e token db = (Inr pair, db')"
proof (cases "refresh_login lib cfg e token db")
  case (Pair v db')
  show thesis
  proof (cases v)
    case (Inl err)
    with Pair have "db' = db" by (auto simp: refresh_login_def dest: in_tx_Inl)
    with Pair Inl Unchanged show thesis by simp
  qed (use Pair Rotated in simp)
qed

subsection \<open>Login codes run out\<close>

text \<open>
  \<open>spent n r\<close>: the login is consumed or \<open>n\<close> codes have been refused. \<open>same_login\<close>: a later state of
  the same login.
\<close>

definition spent :: "int \<Rightarrow> 'h login_row \<Rightarrow> bool" where
  "spent n r \<longleftrightarrow> l_consumed_at r \<noteq> None \<or> n \<le> l_attempts r"

definition same_login :: "'h login_row \<Rightarrow> 'h login_row \<Rightarrow> bool" where
  "same_login r r' \<longleftrightarrow> l_id r' = l_id r \<and> l_email r' = l_email r \<and> l_code_hash r' = l_code_hash r \<and>
     l_expires_at r' = l_expires_at r \<and> (\<forall>n. spent n r \<longrightarrow> spent n r')"

lemma same_login_refl [simp, intro]: "same_login r r"
  by (simp add: same_login_def)

lemma same_login_trans: "same_login r s \<Longrightarrow> same_login s t \<Longrightarrow> same_login r t"
  by (simp add: same_login_def)

lemma same_login_updates:
  "same_login r (failed_attempt e r)" "same_login r (consume_login e r)"
  by (auto simp: same_login_def spent_def failed_attempt_def consume_login_def)

lemma row_by_login_update:
  "row_by l_id L (update_where (\<lambda>r. l_id r = M) (failed_attempt e) rows) =
     map_option (\<lambda>r. if l_id r = M then failed_attempt e r else r) (row_by l_id L rows)"
  "row_by l_id L (update_where (\<lambda>r. l_id r = M) (consume_login e) rows) =
     map_option (\<lambda>r. if l_id r = M then consume_login e r else r) (row_by l_id L rows)"
  by (rule row_by_update_where; simp add: failed_attempt_def consume_login_def)+

lemma auth_step_login:
  assumes "row_by l_id L (ad_logins db) = Some r"
  shows "\<exists>r'. row_by l_id L (ad_logins (auth_step lib cfg op db)) = Some r' \<and> same_login r r'"
proof (cases op)
  case (OpStart sender e email)
  then show ?thesis using start_login_tables(2) [of lib cfg sender e email db] assms
    by (auto simp: row_by_append)
next
  case (OpVerify e M code)
  show ?thesis
  proof (cases rule: verify_login_cases [of lib cfg e M code db])
    case (Unchanged err)
    then show ?thesis using OpVerify assms by simp
  next
    case (Wrong db')
    then show ?thesis using OpVerify assms
      by (auto simp: row_by_login_update same_login_updates dest!: verify_wrong)
  next
    case (Right pair db')
    then show ?thesis using OpVerify assms
      by (auto simp: row_by_login_update same_login_updates dest!: verify_right)
  qed
next
  case (OpRefresh e token)
  then have "ad_logins (auth_step lib cfg op db) = ad_logins db"
    by (cases rule: refresh_login_cases [of lib cfg e token db]) (auto dest: refresh_loginD)
  then show ?thesis using assms by auto
qed

lemma auth_run_login:
  assumes "row_by l_id L (ad_logins db) = Some r"
  shows "\<exists>r'. row_by l_id L (ad_logins (auth_run lib cfg ops db)) = Some r' \<and> same_login r r'"
  using assms
proof (induction ops arbitrary: db r)
  case (Cons op ops)
  from auth_step_login [OF Cons.prems, of lib cfg op] obtain r1 where
    r1: "row_by l_id L (ad_logins (auth_step lib cfg op db)) = Some r1" "same_login r r1" by blast
  from Cons.IH [OF r1(1)] r1(2) show ?case by (auto intro: same_login_trans)
qed simp

text \<open>A wrong code for login \<open>L\<close>, presented in time, by a call during which nothing fails.\<close>

fun wrong_guess :: "'h auth_lib \<Rightarrow> auth_config \<Rightarrow> 'h login_row \<Rightarrow> auth_op \<Rightarrow> bool" where
  "wrong_guess lib cfg r (OpVerify e L code) \<longleftrightarrow> L = l_id r \<and> healthy e \<and> clock e \<le> l_expires_at r \<and>
     hash_login_code lib cfg L code \<noteq> l_code_hash r"
| "wrong_guess lib cfg r op \<longleftrightarrow> False"

lemma wrong_guess_same: "same_login r s \<Longrightarrow> wrong_guess lib cfg s op = wrong_guess lib cfg r op"
  by (cases op) (auto simp: same_login_def)

lemma wrong_guess_step:
  assumes "row_by l_id (l_id r) (ad_logins db) = Some r" "wrong_guess lib cfg r op"
    "spent n r" "n < 5"
  shows "\<exists>r'. row_by l_id (l_id r) (ad_logins (auth_step lib cfg op db)) = Some r' \<and>
    same_login r r' \<and> spent (n + 1) r'"
proof -
  from assms(2) obtain e code where op: "op = OpVerify e (l_id r) code" "healthy e"
    "clock e \<le> l_expires_at r" "hash_login_code lib cfg (l_id r) code \<noteq> l_code_hash r"
    by (cases op) auto
  show ?thesis
  proof (cases "usable_login e r")
    case True
    with op assms(1) have "auth_step lib cfg op db =
      db\<lparr>ad_logins := update_where (\<lambda>s. l_id s = l_id r) (failed_attempt e) (ad_logins db)\<rparr>"
      by (simp add: verify_login_def in_tx_def verify_tx_def)
    then show ?thesis using assms(1,3) same_login_updates(1) [of r e]
      by (auto simp: row_by_login_update spent_def failed_attempt_def)
  next
    case False
    with op assms(1) have "auth_step lib cfg op db = db"
      by (simp add: verify_login_def in_tx_def verify_tx_def)
    with False op(3) assms show ?thesis by (auto simp: usable_login_def spent_def)
  qed
qed

lemma wrong_guesses_spent:
  assumes "row_by l_id (l_id r) (ad_logins db) = Some r" "spent n r"
    "n + int (length (filter (wrong_guess lib cfg r) ops)) \<ge> 5"
  shows "\<exists>r'. row_by l_id (l_id r) (ad_logins (auth_run lib cfg ops db)) = Some r' \<and> spent 5 r'"
  using assms
proof (induction ops arbitrary: db r n)
  case Nil
  then show ?case by (auto simp: spent_def)
next
  case (Cons op ops)
  show ?case
  proof (cases "wrong_guess lib cfg r op \<and> n < 5")
    case True
    with wrong_guess_step [OF Cons.prems(1) _ Cons.prems(2)] obtain r1 where
      r1: "row_by l_id (l_id r) (ad_logins (auth_step lib cfg op db)) = Some r1"
        "same_login r r1" "spent (n + 1) r1" by blast
    have id: "l_id r1 = l_id r" using r1(2) by (simp add: same_login_def)
    have "n + 1 + int (length (filter (wrong_guess lib cfg r1) ops)) \<ge> 5"
      using True Cons.prems(3) by (simp add: wrong_guess_same [OF r1(2)] cong: filter_cong)
    from Cons.IH [OF _ r1(3) this] r1(1) id show ?thesis by simp
  next
    case False
    from auth_step_login [OF Cons.prems(1)] obtain r1 where
      r1: "row_by l_id (l_id r) (ad_logins (auth_step lib cfg op db)) = Some r1" "same_login r r1"
      by blast
    have id: "l_id r1 = l_id r" using r1(2) by (simp add: same_login_def)
    have "spent n r1" using r1(2) Cons.prems(2) by (simp add: same_login_def)
    moreover have "n + int (length (filter (wrong_guess lib cfg r1) ops)) \<ge> 5"
      using False Cons.prems(3)
      by (auto simp: wrong_guess_same [OF r1(2)] cong: filter_cong split: if_splits)
    ultimately show ?thesis using Cons.IH [of r1] r1(1) id by simp
  qed
qed

text \<open>A login that is spent accepts no code, whatever the clocks say.\<close>

lemma spent_login_refused:
  assumes "row_by l_id L (ad_logins db) = Some r" "spent 5 r"
  shows "snd (verify_login lib cfg e L code db) = db"
    "healthy e \<Longrightarrow> fst (verify_login lib cfg e L code db) = Inl ErrInvalidLogin"
    "fst (verify_login lib cfg e L code db) \<noteq> Inr pair"
  using assms
  by (auto simp: verify_login_def in_tx_def verify_tx_def usable_login_def spent_def fail_if_def
      stmt_def query_row_def split: option.splits)

text \<open>
  C18. Five wrong codes use a login up. In every sequence of calls of the service that holds five
  wrong codes for one login (calls that nothing disturbs, made before the login expires), in any
  order and mixed with any other calls, every later \<open>Verify\<close> of this login is refused, even
  with the right code and whatever its clock says, and changes nothing.
\<close>

theorem login_guesses_bounded:
  assumes "row_by l_id (l_id r) (ad_logins db) = Some r" "0 \<le> l_attempts r"
    "5 \<le> length (filter (wrong_guess lib cfg r) ops)"
  shows "\<exists>err. verify_login lib cfg e (l_id r) code (auth_run lib cfg ops db) =
    (Inl err, auth_run lib cfg ops db) \<and> (healthy e \<longrightarrow> err = ErrInvalidLogin)"
proof -
  from assms(2) have "spent 0 r" by (simp add: spent_def)
  from wrong_guesses_spent [OF assms(1) this, of lib cfg ops] assms(3) obtain r' where
    r': "row_by l_id (l_id r) (ad_logins (auth_run lib cfg ops db)) = Some r'" "spent 5 r'" by auto
  note R = spent_login_refused [OF r', where lib = lib and cfg = cfg and e = e and code = code]
  show ?thesis using R
    by (cases "verify_login lib cfg e (l_id r) code (auth_run lib cfg ops db)"; cases "fst
      (verify_login lib cfg e (l_id r) code (auth_run lib cfg ops db))") auto
qed

text \<open>A code that was accepted is not accepted again.\<close>

lemma login_single_use:
  assumes "verify_login lib cfg e L code db = (Inr pair, db')"
  shows "fst (verify_login lib cfg e' L code' (auth_run lib cfg ops db')) \<noteq> Inr pair'"
proof (cases rule: verify_login_cases [of lib cfg e L code db])
  case (Right p d)
  with assms have "verify_tx lib cfg e L code db = Inr (Some p, db')" by simp
  from verify_right [OF this] obtain r where r: "row_by l_id L (ad_logins db) = Some r"
    "ad_logins db' = update_where (\<lambda>r. l_id r = L) (consume_login e) (ad_logins db)" by blast
  then have "row_by l_id L (ad_logins db') = Some (consume_login e r)"
    by (simp add: row_by_login_update row_by_key [OF r(1)])
  from auth_run_login [OF this, of lib cfg ops] obtain r' where
    r': "row_by l_id L (ad_logins (auth_run lib cfg ops db')) = Some r'"
      "same_login (consume_login e r) r'" by blast
  have "spent 5 r'" using r'(2) by (auto simp: same_login_def spent_def consume_login_def)
  then show ?thesis by (rule spent_login_refused(3) [OF r'(1)])
qed (use assms in simp_all)

subsection \<open>Refresh tokens rotate\<close>

definition revoked :: "'h \<Rightarrow> 'h auth_db \<Rightarrow> bool" where
  "revoked h db \<longleftrightarrow> (\<exists>r. row_by f_token_hash h (ad_refresh_tokens db) = Some r \<and> f_revoked_at r \<noteq> None)"

lemma row_by_refresh_update:
  "row_by f_token_hash h (update_where (\<lambda>r. f_id r = i) (revoke_refresh e k) rows) =
     map_option (\<lambda>r. if f_id r = i then revoke_refresh e k r else r) (row_by f_token_hash h rows)"
  by (rule row_by_update_where) (simp add: revoke_refresh_def)

lemma refresh_revokes:
  assumes "refresh_login lib cfg e token db = (Inr pair, db')"
  shows "revoked (lib_sha lib token) db'"
  using refresh_loginD [OF assms]
  by (auto simp: revoked_def row_by_refresh_update row_by_append revoke_refresh_def)

lemma auth_step_revoked:
  assumes "revoked h db"
  shows "revoked h (auth_step lib cfg op db)"
proof (cases op)
  case (OpStart sender e email)
  then show ?thesis using assms by (simp add: revoked_def start_login_tables(1))
next
  case (OpVerify e M code)
  show ?thesis
  proof (cases rule: verify_login_cases [of lib cfg e M code db])
    case (Unchanged err)
    then show ?thesis using OpVerify assms by simp
  next
    case (Wrong db')
    then show ?thesis using OpVerify assms by (auto simp: revoked_def dest!: verify_wrong)
  next
    case (Right pair db')
    then show ?thesis using OpVerify assms
      by (auto simp: revoked_def row_by_append dest!: verify_right)
  qed
next
  case (OpRefresh e token)
  show ?thesis
  proof (cases rule: refresh_login_cases [of lib cfg e token db])
    case (Unchanged err)
    then show ?thesis using OpRefresh assms by simp
  next
    case (Rotated pair db')
    from refresh_loginD [OF this] obtain i row k where "ad_refresh_tokens db' =
      update_where (\<lambda>r. f_id r = i) (revoke_refresh e k) (ad_refresh_tokens db @ [row])"
      by blast
    moreover from assms obtain r where
      "row_by f_token_hash h (ad_refresh_tokens db) = Some r" "f_revoked_at r \<noteq> None"
      by (auto simp: revoked_def)
    ultimately show ?thesis using OpRefresh Rotated
      by (simp add: revoked_def row_by_refresh_update row_by_append revoke_refresh_def)
  qed
qed

lemma auth_run_revoked: "revoked h db \<Longrightarrow> revoked h (auth_run lib cfg ops db)"
  by (induction ops arbitrary: db) (simp_all add: auth_step_revoked)

lemma revoked_refused:
  assumes "revoked (lib_sha lib token) db"
  shows "\<exists>err. refresh_login lib cfg e token db = (Inl err, db) \<and>
    (healthy e \<longrightarrow> err = ErrInvalidRefresh)"
  using assms
  by (auto simp: revoked_def refresh_login_def in_tx_def stmt_def query_row_def split: option.splits)

text \<open>
  C19. A refresh token works once: after a successful \<open>Refresh\<close>, and after any further calls of the
  service, presenting the same token again fails and changes nothing; it fails with
  \<open>ErrInvalidRefresh\<close> unless the database fails first.
\<close>

theorem refresh_once:
  assumes "refresh_login lib cfg e token db = (Inr pair, db')"
  shows "\<exists>err. refresh_login lib cfg e' token (auth_run lib cfg ops db') =
    (Inl err, auth_run lib cfg ops db') \<and> (healthy e' \<longrightarrow> err = ErrInvalidRefresh)"
  by (intro revoked_refused auth_run_revoked refresh_revokes [OF assms])

subsection \<open>Access tokens identify the user\<close>

text \<open>
  What the service relies on of the JWT library: a token it signed parses, under the same key and
  for the issuer of its claims, to the same user and type until it expires. Times in a token have
  the resolution of a second.
\<close>

definition jwt_sound :: "'h auth_lib \<Rightarrow> bool" where
  "jwt_sound lib \<longleftrightarrow> (\<forall>key c now token. lib_jwt_sign lib key c = Inr token \<longrightarrow>
     now < cl_expires_at c - cl_expires_at c mod second \<longrightarrow>
     (\<exists>c'. lib_jwt_parse lib key (cl_issuer c) now token = Some c' \<and>
        cl_user_id c' = cl_user_id c \<and> cl_token_type c' = cl_token_type c))"

lemma validate_signed:
  assumes "jwt_sound lib" "u \<noteq> []"
    "lib_jwt_sign lib (cfg_jwt_key cfg) \<lparr>cl_user_id = u, cl_token_type = ''access'',
      cl_issuer = cfg_issuer cfg, cl_subject = u, cl_issued_at = t, cl_expires_at = x\<rparr> = Inr token"
    "clock e < x - x mod second"
  shows "validate_access_token lib cfg e token = Inr u"
proof -
  from assms(1) [unfolded jwt_sound_def, rule_format, OF assms(3)] assms(4) obtain c where
    "lib_jwt_parse lib (cfg_jwt_key cfg) (cfg_issuer cfg) (clock e) token = Some c"
    "cl_user_id c = u" "cl_token_type c = ''access''" by auto
  with assms(2) show ?thesis by (simp add: validate_access_token_def)
qed

text \<open>
  C38. The access token that a verified login yields authenticates, until the second in which it
  expires, as the user whose e-mail address the login was started for: the one user row with this
  address, existing before or made by this call.
\<close>

theorem access_token_identifies:
  assumes "jwt_sound lib" "verify_login lib cfg e L code db = (Inr pair, db')"
    "[] \<notin> u_id ` set (ad_users db)"
    "clock e' < tp_expires_at pair - tp_expires_at pair mod second"
  shows "\<exists>r u. row_by l_id L (ad_logins db) = Some r \<and>
    l_code_hash r = hash_login_code lib cfg L code \<and>
    row_by u_email (l_email r) (ad_users db') = Some u \<and>
    validate_access_token lib cfg e' (tp_access pair) = Inr (u_id u)"
proof (cases rule: verify_login_cases [of lib cfg e L code db])
  case (Right p d)
  with assms(2) have "verify_tx lib cfg e L code db = Inr (Some pair, db')" by simp
  from verify_right [OF this] obtain r u where
    r: "row_by l_id L (ad_logins db) = Some r" "l_code_hash r = hash_login_code lib cfg L code"
      "row_by u_email (l_email r) (ad_users db') = Some u"
    and u: "u \<in> set (ad_users db) \<or> u_id u \<noteq> []"
    and token: "lib_jwt_sign lib (cfg_jwt_key cfg) \<lparr>cl_user_id = u_id u, cl_token_type = ''access'',
      cl_issuer = cfg_issuer cfg, cl_subject = u_id u, cl_issued_at = clock e,
      cl_expires_at = tp_expires_at pair\<rparr> = Inr (tp_access pair)" by blast
  from u assms(3) have "u_id u \<noteq> []" by (auto simp: image_iff)
  from validate_signed [OF assms(1) this token assms(4)] r show ?thesis by blast
qed (use assms in simp_all)

subsection \<open>Worked examples\<close>

text \<open>
  A toy library: digests are the texts themselves, a token is the user id behind \<open>jwt:\<close>, and the
  parser accepts it for the user.
\<close>

definition toy_lib :: "string auth_lib" where
  "toy_lib = \<lparr>lib_sha = (\<lambda>s. s), lib_hmac = (\<lambda>k s. k @ s), lib_parse_address = Some,
     lib_to_lower = (\<lambda>s. s), lib_pg_lower = (\<lambda>s. s),
     lib_rand_int = (\<lambda>e n. Inr 123456),
     lib_jwt_sign = (\<lambda>k c. if CHR 0x3A \<in> set (cl_token_type c) then Inl ErrInvalidAccess
       else Inr (cl_token_type c @ CHR 0x3A # cl_user_id c)),
     lib_jwt_parse = (\<lambda>k i t token. case dropWhile (\<lambda>x. x \<noteq> CHR 0x3A) token of [] \<Rightarrow> None
       | _ # u \<Rightarrow> Some \<lparr>cl_user_id = u, cl_token_type = takeWhile (\<lambda>x. x \<noteq> CHR 0x3A) token,
           cl_issuer = i, cl_subject = u, cl_issued_at = t, cl_expires_at = t\<rparr>)\<rparr>"

definition toy_cfg :: auth_config where
  "toy_cfg = \<lparr>cfg_issuer = ''say'', cfg_jwt_key = replicate 32 CHR ''k'', cfg_hash_key = ''h'',
     cfg_access_lifetime = 15 * minute, cfg_refresh_lifetime = 30 * 24 * 60 * minute,
     cfg_login_lifetime = 10 * minute, cfg_debug_code = True\<rparr>"

definition toy_login :: "string login_row" where
  "toy_login = \<lparr>l_id = ''login_1'', l_email = ''a@b'', l_code_hash = ''hlogin_1'' @ [CHR 0x0A] @ ''123456'',
     l_expires_at = 10 * minute, l_attempts = 0, l_consumed_at = None\<rparr>"

definition toy_db :: "string auth_db" where
  "toy_db = \<lparr>ad_users = [\<lparr>u_id = ''usr_1'', u_email = ''a@b''\<rparr>], ad_logins = [toy_login],
     ad_refresh_tokens = [\<lparr>f_id = ''old'', f_user_id = ''usr_1'', f_token_hash = ''secret'',
       f_expires_at = minute, f_revoked_at = None, f_replaced_by = None\<rparr>]\<rparr>"

lemmas toy_defs = toy_lib_def toy_cfg_def toy_login_def toy_db_def second_def minute_def

text \<open>Five wrong codes, with other calls between them; then the right code is refused.\<close>

theorem login_guesses_bounded_witness:
  "\<exists>err. verify_login toy_lib toy_cfg (sample_env 1) ''login_1'' ''123456''
     (auth_run toy_lib toy_cfg
       (OpRefresh (sample_env 1) ''secret'' # replicate 5 (OpVerify (sample_env 1) ''login_1'' ''000000''))
       toy_db) = (Inl err, auth_run toy_lib toy_cfg
       (OpRefresh (sample_env 1) ''secret'' # replicate 5 (OpVerify (sample_env 1) ''login_1'' ''000000''))
       toy_db) \<and> (healthy (sample_env 1) \<longrightarrow> err = ErrInvalidLogin)"
  using login_guesses_bounded [of toy_login toy_db toy_lib toy_cfg
      "OpRefresh (sample_env 1) ''secret'' # replicate 5 (OpVerify (sample_env 1) ''login_1'' ''000000'')"
      "sample_env 1" "''123456''"]
  by (simp add: toy_defs hash_login_code_def)

lemma toy_refresh:
  "\<exists>pair db'. refresh_login toy_lib toy_cfg (sample_env 1) ''secret'' toy_db = (Inr pair, db')"
  by (simp add: toy_defs refresh_login_def in_tx_def issue_token_pair_def insert_refresh_token_def
      Let_def)

theorem refresh_once_witness:
  "\<exists>pair db' err. refresh_login toy_lib toy_cfg (sample_env 1) ''secret'' toy_db = (Inr pair, db') \<and>
     refresh_login toy_lib toy_cfg (sample_env 2) ''secret'' db' = (Inl err, db')"
proof -
  from toy_refresh obtain pair db' where
    *: "refresh_login toy_lib toy_cfg (sample_env 1) ''secret'' toy_db = (Inr pair, db')" by blast
  from refresh_once [OF *, of "sample_env 2" "[]"] * show ?thesis by auto
qed

lemma takeWhile_dropWhile_colon:
  "CHR 0x3A \<notin> set s \<Longrightarrow> takeWhile (\<lambda>x. x \<noteq> CHR 0x3A) (s @ CHR 0x3A # u) = s"
  "CHR 0x3A \<notin> set s \<Longrightarrow> dropWhile (\<lambda>x. x \<noteq> CHR 0x3A) (s @ CHR 0x3A # u) = CHR 0x3A # u"
  by (induction s) auto

theorem access_token_identifies_witness:
  "\<exists>pair db' r u. verify_login toy_lib toy_cfg (sample_env 1) ''login_1'' ''123456'' toy_db = (Inr pair, db') \<and>
     row_by l_id ''login_1'' (ad_logins toy_db) = Some r \<and> row_by u_email (l_email r) (ad_users db') = Some u \<and>
     validate_access_token toy_lib toy_cfg (sample_env 2) (tp_access pair) = Inr (u_id u)"
proof -
  have "\<exists>pair db'. verify_login toy_lib toy_cfg (sample_env 1) ''login_1'' ''123456'' toy_db = (Inr pair, db') \<and>
      tp_expires_at pair = 1 + 15 * minute"
    by (simp add: toy_defs verify_login_def verify_tx_def in_tx_def issue_token_pair_def Let_def
        usable_login_def hash_login_code_def upsert_user_def insert_refresh_token_def update_where_def
        consume_login_def)
  then obtain pair db' where
    v: "verify_login toy_lib toy_cfg (sample_env 1) ''login_1'' ''123456'' toy_db = (Inr pair, db')"
      "tp_expires_at pair = 1 + 15 * minute" by blast
  have "jwt_sound toy_lib"
    by (simp add: jwt_sound_def toy_lib_def takeWhile_dropWhile_colon split: if_splits)
  moreover have "[] \<notin> u_id ` set (ad_users toy_db)" by (simp add: toy_db_def)
  moreover have "clock (sample_env 2) < tp_expires_at pair - tp_expires_at pair mod second"
    using v(2) by (simp add: minute_def second_def)
  ultimately show ?thesis using access_token_identifies [OF _ v(1)] v(1) by blast
qed

end
