(* ===== verification/EmailSender.thy ===== *)
theory EmailSender
  imports Auth
begin

section \<open>Delivery of login codes\<close>

text \<open>
  \<^verbatim>\<open>internal/auth/webhook.go\<close>: the sender that gives a login code to the email service, one HTTP POST
  per code. The HTTP client is a parameter: what \<open>http.NewRequestWithContext\<close> says of the URL and what
  \<open>Client.Do\<close> makes of a request. Shown, together with \<open>Auth\<close>: the code in the mail of a started login
  is accepted, for the address the mail went to.
\<close>

record email_sender =
  es_url :: string
  es_from :: string
  es_token :: string

record mail_http_request =
  rq_url :: string
  rq_headers :: "(string \<times> string) list"
  rq_body :: json

text \<open>\<open>mr_body\<close>: the part of the body that could be read.\<close>

record mail_response =
  mr_status :: nat
  mr_body :: string

record mail_client =
  hc_check_url :: "string \<Rightarrow> go_error option"
  hc_do :: "mail_http_request \<Rightarrow> go_error + mail_response"

definition trim_right_slashes :: "string \<Rightarrow> string" where
  "trim_right_slashes s = rev (dropWhile (\<lambda>c. c = CHR ''/'') (rev s))"

definition new_email_sender :: "string \<Rightarrow> string \<Rightarrow> string \<Rightarrow> go_error + email_sender" where
  "new_email_sender url from_address token =
     attempt (fail_if (trim_space url = []) (NewError ''email-service URL is required'')) (\<lambda>_.
     attempt (fail_if (trim_space from_address = []) (NewError ''login email From address is required'')) (\<lambda>_.
     Inr \<lparr>es_url = trim_right_slashes (trim_space url), es_from = trim_space from_address,
       es_token = trim_space token\<rparr>))"

subsection \<open>The request\<close>

definition mail_text :: "string \<Rightarrow> string" where
  "mail_text code = ''Your say login code is '' @ code @ ''.'' @ [CHR 0x0A, CHR 0x0A] @ ''It expires in 10 minutes.''"

definition mail_html :: "string \<Rightarrow> string" where
  "mail_html code = ''<p>Your say login code is <strong>'' @ code @
     ''</strong>.</p><p>It expires in 10 minutes.</p>''"

text \<open>\<open>json.Marshal\<close> writes the keys of a map in order.\<close>

definition mail_body :: "email_sender \<Rightarrow> string \<Rightarrow> string \<Rightarrow> json" where
  "mail_body s email code = JObj
     [(''from'', JStr (es_from s)),
      (''html'', JStr (mail_html code)),
      (''metadata'', JObj [(''purpose'', JStr ''login_code''), (''service'', JStr ''say'')]),
      (''subject'', JStr ''Your say login code''),
      (''tags'', JArr [JObj [(''name'', JStr ''type''), (''value'', JStr ''login_code'')],
                       JObj [(''name'', JStr ''service''), (''value'', JStr ''say'')]]),
      (''text'', JStr (mail_text code)),
      (''to'', JStr email)]"

definition mail_request :: "email_sender \<Rightarrow> string \<Rightarrow> string \<Rightarrow> mail_http_request" where
  "mail_request s email code =
     \<lparr>rq_url = es_url s,
      rq_headers = [(''Content-Type'', ''application/json''), (''X-Service-Name'', ''say'')] @
        (if es_token s \<noteq> [] then [(''X-Service-Key'', es_token s)] else []),
      rq_body = mail_body s email code\<rparr>"

text \<open>\<^verbatim>\<open>%d\<close> of a status code, which has at most three digits.\<close>

definition status_text :: "nat \<Rightarrow> string" where
  "status_text n = (if n < 10 then decimal 1 n else if n < 100 then decimal 2 n else decimal 3 n)"

definition response_error :: "mail_response \<Rightarrow> go_error option" where
  "response_error r =
     (if mr_status r < 200 \<or> mr_status r \<ge> 300 then
        (let detail = trim_space (take 4096 (mr_body r));
             what = ''delivery endpoint returned HTTP '' @ status_text (mr_status r) in
         Some (NewError (if detail = [] then what else what @ '': '' @ detail)))
      else None)"

definition send_login_code :: "mail_client \<Rightarrow> email_sender \<Rightarrow> string \<Rightarrow> string \<Rightarrow> go_error + unit" where
  "send_login_code client s email code =
     (case hc_check_url client (es_url s) of
        Some err \<Rightarrow> Inl (Wrapped ''create delivery request'' err)
      | None \<Rightarrow>
          (case hc_do client (mail_request s email code) of
             Inl err \<Rightarrow> Inl (Wrapped ''deliver login code'' err)
           | Inr r \<Rightarrow> (case response_error r of Some err \<Rightarrow> Inl err | None \<Rightarrow> Inr ())))"

lemma send_login_code_ok:
  "send_login_code client s email code = Inr () \<longleftrightarrow>
   hc_check_url client (es_url s) = None \<and>
   (\<exists>r. hc_do client (mail_request s email code) = Inr r \<and> 200 \<le> mr_status r \<and> mr_status r < 300)"
  by (auto simp: send_login_code_def response_error_def Let_def split: option.splits sum.splits if_splits)

subsection \<open>The code in the mail is accepted\<close>

text \<open>A login that is not used up yet, after at most \<open>n\<close> refused codes.\<close>

definition fresh_login :: "'h login_row \<Rightarrow> int \<Rightarrow> 'h login_row \<Rightarrow> bool" where
  "fresh_login r n r' \<longleftrightarrow> l_id r' = l_id r \<and> l_email r' = l_email r \<and> l_code_hash r' = l_code_hash r \<and>
     l_expires_at r' = l_expires_at r \<and> l_consumed_at r' = None \<and> 0 \<le> l_attempts r' \<and> l_attempts r' \<le> n"

fun verifies :: "string \<Rightarrow> auth_op \<Rightarrow> bool" where
  "verifies L (OpVerify e M code) \<longleftrightarrow> M = L"
| "verifies L op \<longleftrightarrow> False"

fun presents :: "'h auth_lib \<Rightarrow> auth_config \<Rightarrow> 'h login_row \<Rightarrow> auth_op \<Rightarrow> bool" where
  "presents lib cfg r (OpVerify e M code) \<longleftrightarrow> M = l_id r \<and> hash_login_code lib cfg M code = l_code_hash r"
| "presents lib cfg r op \<longleftrightarrow> False"

text \<open>A call that does not verify the login leaves it alone; one that presents a wrong code counts.\<close>

lemma other_step:
  assumes "row_by l_id L (ad_logins db) = Some s" "\<not> verifies L op"
  shows "row_by l_id L (ad_logins (auth_step lib cfg op db)) = Some s"
proof (cases op)
  case (OpStart sender e email)
  then show ?thesis using start_login_tables(2) [of lib cfg sender e email db] assms
    by (auto simp: row_by_append)
next
  case (OpRefresh e token)
  then have "ad_logins (auth_step lib cfg op db) = ad_logins db"
    by (cases rule: refresh_login_cases [of lib cfg e token db]) (auto dest: refresh_loginD)
  then show ?thesis using assms by simp
next
  case (OpVerify e M code)
  have "l_id s = L" using assms(1) by (rule row_by_key)
  with OpVerify assms show ?thesis
    by (cases rule: verify_login_cases [of lib cfg e M code db])
      (auto simp: row_by_login_update dest!: verify_wrong verify_right)
qed

lemma fresh_login_step:
  assumes "row_by l_id (l_id r) (ad_logins db) = Some s" "fresh_login r n s" "n < 4"
    "\<not> presents lib cfg r op" "verifies (l_id r) op"
  shows "\<exists>s'. row_by l_id (l_id r) (ad_logins (auth_step lib cfg op db)) = Some s' \<and> fresh_login r (n + 1) s'"
proof -
  from assms(5) obtain e code where op: "op = OpVerify e (l_id r) code" by (cases op) auto
  have same: "l_code_hash s = l_code_hash r" "l_id s = l_id r" using assms(2) by (simp_all add: fresh_login_def)
  show ?thesis
  proof (cases rule: verify_login_cases [of lib cfg e "l_id r" code db])
    case (Unchanged err)
    then show ?thesis using op assms by (auto simp: fresh_login_def)
  next
    case (Wrong db')
    then show ?thesis using op assms(1-3) same
      by (auto simp: row_by_login_update fresh_login_def failed_attempt_def dest!: verify_wrong)
  next
    case (Right pair db')
    then show ?thesis using op assms(1,4) same by (auto dest!: verify_right)
  qed
qed

lemma fresh_login_run:
  assumes "row_by l_id (l_id r) (ad_logins db) = Some s" "fresh_login r n s"
    "n + int (length (filter (verifies (l_id r)) ops)) \<le> 4" "\<forall>op \<in> set ops. \<not> presents lib cfg r op"
  shows "\<exists>s'. row_by l_id (l_id r) (ad_logins (auth_run lib cfg ops db)) = Some s' \<and> fresh_login r 4 s'"
  using assms
proof (induction ops arbitrary: db s n)
  case Nil
  then show ?case by (auto simp: fresh_login_def)
next
  case (Cons op ops)
  show ?case
  proof (cases "verifies (l_id r) op")
    case True
    with Cons.prems have "n < 4" by simp
    from fresh_login_step [OF Cons.prems(1,2) this, of lib cfg op] True Cons.prems(4) obtain s1 where
      "row_by l_id (l_id r) (ad_logins (auth_step lib cfg op db)) = Some s1" "fresh_login r (n + 1) s1"
      by auto
    from Cons.IH [OF this] True Cons.prems show ?thesis by simp
  next
    case False
    from other_step [OF Cons.prems(1) False] Cons.prems(2) obtain s1 where
      "row_by l_id (l_id r) (ad_logins (auth_step lib cfg op db)) = Some s1" "fresh_login r n s1" by blast
    from Cons.IH [OF this] False Cons.prems show ?thesis by simp
  qed
qed


lemma start_loginD:
  assumes "start_login lib cfg (Some send) e raw db = (Inr ls, db')"
  obtains email code r where "normalize_email lib raw = Inr email" "login_code lib e = Inr code"
    "send email code = Inr ()" "row_by l_id (ls_login_id ls) (ad_logins db') = Some r"
    "l_id r = ls_login_id ls" "l_email r = email" "l_code_hash r = hash_login_code lib cfg (ls_login_id ls) code"
    "l_expires_at r = pg_time (ls_expires_at ls)" "fresh_login r 0 r"
    "ad_users db' = ad_users db" "ad_refresh_tokens db' = ad_refresh_tokens db"
proof -
  from assms obtain email login_id code where
    1: "normalize_email lib raw = Inr email" "login_code lib e = Inr code" "send email code = Inr ()"
    and ins: "insert_login \<lparr>l_id = login_id, l_email = email,
       l_code_hash = hash_login_code lib cfg login_id code,
       l_expires_at = pg_time (clock e + cfg_login_lifetime cfg), l_attempts = 0, l_consumed_at = None\<rparr> db = Some db'"
    and ls: "ls_login_id ls = login_id" "ls_expires_at ls = clock e + cfg_login_lifetime cfg"
    by (auto simp: start_login_def attempt_eq_Inr attempt_eq_Inl attempt_dests split: sum.splits)
  note ins = insert_loginD [OF ins]
  let ?r = "\<lparr>l_id = login_id, l_email = email, l_code_hash = hash_login_code lib cfg login_id code,
    l_expires_at = pg_time (clock e + cfg_login_lifetime cfg), l_attempts = 0, l_consumed_at = None\<rparr>"
  have "row_by l_id login_id (ad_logins db) = None" using ins by (simp add: row_by_None)
  then have "row_by l_id login_id (ad_logins db') = Some ?r" using ins by (simp add: row_by_append)
  with 1 ins ls show thesis by (intro that [of email code ?r]) (simp_all add: fresh_login_def)
qed

text \<open>
  What a \<open>Verify\<close> needs besides the right code: the values it draws are not taken, the token can be
  signed, and the server agrees that the address is in lower case.
\<close>

definition can_issue :: "'h auth_lib \<Rightarrow> auth_config \<Rightarrow> env \<Rightarrow> 'h auth_db \<Rightarrow> bool" where
  "can_issue lib cfg e db \<longleftrightarrow>
     (\<forall>i. random_value e 0 ''usr_'' 16 = Inr i \<longrightarrow> i \<notin> u_id ` set (ad_users db)) \<and>
     (\<forall>t. random_value e 1 ''say_refresh_'' 32 = Inr t \<longrightarrow>
        lib_sha lib t \<notin> f_token_hash ` set (ad_refresh_tokens db)) \<and>
     (\<forall>i. random_value e 2 ''rft_'' 16 = Inr i \<longrightarrow> i \<notin> f_id ` set (ad_refresh_tokens db)) \<and>
     (\<forall>c. cl_token_type c = ''access'' \<longrightarrow> (\<exists>token. lib_jwt_sign lib (cfg_jwt_key cfg) c = Inr token))"

lemma upsert_user_ok:
  assumes "lib_pg_lower lib m = m" "i \<notin> u_id ` set (ad_users db)"
  obtains u db' where "upsert_user lib \<lparr>u_id = i, u_email = m\<rparr> db = Some (u, db')"
    "u \<in> u_id ` set (ad_users db')" "ad_refresh_tokens db' = ad_refresh_tokens db"
proof (cases "row_by u_email m (ad_users db)")
  case None
  with assms show thesis
    by (intro that [of i "db\<lparr>ad_users := ad_users db @ [\<lparr>u_id = i, u_email = m\<rparr>]\<rparr>"])
      (simp_all add: upsert_user_def)
next
  case (Some u)
  then have "u \<in> set (ad_users db)" by (rule row_by_mem)
  with Some assms show thesis by (intro that [of "u_id u" db]) (simp_all add: upsert_user_def)
qed

lemma issue_ok:
  assumes e: "healthy e" and lib: "can_issue lib cfg e db" and u: "u \<in> u_id ` set (ad_users db')"
    and same: "ad_refresh_tokens db' = ad_refresh_tokens db"
  obtains pair i db'' where "issue_token_pair lib cfg e 1 4 u db' = Inr ((pair, i), db'')"
proof -
  obtain token where "lib_jwt_sign lib (cfg_jwt_key cfg) \<lparr>cl_user_id = u, cl_token_type = ''access'',
      cl_issuer = cfg_issuer cfg, cl_subject = u, cl_issued_at = clock e,
      cl_expires_at = clock e + cfg_access_lifetime cfg\<rparr> = Inr token"
    using lib unfolding can_issue_def by force
  then have "\<exists>v. issue_token_pair lib cfg e 1 4 u db' = Inr v"
    using e lib u same
    by (auto simp: issue_token_pair_def insert_refresh_token_def can_issue_def Let_def numeral_2_eq_2)
  with that show thesis by (metis surj_pair)
qed

lemma right_code_accepted:
  assumes r: "row_by l_id L (ad_logins db) = Some r" "fresh_login r' 4 r" "clock e \<le> l_expires_at r"
    "l_code_hash r = hash_login_code lib cfg L code"
    and e: "healthy e" and lib: "can_issue lib cfg e db" "lib_pg_lower lib (l_email r) = l_email r"
  shows "\<exists>pair db'. verify_login lib cfg e L code db = (Inr pair, db')"
proof -
  have usable: "usable_login e r" using r(2,3) by (simp add: usable_login_def fresh_login_def)
  let ?db = "db\<lparr>ad_logins := update_where (\<lambda>r. l_id r = L) (consume_login e) (ad_logins db)\<rparr>"
  obtain i where i: "random_value e 0 ''usr_'' 16 = Inr i" using e by simp
  have "i \<notin> u_id ` set (ad_users ?db)" using lib(1) i by (simp add: can_issue_def)
  from upsert_user_ok [OF lib(2) this] obtain u db1 where
    u: "upsert_user lib \<lparr>u_id = i, u_email = l_email r\<rparr> ?db = Some (u, db1)"
      "u \<in> u_id ` set (ad_users db1)" "ad_refresh_tokens db1 = ad_refresh_tokens ?db" .
  have "ad_refresh_tokens db1 = ad_refresh_tokens db" using u(3) by simp
  from issue_ok [OF e lib(1) u(2) this] obtain pair k db2 where
    "issue_token_pair lib cfg e 1 4 u db1 = Inr ((pair, k), db2)" .
  then have "verify_tx lib cfg e L code db = Inr (Some pair, db2)"
    using r usable e i u by (simp add: verify_tx_def)
  then show ?thesis by (simp add: verify_login_def in_tx_def)
qed


text \<open>
  C10. Login by e-mail works: when \<open>Start\<close> with the e-mail sender succeeds, the mail service has taken
  one request for the normalised address, whose text shows a code; and this code, presented with the
  login id of the response until the login expires, is accepted, and yields tokens, after any other calls
  of the service with at most four wrong codes for this login, if nothing fails while it is checked.
\<close>

theorem mailed_code_accepted:
  assumes "start_login lib cfg (Some (send_login_code client s)) e raw db = (Inr ls, db')"
    and "length (filter (verifies (ls_login_id ls)) ops) \<le> 4"
    and "\<forall>op r. op \<in> set ops \<longrightarrow> row_by l_id (ls_login_id ls) (ad_logins db') = Some r \<longrightarrow> \<not> presents lib cfg r op"
    and "healthy e'" "clock e' \<le> pg_time (ls_expires_at ls)"
    and "can_issue lib cfg e' (auth_run lib cfg ops db')" "\<forall>m. lib_pg_lower lib (lib_to_lower lib m) = lib_to_lower lib m"
  shows "\<exists>email code request members response pair db''. normalize_email lib raw = Inr email \<and>
    hc_do client request = Inr response \<and> mr_status response div 100 = 2 \<and>
    rq_url request = es_url s \<and> rq_body request = JObj members \<and>
    map_of members ''to'' = Some (JStr email) \<and> map_of members ''text'' = Some (JStr (mail_text code)) \<and>
    verify_login lib cfg e' (ls_login_id ls) code (auth_run lib cfg ops db') = (Inr pair, db'')"
proof -
  let ?L = "ls_login_id ls"
  from start_loginD [OF assms(1)] obtain email code r where
    start: "normalize_email lib raw = Inr email" "send_login_code client s email code = Inr ()"
    and r: "row_by l_id ?L (ad_logins db') = Some r" "l_id r = ?L" "l_email r = email"
      "l_code_hash r = hash_login_code lib cfg ?L code" "l_expires_at r = pg_time (ls_expires_at ls)"
      "fresh_login r 0 r" .
  obtain r' where r': "row_by l_id ?L (ad_logins (auth_run lib cfg ops db')) = Some r'" "fresh_login r 4 r'"
    using fresh_login_run [of r db' r 0 ops lib cfg] r assms(2,3) by auto
  have same: "l_code_hash r' = hash_login_code lib cfg ?L code" "l_email r' = email"
      "l_expires_at r' = pg_time (ls_expires_at ls)"
    using r'(2) r by (simp_all add: fresh_login_def)
  have "lib_pg_lower lib email = email"
    using start(1) assms(7) by (auto simp: normalize_email_def Let_def split: option.splits if_splits)
  with right_code_accepted [OF r'(1,2) _ same(1) assms(4,6)] same assms(5)
  have "\<exists>pair db''. verify_login lib cfg e' ?L code (auth_run lib cfg ops db') = (Inr pair, db'')" by simp
  moreover obtain resp where "hc_do client (mail_request s email code) = Inr resp" "mr_status resp div 100 = 2"
    using start(2) by (auto simp: send_login_code_ok)
  moreover have "\<exists>members. rq_body (mail_request s email code) = JObj members \<and>
      map_of members ''to'' = Some (JStr email) \<and> map_of members ''text'' = Some (JStr (mail_text code))"
    "rq_url (mail_request s email code) = es_url s"
    by (simp_all add: mail_request_def mail_body_def)
  ultimately show ?thesis using start(1) by blast
qed


definition sample_sender :: email_sender where
  "sample_sender = \<lparr>es_url = ''https://mail/emails/send'', es_from = ''say@mail'', es_token = ''secret''\<rparr>"

lemma sample_sender_made:
  "new_email_sender ''https://mail/emails/send/'' ''say@mail'' ''secret'' = Inr sample_sender"
  by (simp add: new_email_sender_def sample_sender_def trim_space_ascii trim_right_slashes_def)

definition sample_client :: mail_client where
  "sample_client = \<lparr>hc_check_url = (\<lambda>_. None),
     hc_do = (\<lambda>r. Inr \<lparr>mr_status = (if rq_headers r = [] then 401 else 202), mr_body = []\<rparr>)\<rparr>"

definition sample_login :: string where
  "sample_login = ''login_'' @ hex_encode (map (entropy (sample_env 0) 0) [0..<16])"

lemma sample_login_drawn: "random_value (sample_env 0) 0 ''login_'' 16 = Inr sample_login"
  by (simp add: random_value_eq_Inr sample_login_def)

lemma sample_code: "login_code toy_lib (sample_env 0) = Inr ''123456''"
proof -
  have six: "(6 :: nat) = Suc (Suc (Suc (Suc (Suc (Suc 0)))))" by simp
  show ?thesis unfolding login_code_def six by (simp add: toy_lib_def char_of_eq_iff take_bit_eq_mod)
qed

definition mailed_login :: "int \<Rightarrow> string login_row" where
  "mailed_login n = \<lparr>l_id = sample_login, l_email = ''a@b'',
     l_code_hash = hash_login_code toy_lib toy_cfg sample_login ''123456'', l_expires_at = 10 * minute,
     l_attempts = n, l_consumed_at = None\<rparr>"

definition mailed_db :: "int \<Rightarrow> string auth_db" where
  "mailed_db n = \<lparr>ad_users = [], ad_logins = [mailed_login n], ad_refresh_tokens = []\<rparr>"

lemma sample_start:
  "start_login toy_lib toy_cfg (Some (send_login_code sample_client sample_sender)) (sample_env 0) ''a@b''
     \<lparr>ad_users = [], ad_logins = [], ad_refresh_tokens = []\<rparr> =
   (Inr \<lparr>ls_login_id = sample_login, ls_expires_at = 10 * minute, ls_debug_code = ''123456''\<rparr>, mailed_db 0)"
proof -
  have "trim_space ''a@b'' = ''a@b''" by (rule trim_space_ascii) simp_all
  then have "normalize_email toy_lib ''a@b'' = Inr ''a@b''" by (simp add: normalize_email_def toy_lib_def)
  moreover have "send_login_code sample_client sample_sender email code = Inr ()" for email code
    by (simp add: send_login_code_ok mail_request_def sample_client_def)
  ultimately show ?thesis
    using sample_login_drawn sample_code
    by (simp add: start_login_def insert_login_def mailed_db_def mailed_login_def toy_cfg_def pg_time_def
        minute_def second_def)
qed

abbreviation sample_guesses :: "auth_op list" where
  "sample_guesses \<equiv> [OpVerify (sample_env 1) sample_login ''000000'', OpVerify (sample_env 2) sample_login ''000001'']"

lemma wrong_code:
  assumes "code \<noteq> ''123456''" "n < 4" "t \<le> 10 * minute"
  shows "snd (verify_login toy_lib toy_cfg (sample_env t) sample_login code (mailed_db n)) = mailed_db (n + 1)"
  using assms
  by (simp add: verify_login_def verify_tx_def in_tx_def mailed_db_def mailed_login_def usable_login_def
      update_where_def failed_attempt_def hash_login_code_def toy_lib_def)

theorem mailed_code_accepted_witness:
  "\<exists>code pair db''. verify_login toy_lib toy_cfg (sample_env minute) sample_login code
     (auth_run toy_lib toy_cfg sample_guesses (mailed_db 0)) = (Inr pair, db'')"
proof -
  have run: "auth_run toy_lib toy_cfg sample_guesses (mailed_db 0) = mailed_db 2"
    by (simp add: wrong_code minute_def second_def)
  have "\<not> presents toy_lib toy_cfg r op" if "op \<in> set sample_guesses"
    "row_by l_id sample_login (ad_logins (mailed_db 0)) = Some r" for op r
    using that by (auto simp: mailed_db_def mailed_login_def hash_login_code_def toy_lib_def)
  moreover have "can_issue toy_lib toy_cfg (sample_env minute) (mailed_db 2)"
    by (simp add: can_issue_def mailed_db_def toy_lib_def)
  moreover have "clock (sample_env minute) \<le> pg_time (10 * minute)"
    by (simp add: pg_time_def minute_def second_def)
  moreover have "\<forall>m. lib_pg_lower toy_lib (lib_to_lower toy_lib m) = lib_to_lower toy_lib m"
    by (simp add: toy_lib_def)
  ultimately show ?thesis
    using mailed_code_accepted [OF sample_start, of sample_guesses "sample_env minute"] run
    by (simp del: auth_run_simps) blast
qed

end
