(* ===== verification/HttpApi.thy ===== *)
theory HttpApi
  imports DbRuns Auth GatewayHub
begin

section \<open>The HTTP API\<close>

text \<open>
  \<^verbatim>\<open>internal/httpapi/router.go\<close>. A handler is a program: a tree of the calls it makes, each with the
  handler's reaction to the result, down to the response. Between two calls any other request and
  any worker may run, so a program is executed one call at a time (\<open>Server\<close>). The handlers here are
  the source's, one definition each, with \<open>sendMessage\<close> split at its calls.

  The site is the database: the tables of the stores and those of the authentication service,
  which share \<open>users\<close>.
\<close>

record 'h site =
  st_db :: "'h db"
  st_logins :: "'h login_row list"
  st_refresh_tokens :: "'h refresh_row list"

definition auth_of :: "'h site \<Rightarrow> 'h auth_db" where
  "auth_of s = \<lparr>ad_users = db_users (st_db s), ad_logins = st_logins s,
     ad_refresh_tokens = st_refresh_tokens s\<rparr>"

definition on_db :: "(env \<Rightarrow> 'h db \<Rightarrow> 'r \<times> 'h db) \<Rightarrow> env \<Rightarrow> 'h site \<Rightarrow> 'r \<times> 'h site" where
  "on_db f e s = (case f e (st_db s) of (r, db) \<Rightarrow> (r, s\<lparr>st_db := db\<rparr>))"

definition on_auth :: "(env \<Rightarrow> 'h auth_db \<Rightarrow> 'r \<times> 'h auth_db) \<Rightarrow> env \<Rightarrow> 'h site \<Rightarrow> 'r \<times> 'h site" where
  "on_auth f e s = (case f e (auth_of s) of (r, a) \<Rightarrow>
     (r, s\<lparr>st_db := (st_db s)\<lparr>db_users := ad_users a\<rparr>, st_logins := ad_logins a,
           st_refresh_tokens := ad_refresh_tokens a\<rparr>))"

subsection \<open>Requests and responses\<close>

text \<open>
  \<open>hr_path\<close> are the unescaped segments of the cleaned path, \<open>hr_query\<close> the first value of a query
  parameter, or the empty string. \<open>hr_body\<close> is what \<open>json.Decoder\<close> reads as the first value of at
  most 64 KiB: its error, or the value.
\<close>

record http_request =
  hr_method :: string
  hr_path :: "string list"
  hr_query :: "string \<Rightarrow> string"
  hr_authorization :: string
  hr_body :: "go_error + json"

text \<open>\<open>ErrorText err\<close> is \<open>err.Error()\<close>.\<close>

datatype api_text = Plain string | ErrorText go_error

datatype api_body =
    NoBody
  | HealthBody
  | ErrorBody string api_text
  | LoginBody login_start
  | PairBody token_pair
  | AccountsBody "account list"
  | CreatedBody account string time
  | AccountBody account
  | ResultBody "json option"
  | ConversationsBody "conversation list"
  | MessagesBody "message list"
  | SendBody string message
  | WorkerSocket
  | ClientSocket string

record response =
  rs_status :: nat
  rs_body :: api_body

subsection \<open>Programs\<close>

text \<open>
  \<open>Step\<close> is a call on the site: its effect, and the rest of the program, from its environment and
  the state it finds. \<open>Ask\<close> is \<open>hub.Request\<close>, \<open>Await\<close> the same once the command has been handed to
  the hub, \<open>Kick\<close> is \<open>hub.Disconnect\<close>.
\<close>

datatype 's program =
    Respond response
  | Step "env \<Rightarrow> 's \<Rightarrow> 's" "env \<Rightarrow> 's \<Rightarrow> 's program"
  | Ask string string json "reply \<Rightarrow> 's program"
  | Await "reply \<Rightarrow> 's program"
  | Kick string "'s program"

definition call :: "(env \<Rightarrow> 's \<Rightarrow> 'r \<times> 's) \<Rightarrow> ('r \<Rightarrow> 's program) \<Rightarrow> 's program" where
  "call f k = Step (\<lambda>e s. snd (f e s)) (\<lambda>e s. k (fst (f e s)))"

definition query :: "(env \<Rightarrow> 's \<Rightarrow> 'r) \<Rightarrow> ('r \<Rightarrow> 's program) \<Rightarrow> 's program" where
  "query f k = Step (\<lambda>e s. s) (\<lambda>e s. k (f e s))"

definition write_json_body :: "nat \<Rightarrow> api_body \<Rightarrow> 's program" where
  "write_json_body status body = Respond \<lparr>rs_status = status, rs_body = body\<rparr>"

definition write_error :: "nat \<Rightarrow> string \<Rightarrow> api_text \<Rightarrow> 's program" where
  "write_error status code message = write_json_body status (ErrorBody code message)"

subsection \<open>Reading requests\<close>

text \<open>\<open>decodeJSON\<close> into a struct of string fields, with \<open>DisallowUnknownFields\<close>.\<close>

definition decode_body :: "string list \<Rightarrow> http_request \<Rightarrow> go_error + string list" where
  "decode_body names r =
     (case hr_body r of
        Inl err \<Rightarrow> Inl err
      | Inr j \<Rightarrow>
          (case j of
             JObj ms \<Rightarrow>
               if \<exists>m \<in> set ms. fold_key (fst m) \<notin> fold_key ` set names then
                 Inl (NewError ''json: unknown field'')
               else (case decode_fields names ms of
                   None \<Rightarrow> Inl (NewError ''json: cannot unmarshal'')
                 | Some vs \<Rightarrow> Inr vs)
           | JNull \<Rightarrow> Inr (replicate (length names) [])
           | _ \<Rightarrow> Inl (NewError ''json: cannot unmarshal'')))"

definition with_body ::
  "string list \<Rightarrow> http_request \<Rightarrow> (string list \<Rightarrow> 's program) \<Rightarrow> 's program"
where
  "with_body names r k =
     (case decode_body names r of
        Inl err \<Rightarrow> write_error 400 ''invalid_request'' (ErrorText err)
      | Inr fs \<Rightarrow> k fs)"

text \<open>\<open>errors.As(err, &commandError)\<close>.\<close>

fun as_worker_command :: "go_error \<Rightarrow> (string \<times> string) option" where
  "as_worker_command (WorkerCommand code message) = Some (code, message)"
| "as_worker_command (Wrapped text err) = as_worker_command err"
| "as_worker_command _ = None"

definition worker_error_code :: "go_error \<Rightarrow> string" where
  "worker_error_code err =
     (if errors_is err ErrWorkerOffline then ''worker_offline''
      else case as_worker_command err of
        Some (code, message) \<Rightarrow> code
      | None \<Rightarrow> ''worker_timeout'')"

subsection \<open>Configuration\<close>

text \<open>
  \<open>Config\<close> and the store. \<open>api_auth\<close>, \<open>api_messages\<close> and \<open>api_realtime\<close> tell which parts are
  configured; the text order of the database (\<open>api_collate\<close>) and the JSON reader of times
  (\<open>api_parse_time\<close>) are parameters.
\<close>

record ('h, 'k) api =
  api_store :: "'h db account_store"
  api_dev_auth :: bool
  api_auth :: "('h auth_lib \<times> auth_config \<times> (string \<Rightarrow> string \<Rightarrow> go_error + unit) option) option"
  api_messages :: bool
  api_realtime :: bool
  api_collate :: "string \<Rightarrow> 'k"
  api_parse_time :: "string \<Rightarrow> time option"

subsection \<open>Authentication\<close>

definition health :: "'s program" where
  "health = write_json_body 200 HealthBody"

definition auth_not_configured :: "'s program" where
  "auth_not_configured = write_error 503 ''auth_not_configured'' (Plain ''authentication is not configured'')"

definition start_auth :: "('h, 'k) api \<Rightarrow> http_request \<Rightarrow> 'h site program" where
  "start_auth A r =
     (case api_auth A of
        None \<Rightarrow> auth_not_configured
      | Some (lib, cfg, sender) \<Rightarrow>
          with_body [''email''] r (\<lambda>fs.
          call (on_auth (\<lambda>e. start_login lib cfg sender e (fs ! 0))) (\<lambda>result.
          case result of
            Inl err \<Rightarrow>
              if errors_is err ErrInvalidEmail then
                write_error 400 ''invalid_request'' (Plain ''invalid email address'')
              else write_error 503 ''delivery_failed'' (Plain ''failed to deliver login code'')
          | Inr login \<Rightarrow> write_json_body 202 (LoginBody login))))"

definition verify_auth :: "('h, 'k) api \<Rightarrow> http_request \<Rightarrow> 'h site program" where
  "verify_auth A r =
     (case api_auth A of
        None \<Rightarrow> auth_not_configured
      | Some (lib, cfg, sender) \<Rightarrow>
          with_body [''login_id'', ''code''] r (\<lambda>fs.
          call (on_auth (\<lambda>e. verify_login lib cfg e (fs ! 0) (fs ! 1))) (\<lambda>result.
          case result of
            Inl err \<Rightarrow>
              if errors_is err ErrInvalidLogin then
                write_error 401 ''invalid_login'' (Plain ''invalid or expired login'')
              else write_error 500 ''internal_error'' (Plain ''failed to verify login'')
          | Inr pair \<Rightarrow> write_json_body 200 (PairBody pair))))"

definition refresh_auth :: "('h, 'k) api \<Rightarrow> http_request \<Rightarrow> 'h site program" where
  "refresh_auth A r =
     (case api_auth A of
        None \<Rightarrow> auth_not_configured
      | Some (lib, cfg, sender) \<Rightarrow>
          with_body [''refresh_token''] r (\<lambda>fs.
          call (on_auth (\<lambda>e. refresh_login lib cfg e (fs ! 0))) (\<lambda>result.
          case result of
            Inl err \<Rightarrow>
              if errors_is err ErrInvalidRefresh then
                write_error 401 ''invalid_refresh'' (Plain ''invalid or expired refresh token'')
              else write_error 500 ''internal_error'' (Plain ''failed to refresh login'')
          | Inr pair \<Rightarrow> write_json_body 200 (PairBody pair))))"

subsection \<open>Accounts\<close>

definition list_accounts :: "('h, 'k) api \<Rightarrow> string \<Rightarrow> 'h site program" where
  "list_accounts A user =
     query (\<lambda>e s. store_list (api_store A) e user (st_db s)) (\<lambda>result.
     case result of
       Inl err \<Rightarrow> write_error 500 ''internal_error'' (Plain ''failed to list accounts'')
     | Inr accounts \<Rightarrow> write_json_body 200 (AccountsBody accounts))"

definition create_account_handler :: "('h, 'k) api \<Rightarrow> string \<Rightarrow> http_request \<Rightarrow> 'h site program" where
  "create_account_handler A user r =
     with_body [''platform'', ''display_name''] r (\<lambda>fs.
     call (on_db (\<lambda>e. store_create (api_store A) e user (fs ! 0) (fs ! 1))) (\<lambda>result.
     case result of
       Inl err \<Rightarrow> write_error 400 ''invalid_request'' (ErrorText err)
     | Inr (account, enrollment) \<Rightarrow>
         query (\<lambda>e s. clock e) (\<lambda>now.
         write_json_body 201 (CreatedBody account enrollment (now + 10 * minute)))))"

text \<open>\<open>GetAccount\<close> and its two error responses, common to four handlers.\<close>

definition with_account :: "('h, 'k) api \<Rightarrow> string \<Rightarrow> string \<Rightarrow> (account \<Rightarrow> 'h site program) \<Rightarrow> 'h site program"
where
  "with_account A user account_id k =
     query (\<lambda>e s. store_get (api_store A) e user account_id (st_db s)) (\<lambda>result.
     case result of
       Inl err \<Rightarrow>
         if errors_is err ErrNotFound then write_error 404 ''not_found'' (Plain ''account not found'')
         else write_error 500 ''internal_error'' (Plain ''failed to read account'')
     | Inr account \<Rightarrow> k account)"

definition get_account_handler :: "('h, 'k) api \<Rightarrow> string \<Rightarrow> string \<Rightarrow> 'h site program" where
  "get_account_handler A user account_id =
     with_account A user account_id (\<lambda>account. write_json_body 200 (AccountBody account))"

definition delete_account_handler :: "('h, 'k) api \<Rightarrow> string \<Rightarrow> string \<Rightarrow> 'h site program" where
  "delete_account_handler A user account_id =
     call (on_db (\<lambda>e. store_delete (api_store A) e user account_id)) (\<lambda>result.
     case result of
       Inl err \<Rightarrow>
         if errors_is err ErrNotFound then write_error 404 ''not_found'' (Plain ''account not found'')
         else write_error 500 ''internal_error'' (Plain ''failed to delete account'')
     | Inr _ \<Rightarrow> Kick account_id (write_json_body 204 NoBody))"

text \<open>\<open>linkAccount\<close>: the \<open>switch\<close> on the action, as an error response or a command.\<close>

definition link_command ::
  "account \<Rightarrow> string \<Rightarrow> string \<Rightarrow> string \<Rightarrow> string \<Rightarrow> string \<Rightarrow> string + string \<times> json"
where
  "link_command account action device_name phone_number code password =
     (if action = ''start'' then
        if acc_platform account = ''telegram'' \<and> trim_space phone_number = [] then
          Inl ''phone_number is required to start Telegram linking''
        else Inr (TypeLinkStart, encode_link_start device_name phone_number)
      else if action = ''finish'' then
        if acc_platform account \<noteq> ''signal'' then Inl ''finish is only used for Signal linking''
        else Inr (TypeLinkFinish, encode_link_finish device_name [] [])
      else if action = ''submit_code'' then
        if acc_platform account \<noteq> ''telegram'' \<or> trim_space code = [] then
          Inl ''a Telegram verification code is required''
        else Inr (TypeLinkFinish, encode_link_finish [] code [])
      else if action = ''submit_password'' then
        if acc_platform account \<noteq> ''telegram'' \<or> password = [] then
          Inl ''a Telegram 2FA password is required''
        else Inr (TypeLinkFinish, encode_link_finish [] [] password)
      else Inl ''unsupported link action'')"

definition link_account_handler ::
  "('h, 'k) api \<Rightarrow> string \<Rightarrow> string \<Rightarrow> http_request \<Rightarrow> 'h site program"
where
  "link_account_handler A user account_id r =
     with_account A user account_id (\<lambda>account.
     with_body [''action'', ''device_name'', ''phone_number'', ''code'', ''password''] r (\<lambda>fs.
     case link_command account (fs ! 0) (fs ! 1) (fs ! 2) (fs ! 3) (fs ! 4) of
       Inl message \<Rightarrow> write_error 400 ''invalid_request'' (Plain message)
     | Inr (command_type, payload) \<Rightarrow>
         Ask account_id command_type payload (\<lambda>result.
         case result of
           Inl err \<Rightarrow>
             if errors_is err ErrWorkerOffline then
               write_error 409 ''worker_offline'' (Plain ''worker is offline'')
             else (case as_worker_command err of
                 Some (code, message) \<Rightarrow> write_error 409 code (Plain message)
               | None \<Rightarrow> write_error 504 ''worker_timeout'' (Plain ''worker did not complete link command''))
         | Inr result \<Rightarrow> write_json_body 200 (ResultBody result))))"

subsection \<open>Conversations and messages\<close>

definition messages_not_configured :: "'s program" where
  "messages_not_configured =
     write_error 503 ''messages_not_configured'' (Plain ''message storage is not configured'')"

definition list_conversations_handler ::
  "('h, 'k::linorder) api \<Rightarrow> string \<Rightarrow> http_request \<Rightarrow> 'h site program"
where
  "list_conversations_handler A user r =
     (if \<not> api_messages A then messages_not_configured else
      let account_id = hr_query r ''account_id'';
          respond = (\<lambda>conversations. write_json_body 200 (ConversationsBody conversations));
          list_failed = write_error 500 ''internal_error'' (Plain ''failed to list conversations'');
          list_cached = query (\<lambda>e s. list_conversations (api_collate A) e user account_id (st_db s))
      in if account_id = [] then write_error 400 ''invalid_request'' (Plain ''account_id is required'')
      else
        with_account A user account_id (\<lambda>_.
        list_cached (\<lambda>listed.
        case listed of
          Inl err \<Rightarrow> list_failed
        | Inr conversations \<Rightarrow>
            if conversations = [] \<or> hr_query r ''refresh'' = ''true'' then
              Ask account_id TypeConversations encode_conversations_command (\<lambda>result.
              case (case result of Inr (Some j) \<Rightarrow> decode_conversations_result j | _ \<Rightarrow> None) of
                None \<Rightarrow> respond conversations
              | Some synced \<Rightarrow>
                  call (on_db (\<lambda>e. upsert_conversations e user account_id synced)) (\<lambda>cached.
                  case cached of
                    Inl err \<Rightarrow> write_error 500 ''internal_error'' (Plain ''failed to cache conversations'')
                  | Inr _ \<Rightarrow>
                      list_cached (\<lambda>listed.
                      case listed of Inl err \<Rightarrow> list_failed | Inr conversations \<Rightarrow> respond conversations)))
            else respond conversations)))"

fun cache_history :: "account \<Rightarrow> wire_message list \<Rightarrow> 'h site program \<Rightarrow> 'h site program" where
  "cache_history account [] k = k"
| "cache_history account (m # ms) k =
     call (on_db (\<lambda>e. CacheMessage e account m)) (\<lambda>result.
     case result of
       Inl err \<Rightarrow> write_error 500 ''internal_error'' (Plain ''failed to cache message history'')
     | Inr _ \<Rightarrow> cache_history account ms k)"

definition list_messages_handler ::
  "('h, 'k::linorder) api \<Rightarrow> string \<Rightarrow> string \<Rightarrow> http_request \<Rightarrow> 'h site program"
where
  "list_messages_handler A user conversation_id r =
     (if \<not> api_messages A then messages_not_configured else
      let respond = (\<lambda>messages. write_json_body 200 (MessagesBody messages));
          list_failed = write_error 500 ''internal_error'' (Plain ''failed to list messages'');
          list_cached = query (\<lambda>e s. list_messages (api_collate A) e user conversation_id (st_db s))
      in
        query (\<lambda>e s. get_conversation_target e user conversation_id (st_db s)) (\<lambda>target.
        case target of
          Inl err \<Rightarrow>
            if errors_is err ErrNotFound then
              write_error 404 ''not_found'' (Plain ''conversation not found'')
            else write_error 500 ''internal_error'' (Plain ''failed to read conversation'')
        | Inr target \<Rightarrow>
            list_cached (\<lambda>listed.
            case listed of
              Inl err \<Rightarrow> list_failed
            | Inr messages \<Rightarrow>
                if ct_platform target = ''telegram'' \<and>
                    (messages = [] \<or> hr_query r ''refresh'' = ''true'') then
                  Ask (ct_account_id target) TypeMessages
                    (encode_messages_command (ct_provider_id target)) (\<lambda>result.
                  case (case result of
                          Inr (Some j) \<Rightarrow> decode_messages_result (api_parse_time A) j | _ \<Rightarrow> None) of
                    None \<Rightarrow> respond messages
                  | Some history \<Rightarrow>
                      query (\<lambda>e s. store_get (api_store A) e user (ct_account_id target) (st_db s)) (\<lambda>found.
                      case found of
                        Inl err \<Rightarrow> write_error 500 ''internal_error'' (Plain ''failed to read account'')
                      | Inr account \<Rightarrow>
                          cache_history account history
                            (list_cached (\<lambda>listed.
                             case listed of Inl err \<Rightarrow> list_failed | Inr messages \<Rightarrow> respond messages))))
                else respond messages)))"

subsection \<open>Sending a message\<close>

text \<open>
  \<open>sendMessage\<close>: \<open>send_message_handler\<close> up to \<open>PrepareSend\<close>, \<open>send_prepared\<close> up to \<open>MarkCommandDispatched\<close>,
  \<open>send_marked\<close> up to \<open>hub.Request\<close>, and \<open>send_answered\<close> what the worker's answer leads to.
\<close>

definition accepted :: "string \<Rightarrow> message \<Rightarrow> 's program" where
  "accepted command_id message = write_json_body 202 (SendBody command_id message)"

definition send_failed :: "string \<Rightarrow> string \<Rightarrow> string \<Rightarrow> 'h site program \<Rightarrow> 'h site program" where
  "send_failed user command_id code k =
     call (on_db (\<lambda>e. fail_send e user command_id code)) (\<lambda>_. k)"

definition send_answered ::
  "('h, 'k) api \<Rightarrow> string \<Rightarrow> send_preparation \<Rightarrow> reply \<Rightarrow> 'h site program"
where
  "send_answered A user prepared result =
     (case result of
        Inl err \<Rightarrow>
          send_failed user (prep_command_id prepared) (worker_error_code err)
            (if errors_is err ErrWorkerOffline then
               write_error 409 ''worker_offline'' (Plain ''worker is offline'')
             else (case as_worker_command err of
                 Some (code, message) \<Rightarrow> write_error 502 code (Plain message)
               | None \<Rightarrow> write_error 504 ''worker_timeout'' (Plain ''worker did not complete send command'')))
      | Inr payload \<Rightarrow>
          (case Option.bind payload (decode_send_result (api_parse_time A)) of
             None \<Rightarrow>
               send_failed user (prep_command_id prepared) ''invalid_worker_response''
                 (write_error 502 ''invalid_worker_response'' (Plain ''worker returned an invalid send result''))
           | Some (provider_id, sent_at) \<Rightarrow>
               if provider_id = [] \<or> sent_at = zero_time then
                 send_failed user (prep_command_id prepared) ''invalid_worker_response''
                   (write_error 502 ''invalid_worker_response'' (Plain ''worker returned an invalid send result''))
               else
                 call (on_db (\<lambda>e. complete_send e user (prep_command_id prepared) provider_id sent_at)) (\<lambda>completed.
                 case completed of
                   Inl err \<Rightarrow> write_error 500 ''internal_error'' (Plain ''failed to complete message'')
                 | Inr message \<Rightarrow> accepted (prep_command_id prepared) message)))"

definition send_marked ::
  "('h, 'k) api \<Rightarrow> string \<Rightarrow> string \<Rightarrow> string \<Rightarrow> send_preparation \<Rightarrow> go_error + bool \<Rightarrow> 'h site program"
where
  "send_marked A user body key prepared marked =
     (case marked of
        Inl err \<Rightarrow> write_error 500 ''internal_error'' (Plain ''failed to dispatch message'')
      | Inr ok \<Rightarrow>
          if \<not> ok then accepted (prep_command_id prepared) (prep_message prepared)
          else
            Ask (prep_account_id prepared) TypeSend (encode_send_command
              \<lparr>sc_conversation_id = prep_conversation prepared, sc_body = body, sc_idempotency_key = key\<rparr>)
              (send_answered A user prepared))"

definition send_prepared ::
  "('h, 'k) api \<Rightarrow> string \<Rightarrow> string \<Rightarrow> string \<Rightarrow> go_error + send_preparation \<Rightarrow> 'h site program"
where
  "send_prepared A user body key result =
     (case result of
        Inl err \<Rightarrow>
          if errors_is err ErrNotFound then
            write_error 404 ''not_found'' (Plain ''conversation not found'')
          else write_error 500 ''internal_error'' (Plain ''failed to prepare message'')
      | Inr prepared \<Rightarrow>
          if \<not> prep_created prepared then accepted (prep_command_id prepared) (prep_message prepared)
          else
            call (on_db (\<lambda>e. mark_command_dispatched e (prep_command_id prepared)))
              (send_marked A user body key prepared))"

definition send_message_handler ::
  "('h, 'k) api \<Rightarrow> string \<Rightarrow> string \<Rightarrow> http_request \<Rightarrow> 'h site program"
where
  "send_message_handler A user conversation_id r =
     (if \<not> api_messages A then messages_not_configured else
      with_body [''body'', ''idempotency_key''] r (\<lambda>fs.
      let body = fs ! 0; key = fs ! 1 in
      if trim_space body = [] \<or> length body > 65536 \<or> length key < 16 \<or> length key > 128 then
        write_error 400 ''invalid_request''
          (Plain ''body and a 16-128 character idempotency_key are required'')
      else
        call (on_db (\<lambda>e. prepare_send e user conversation_id body key)) (send_prepared A user body key)))"

subsection \<open>Routing\<close>

definition client_web_socket :: "('h, 'k) api \<Rightarrow> string \<Rightarrow> 's program" where
  "client_web_socket A user =
     (if \<not> api_realtime A then
        write_error 503 ''realtime_not_configured'' (Plain ''realtime is not configured'')
      else write_json_body 101 (ClientSocket user))"

text \<open>\<open>requireUser\<close>: who the request is from, or the text of the 401 response.\<close>

definition authenticated_user :: "('h, 'k) api \<Rightarrow> http_request \<Rightarrow> env \<Rightarrow> string + string" where
  "authenticated_user A r e =
     (if \<not> has_prefix (hr_authorization r) ''Bearer '' then Inl ''bearer token required''
      else
        let token = trim_space (trim_prefix (hr_authorization r) ''Bearer '') in
        case (if api_dev_auth A \<and> has_prefix token ''dev:'' then Inr (trim_space (trim_prefix token ''dev:''))
              else case api_auth A of
                None \<Rightarrow> Inr []
              | Some (lib, cfg, sender) \<Rightarrow> validate_access_token lib cfg e token) of
          Inl err \<Rightarrow> Inl ''invalid access token''
        | Inr user \<Rightarrow>
            if user = [] \<or> length user > 128 then Inl ''invalid authenticated user'' else Inr user)"

definition require_user :: "('h, 'k) api \<Rightarrow> http_request \<Rightarrow> (string \<Rightarrow> 's program) \<Rightarrow> 's program" where
  "require_user A r next_handler =
     query (\<lambda>e s. authenticated_user A r e) (\<lambda>result.
     case result of
       Inl message \<Rightarrow> write_error 401 ''unauthorized'' (Plain message)
     | Inr user \<Rightarrow> next_handler user)"

text \<open>A pattern of \<open>http.ServeMux\<close>: \<open>Wild\<close> is a \<open>{name}\<close> segment, which is not empty.\<close>

datatype segment = Lit string | Wild

fun match_path :: "segment list \<Rightarrow> string list \<Rightarrow> string list option" where
  "match_path [] [] = Some []"
| "match_path (Lit p # ps) (s # ss) = (if s = p then match_path ps ss else None)"
| "match_path (Wild # ps) (s # ss) = (if s = [] then None else map_option (Cons s) (match_path ps ss))"
| "match_path _ _ = None"

definition v1 :: "segment list \<Rightarrow> segment list" where
  "v1 ps = Lit ''v1'' # ps"

definition routes ::
  "('h, 'k::linorder) api \<Rightarrow> (string \<times> segment list \<times> (http_request \<Rightarrow> string list \<Rightarrow> 'h site program)) list"
where
  "routes A =
     [(''GET'', [Lit ''healthz''], \<lambda>r ps. health),
      (''GET'', v1 [Lit ''workers'', Lit ''connect''], \<lambda>r ps. write_json_body 101 WorkerSocket),
      (''POST'', v1 [Lit ''auth'', Lit ''start''], \<lambda>r ps. start_auth A r),
      (''POST'', v1 [Lit ''auth'', Lit ''verify''], \<lambda>r ps. verify_auth A r),
      (''POST'', v1 [Lit ''auth'', Lit ''refresh''], \<lambda>r ps. refresh_auth A r),
      (''GET'', v1 [Lit ''accounts''], \<lambda>r ps. require_user A r (list_accounts A)),
      (''POST'', v1 [Lit ''accounts''], \<lambda>r ps. require_user A r (\<lambda>u. create_account_handler A u r)),
      (''GET'', v1 [Lit ''accounts'', Wild],
        \<lambda>r ps. require_user A r (\<lambda>u. get_account_handler A u (ps ! 0))),
      (''DELETE'', v1 [Lit ''accounts'', Wild],
        \<lambda>r ps. require_user A r (\<lambda>u. delete_account_handler A u (ps ! 0))),
      (''POST'', v1 [Lit ''accounts'', Wild, Lit ''link''],
        \<lambda>r ps. require_user A r (\<lambda>u. link_account_handler A u (ps ! 0) r)),
      (''GET'', v1 [Lit ''conversations''],
        \<lambda>r ps. require_user A r (\<lambda>u. list_conversations_handler A u r)),
      (''GET'', v1 [Lit ''conversations'', Wild, Lit ''messages''],
        \<lambda>r ps. require_user A r (\<lambda>u. list_messages_handler A u (ps ! 0) r)),
      (''POST'', v1 [Lit ''conversations'', Wild, Lit ''messages''],
        \<lambda>r ps. require_user A r (\<lambda>u. send_message_handler A u (ps ! 0) r)),
      (''GET'', v1 [Lit ''ws''], \<lambda>r ps. require_user A r (client_web_socket A))]"

text \<open>A \<open>GET\<close> pattern serves \<open>HEAD\<close> too.\<close>

definition serves :: "string \<Rightarrow> string \<Rightarrow> bool" where
  "serves pattern_method request_method \<longleftrightarrow>
     request_method = pattern_method \<or> pattern_method = ''GET'' \<and> request_method = ''HEAD''"

definition serve :: "('h, 'k::linorder) api \<Rightarrow> http_request \<Rightarrow> 'h site program" where
  "serve A r =
     (let matching = filter (\<lambda>(m, ps, h). match_path ps (hr_path r) \<noteq> None) (routes A) in
      case List.find (\<lambda>(m, ps, h). serves m (hr_method r)) matching of
        Some (m, ps, h) \<Rightarrow> h r (the (match_path ps (hr_path r)))
      | None \<Rightarrow> write_json_body (if matching = [] then 404 else 405) NoBody)"

end
