(* ===== verification/Server.thy ===== *)
theory Server
  imports HttpApi
begin

section \<open>The server: concurrent requests on one site\<close>

text \<open>
  A server holds the site and the requests it is serving, each with what is left of its handler's
  program. A step lets one request make its next call, hands one command to the hub, delivers one
  reply of the hub, starts a request, or runs a call of the background (the hub's reads from the
  workers, the outbox loop, the retention loop): every interleaving of the process at the granularity
  of store calls is a run. \<open>sv_asked\<close> logs the commands handed to the hub. Shown: however many
  requests carry the same idempotency key, at most one of them hands the message to a worker; a
  request without a valid token does nothing; users do not see each other's conversations.
\<close>

record 'h server =
  sv_site :: "'h site"
  sv_threads :: "nat \<rightharpoonup> 'h site program"
  sv_asked :: "(string \<times> string \<times> json) list"

definition new_server :: "'h site \<Rightarrow> 'h server" where
  "new_server s = \<lparr>sv_site = s, sv_threads = Map.empty, sv_asked = []\<rparr>"

datatype sv_event =
    Arrive nat http_request
  | Advance nat env
  | Hand nat
  | Answer nat reply
  | Cut nat
  | Background env db_call

text \<open>\<open>None\<close>: the step is not possible in this state.\<close>

fun sv_step ::
  "('h, 'k::linorder) api \<Rightarrow> (string \<Rightarrow> 'h) \<Rightarrow> sv_event \<Rightarrow> 'h server \<Rightarrow> 'h server option"
where
  "sv_step A sha (Arrive i r) v =
     (if sv_threads v i \<noteq> None then None
      else Some (v\<lparr>sv_threads := (sv_threads v)(i \<mapsto> serve A r)\<rparr>))"
| "sv_step A sha (Advance i e) v =
     (case sv_threads v i of
        Some (Step f k) \<Rightarrow> Some (v\<lparr>sv_site := f e (sv_site v),
          sv_threads := (sv_threads v)(i \<mapsto> k e (sv_site v))\<rparr>)
      | _ \<Rightarrow> None)"
| "sv_step A sha (Hand i) v =
     (case sv_threads v i of
        Some (Ask a t j k) \<Rightarrow> Some (v\<lparr>sv_threads := (sv_threads v)(i \<mapsto> Await k),
          sv_asked := sv_asked v @ [(a, t, j)]\<rparr>)
      | _ \<Rightarrow> None)"
| "sv_step A sha (Answer i reply) v =
     (case sv_threads v i of
        Some (Await k) \<Rightarrow> Some (v\<lparr>sv_threads := (sv_threads v)(i \<mapsto> k reply)\<rparr>)
      | _ \<Rightarrow> None)"
| "sv_step A sha (Cut i) v =
     (case sv_threads v i of
        Some (Kick a p) \<Rightarrow> Some (v\<lparr>sv_threads := (sv_threads v)(i \<mapsto> p)\<rparr>)
      | _ \<Rightarrow> None)"
| "sv_step A sha (Background e c) v =
     Some (v\<lparr>sv_site := (sv_site v)\<lparr>st_db := run_db sha (api_collate A) e c (st_db (sv_site v))\<rparr>\<rparr>)"

fun sv_run ::
  "('h, 'k::linorder) api \<Rightarrow> (string \<Rightarrow> 'h) \<Rightarrow> sv_event list \<Rightarrow> 'h server \<Rightarrow> 'h server option"
where
  "sv_run A sha [] v = Some v"
| "sv_run A sha (e # es) v =
     (case sv_step A sha e v of None \<Rightarrow> None | Some v' \<Rightarrow> sv_run A sha es v')"

subsection \<open>What calls do to the site\<close>

text \<open>A call that keeps the schema and the commands.\<close>

definition benign :: "'h site \<Rightarrow> 'h site \<Rightarrow> bool" where
  "benign s s' \<longleftrightarrow> (pg_ok (st_db s) \<longrightarrow> pg_ok (st_db s')) \<and>
     commands_le (db_commands (st_db s)) (db_commands (st_db s'))"

lemma benign_refl [simp, intro]: "benign s s"
  by (simp add: benign_def)

lemma on_db_snd: "snd (on_db f e s) = s\<lparr>st_db := snd (f e (st_db s))\<rparr>"
  and on_db_fst: "fst (on_db f e s) = fst (f e (st_db s))"
  by (simp_all add: on_db_def split: prod.split)

lemma benign_run:
  assumes "\<And>u a. c \<noteq> Account (Delete u a)"
  shows "benign s (s\<lparr>st_db := run_db sha collate e c (st_db s)\<rparr>)"
  using run_commands_le [OF assms] by (simp add: benign_def run_pg_ok)

lemma benign_on_db:
  assumes "snd (f e (st_db s)) = run_db sha collate e c (st_db s)" "\<And>u a. c \<noteq> Account (Delete u a)"
  shows "benign s (snd (on_db f e s))"
  unfolding on_db_snd assms(1) using assms(2) by (rule benign_run)

text \<open>The authentication service adds users and keeps the rest of the stores.\<close>

definition users_grow :: "user_row list \<Rightarrow> user_row list \<Rightarrow> bool" where
  "users_grow us us' \<longleftrightarrow> u_id ` set us \<subseteq> u_id ` set us' \<and> (users_ok us \<longrightarrow> users_ok us')"

lemma users_grow_refl [simp, intro]: "users_grow us us"
  by (simp add: users_grow_def)

lemma upsert_user_grow:
  "upsert_user lib r db = Some (i, db') \<Longrightarrow> users_grow (ad_users db) (ad_users db')"
  by (auto simp: upsert_user_def users_grow_def users_ok_def table_simps row_by_None
      split: option.splits if_splits)

lemma start_login_users: "ad_users (snd (start_login lib cfg sender e email db)) = ad_users db"
  by (auto simp: start_login_def attempt_dests dest!: insert_loginD split: sum.splits)

lemma verify_login_users: "users_grow (ad_users db) (ad_users (snd (verify_login lib cfg e L code db)))"
proof (cases rule: verify_login_cases [of lib cfg e L code db])
  case (Wrong db')
  then show ?thesis by (auto dest!: verify_wrong)
next
  case (Right pair db')
  then obtain r db0 db1 i where "upsert_user lib r db0 = Some (i, db1)" "ad_users db0 = ad_users db"
    "ad_users db' = ad_users db1"
    by (fastforce simp: verify_tx_def attempt_dests split: if_splits prod.splits
        dest!: issue_token_pairD(2))
  with upsert_user_grow [OF this(1)] Right show ?thesis by simp
qed simp

lemma refresh_login_users: "ad_users (snd (refresh_login lib cfg e token db)) = ad_users db"
  by (cases rule: refresh_login_cases [of lib cfg e token db]) (auto dest: refresh_loginD)

lemma pg_ok_users_grow:
  assumes "pg_ok db" "users_grow (db_users db) us"
  shows "pg_ok (db\<lparr>db_users := us\<rparr>)"
  using assms unfolding pg_ok_def db_ok_def users_grow_def
  by (auto simp: accounts_ok_def outbox_ok_def)

lemma benign_on_auth:
  assumes "users_grow (ad_users (auth_of s)) (ad_users (snd (f e (auth_of s))))"
  shows "benign s (snd (on_auth f e s))"
  using assms pg_ok_users_grow [of "st_db s" "ad_users (snd (f e (auth_of s)))"]
  by (simp add: benign_def on_auth_def auth_of_def split_beta)

subsection \<open>Programs that do not send\<close>

text \<open>
  \<open>quiet\<close>: every call is benign and no message is handed to a worker. \<open>idle\<close>: the same up to a
  call of \<open>PrepareSend\<close>.
\<close>

inductive quiet :: "'h site program \<Rightarrow> bool" where
  respond: "quiet (Respond r)"
| step: "(\<And>e s. benign s (f e s)) \<Longrightarrow> (\<And>e s. quiet (k e s)) \<Longrightarrow> quiet (Step f k)"
| ask: "t \<noteq> TypeSend \<Longrightarrow> (\<And>r. quiet (k r)) \<Longrightarrow> quiet (Ask a t j k)"
| await: "(\<And>r. quiet (k r)) \<Longrightarrow> quiet (Await k)"
| kick: "quiet p \<Longrightarrow> quiet (Kick a p)"

inductive_cases quiet_StepE: "quiet (Step f k)"
inductive_cases quiet_AskE: "quiet (Ask a t j k)"
inductive_cases quiet_AwaitE: "quiet (Await k)"
inductive_cases quiet_KickE: "quiet (Kick a p)"

definition prepare_call ::
  "('h, 'k) api \<Rightarrow> string \<Rightarrow> string \<Rightarrow> string \<Rightarrow> string \<Rightarrow> 'h site program"
where
  "prepare_call A user conversation_id body key =
     call (on_db (\<lambda>e. prepare_send e user conversation_id body key)) (send_prepared A user body key)"

inductive idle :: "('h, 'k) api \<Rightarrow> 'h site program \<Rightarrow> bool" for A where
  quiet: "quiet p \<Longrightarrow> idle A p"
| step: "(\<And>e s. benign s (f e s)) \<Longrightarrow> (\<And>e s. idle A (k e s)) \<Longrightarrow> idle A (Step f k)"
| prepare: "idle A (prepare_call A user conversation_id body key)"

lemma quiet_call [intro]:
  "(\<And>e s. benign s (snd (f e s))) \<Longrightarrow> (\<And>r. quiet (k r)) \<Longrightarrow> quiet (call f k)"
  unfolding call_def by (rule quiet.step)

lemma quiet_query [intro]: "(\<And>r. quiet (k r)) \<Longrightarrow> quiet (query f k)"
  unfolding query_def by (rule quiet.step) simp_all

lemma idle_query [intro]: "(\<And>r. idle A (k r)) \<Longrightarrow> idle A (query f k)"
  unfolding query_def by (rule idle.step) simp_all

lemma quiet_write [simp, intro]:
  "quiet (write_json_body status body)" "quiet (write_error status code message)"
  "quiet messages_not_configured" "quiet auth_not_configured" "quiet (accepted i m)" "quiet health"
  by (simp_all add: write_json_body_def write_error_def messages_not_configured_def
      auth_not_configured_def accepted_def health_def quiet.respond)

lemma quiet_splits:
  "(\<And>a. x = Inl a \<Longrightarrow> quiet (f a)) \<Longrightarrow> (\<And>b. x = Inr b \<Longrightarrow> quiet (g b)) \<Longrightarrow> quiet (case_sum f g x)"
  "(y = None \<Longrightarrow> quiet p) \<Longrightarrow> (\<And>b. y = Some b \<Longrightarrow> quiet (h b)) \<Longrightarrow> quiet (case_option p h y)"
  "(c \<Longrightarrow> quiet p) \<Longrightarrow> (\<not> c \<Longrightarrow> quiet q) \<Longrightarrow> quiet (if c then p else q)"
  "(\<And>a b. z = (a, b) \<Longrightarrow> quiet (l a b)) \<Longrightarrow> quiet (case_prod l z)"
  by (simp_all split: sum.split option.split prod.split)

lemma quiet_with_body [intro]: "(\<And>fs. quiet (k fs)) \<Longrightarrow> quiet (with_body names r k)"
  by (auto simp: with_body_def split: sum.split)

lemma quiet_with_account [intro]:
  "(\<And>account. quiet (k account)) \<Longrightarrow> quiet (with_account A user account_id k)"
  unfolding with_account_def by (intro quiet_query quiet_splits) auto

lemmas quiet_intros = quiet_with_body quiet_with_account quiet_call quiet_query quiet_splits
  quiet_write quiet.ask quiet.await quiet.kick

lemma quiet_auth:
  "quiet (start_auth A r)" "quiet (verify_auth A r)" "quiet (refresh_auth A r)"
  unfolding start_auth_def verify_auth_def refresh_auth_def
  by (intro quiet_intros benign_on_auth; simp add: start_login_users verify_login_users
      refresh_login_users)+

lemma quiet_accounts:
  assumes "api_store A = postgres_store sha"
  shows "quiet (list_accounts A user)" "quiet (create_account_handler A user r)"
    "quiet (get_account_handler A user i)"
proof -
  have "benign s (snd (on_db (\<lambda>e. store_create (api_store A) e user p n) e s))" for p n e s
    by (rule benign_on_db [where sha = sha and collate = "id :: string \<Rightarrow> string" and c = "Account (Create user p n)"])
      (simp_all add: assms)
  then show "quiet (list_accounts A user)" "quiet (create_account_handler A user r)"
    "quiet (get_account_handler A user i)"
    unfolding list_accounts_def create_account_handler_def get_account_handler_def
    by (intro quiet_intros; simp)+
qed

lemma link_command_type: "link_command a action d p c w = Inr (t, j) \<Longrightarrow> t \<noteq> TypeSend"
  by (auto simp: link_command_def type_defs split: if_splits)

lemma quiet_link: "quiet (link_account_handler A user i r)"
  unfolding link_account_handler_def by (intro quiet_intros) (auto dest: link_command_type)

lemma benign_message_calls:
  "benign s (snd (on_db (\<lambda>e. upsert_conversations e user a cs) e s))"
  "benign s (snd (on_db (\<lambda>e. CacheMessage e account m) e s))"
  "benign s (snd (on_db (\<lambda>e. prepare_send e user c body key) e s))"
  "benign s (snd (on_db (\<lambda>e. mark_command_dispatched e i) e s))"
  "benign s (snd (on_db (\<lambda>e. complete_send e user i p t) e s))"
  "benign s (snd (on_db (\<lambda>e. fail_send e user i code) e s))"
  by (rule benign_on_db [where sha = "\<lambda>_. undefined" and collate = "id :: string \<Rightarrow> string" and c = "Sync user a cs"]
      benign_on_db [where sha = "\<lambda>_. undefined" and collate = "id :: string \<Rightarrow> string" and c = "Ingest account m False"]
      benign_on_db [where sha = "\<lambda>_. undefined" and collate = "id :: string \<Rightarrow> string" and c = "Prepare user c body key"]
      benign_on_db [where sha = "\<lambda>_. undefined" and collate = "id :: string \<Rightarrow> string" and c = "Dispatch i"]
      benign_on_db [where sha = "\<lambda>_. undefined" and collate = "id :: string \<Rightarrow> string" and c = "Complete user i p t"]
      benign_on_db [where sha = "\<lambda>_. undefined" and collate = "id :: string \<Rightarrow> string" and c = "Fail user i code"];
    simp add: CacheMessage_def)+

lemma quiet_list_conversations: "quiet (list_conversations_handler A user r)"
  unfolding list_conversations_handler_def Let_def
  by (intro quiet_intros benign_message_calls) (simp_all add: type_defs)

lemma quiet_cache_history: "quiet k \<Longrightarrow> quiet (cache_history account ms k)"
  by (induction ms) (auto intro!: quiet_intros benign_message_calls)

lemma quiet_list_messages: "quiet (list_messages_handler A user conversation_id r)"
  unfolding list_messages_handler_def Let_def
  by (intro quiet_intros quiet_cache_history) (simp_all add: type_defs)

lemma quiet_send_answered: "quiet (send_answered A user prepared result)"
  unfolding send_answered_def send_failed_def
  by (intro quiet_intros benign_message_calls)

lemma idle_send_message: "idle A (send_message_handler A user conversation_id r)"
  unfolding send_message_handler_def with_body_def Let_def
  by (auto simp flip: prepare_call_def intro: idle.intros split: sum.split)

lemma quiet_web_socket: "quiet (client_web_socket A user)"
  unfolding client_web_socket_def by (intro quiet_intros)

lemma idle_require_user: "(\<And>user. idle A (h user)) \<Longrightarrow> idle A (require_user A r h)"
  unfolding require_user_def by (intro idle_query) (auto intro: idle.quiet split: sum.split)

text \<open>Every route but the deletion of an account.\<close>

lemma idle_serve:
  assumes "api_store A = postgres_store sha" "hr_method r \<noteq> ''DELETE''"
  shows "idle A (serve A r)"
proof (cases "List.find (\<lambda>(m, ps, h). serves m (hr_method r))
    (filter (\<lambda>(m, ps, h). match_path ps (hr_path r) \<noteq> None) (routes A))")
  case None
  then show ?thesis by (simp add: serve_def Let_def idle.quiet)
next
  case (Some route)
  obtain m ps h where route: "route = (m, ps, h)" by (cases route)
  with find_SomeD [OF Some] have "(m, ps, h) \<in> set (routes A)" "serves m (hr_method r)" by auto
  with assms(2) have "(m, ps, h) \<in> set (routes A)" "m \<noteq> ''DELETE''" by (auto simp: serves_def)
  then have "idle A (h r qs)" for qs
    using quiet_accounts [OF assms(1)]
    by (auto simp: routes_def intro!: idle_require_user idle_send_message
        intro: idle.quiet quiet_auth quiet_link quiet_list_conversations quiet_list_messages
          quiet_web_socket)
  with Some route show ?thesis by (simp add: serve_def Let_def)
qed

subsection \<open>One message, one worker command\<close>

text \<open>
  A send is identified by its account and its idempotency key. \<open>named\<close>: the command with this id
  is the one of this send; \<open>send_settled\<close>: the send's command is past pending.
\<close>

definition named :: "string \<times> string \<Rightarrow> string \<Rightarrow> 'h db \<Rightarrow> bool" where
  "named ak i db \<longleftrightarrow> (\<exists>k. row_by k_id i (db_commands db) = Some k \<and> command_key k = ak)"

definition send_settled :: "string \<times> string \<Rightarrow> 'h db \<Rightarrow> bool" where
  "send_settled ak db \<longleftrightarrow> (\<exists>i. named ak i db \<and> past_pending i db)"

lemma named_le: "commands_le (db_commands db) (db_commands db') \<Longrightarrow> named ak i db \<Longrightarrow> named ak i db'"
  unfolding named_def commands_le_def by metis

lemma send_settled_le: "commands_le (db_commands db) (db_commands db') \<Longrightarrow> send_settled ak db \<Longrightarrow> send_settled ak db'"
  unfolding send_settled_def using named_le past_pending_le by blast

lemma named_unique:
  assumes "db_ok db" "named ak i db" "named ak j db"
  shows "i = j"
proof -
  from assms(2,3) obtain k l where
    k: "row_by k_id i (db_commands db) = Some k" "command_key k = ak"
    and l: "row_by k_id j (db_commands db) = Some l" "command_key l = ak" by (auto simp: named_def)
  from unique_by_memD [OF unique_command_keys [OF assms(1)]] k l have "k = l"
    by (metis row_by_mem)
  with k(1) l(1) show ?thesis by (metis row_by_key)
qed

lemma prepare_named:
  assumes "prepare_send e user conversation_id body key db = (Inr p, db')" "db_ok db"
  shows "named (prep_account_id p, key) (prep_command_id p) db'"
proof -
  from prepare_send_Inr [OF assms(1)] obtain res where
    tx: "prepare_tx e user conversation_id body key db = Inr (res, db')"
    and res: "case res of Inl a \<Rightarrow> existing_send e a key db' = Inr p | Inr q \<Rightarrow> q = p" by blast
  from tx show ?thesis
  proof (cases rule: prepare_tx_cases)
    case (Taken c a k)
    with res have "existing_send e (c_account_id c) key db' = Inr p" by simp
    then obtain k where k: "row_by command_key (c_account_id c, key) (db_commands db) = Some k"
      "prep_account_id p = c_account_id c" "prep_command_id p = k_id k"
      by (auto simp: existing_send_def query_row_eq_Inr Taken(3) bind_eq_Some_conv)
    from row_by_unique [OF unique_commands [OF assms(2)] row_by_mem [OF k(1)]] row_by_key [OF k(1)] k
    show ?thesis by (simp add: named_def Taken(3))
  next
    case (Prepared c a i j db1 db2)
    note tables = prepared_tables [OF Prepared(4,5,6)]
    have "row_by k_id i (db_commands db) = None" using tables(6) by (simp add: row_by_None)
    then have "row_by k_id i (db_commands db') =
        Some (link_message j (send_command_row e i (c_account_id c) (c_provider_id c) body key))"
      by (simp add: tables(1) row_by_append link_message_def send_command_row_def)
    with res Prepared(7) show ?thesis
      by (auto simp: named_def command_key_def link_message_def send_command_row_def)
  qed
qed

lemma dispatch_settles:
  assumes "db_ok db" "mark_command_dispatched e i db = (Inr True, db')" "named ak i db"
  shows "\<not> send_settled ak db" "send_settled ak db'"
proof -
  show "\<not> send_settled ak db"
  proof
    assume "send_settled ak db"
    then obtain j where "named ak j db" "past_pending j db" by (auto simp: send_settled_def)
    with named_unique [OF assms(1,3)] have "past_pending i db" by blast
    from dispatch_past_pending [OF this assms(1), of e] assms(2) show False by simp
  qed
  have "commands_le (db_commands db) (db_commands db')"
    using run_commands_le [of "Dispatch i" db "\<lambda>_. undefined" "id :: string \<Rightarrow> string" e] assms(2)
    by simp
  with dispatch_True [OF assms(1,2)] assms(3) named_le show "send_settled ak db'"
    unfolding send_settled_def by blast
qed

text \<open>The send a command handed to the hub belongs to.\<close>

fun send_key :: "string \<times> string \<times> json \<Rightarrow> (string \<times> string) option" where
  "send_key (a, t, j) =
     (if t = TypeSend then map_option (\<lambda>c. (a, sc_idempotency_key c)) (decode_send_command j) else None)"

definition sends :: "string \<times> string \<Rightarrow> 'h server \<Rightarrow> nat" where
  "sends ak v = length (filter (\<lambda>x. send_key x = Some ak) (sv_asked v))"

definition holds :: "string \<times> string \<Rightarrow> 'h site program \<Rightarrow> bool" where
  "holds ak p \<longleftrightarrow> (\<exists>a t j k. p = Ask a t j k \<and> send_key (a, t, j) = Some ak)"

text \<open>What is left of a request, by how far it has come with a send.\<close>

definition dispatch_call ::
  "('h, 'k) api \<Rightarrow> string \<Rightarrow> string \<Rightarrow> string \<Rightarrow> send_preparation \<Rightarrow> 'h site program"
where
  "dispatch_call A user body key prepared =
     call (on_db (\<lambda>e. mark_command_dispatched e (prep_command_id prepared)))
       (send_marked A user body key prepared)"

inductive thread_ok :: "('h, 'k) api \<Rightarrow> 'h db \<Rightarrow> 'h site program \<Rightarrow> bool" for A db where
  idle: "idle A p \<Longrightarrow> thread_ok A db p"
| prepared: "named (prep_account_id prepared, key) (prep_command_id prepared) db \<Longrightarrow>
    thread_ok A db (dispatch_call A user body key prepared)"
| dispatched: "(\<And>r. quiet (k r)) \<Longrightarrow> send_key (a, t, j) = Some ak \<Longrightarrow> send_settled ak db \<Longrightarrow>
    thread_ok A db (Ask a t j k)"

lemma thread_ok_le:
  "thread_ok A db p \<Longrightarrow> commands_le (db_commands db) (db_commands db') \<Longrightarrow> thread_ok A db' p"
  by (induction rule: thread_ok.induct)
    (auto intro: thread_ok.intros named_le send_settled_le simp del: send_key.simps)

lemma quiet_not_holds: "quiet p \<Longrightarrow> \<not> holds ak p"
  by (auto simp: holds_def elim: quiet_AskE split: if_splits)

lemma idle_not_holds: "idle A p \<Longrightarrow> \<not> holds ak p"
  by (cases rule: idle.cases) (auto simp: quiet_not_holds, auto simp: holds_def prepare_call_def call_def)

lemma dispatch_call_not_holds: "\<not> holds ak (dispatch_call A user body key prepared)"
  by (simp add: holds_def dispatch_call_def call_def)

lemma idle_Step:
  assumes "idle A (Step f k)" "pg_ok (st_db s)"
  shows "benign s (f e s) \<and> thread_ok A (st_db (f e s)) (k e s) \<and> \<not> holds ak (k e s)"
  using assms(1)
proof cases
  case quiet
  then show ?thesis by (auto elim!: quiet_StepE intro!: thread_ok.idle idle.quiet simp: quiet_not_holds)
next
  case step
  then show ?thesis by (auto intro: thread_ok.idle simp: idle_not_holds [of A])
next
  case (prepare user c body key)
  obtain r db' where p: "prepare_send e user c body key (st_db s) = (r, db')" by force
  with prepare have f: "f e s = s\<lparr>st_db := db'\<rparr>" and k: "k e s = send_prepared A user body key r"
    by (simp_all add: prepare_call_def call_def on_db_def)
  have "benign s (f e s)"
    using benign_message_calls(3) [of s user c body key e] p by (simp add: f on_db_def)
  moreover have "thread_ok A db' (send_prepared A user body key r) \<and>
      \<not> holds ak (send_prepared A user body key r)"
  proof (cases r)
    case (Inl err)
    then show ?thesis
      by (auto simp: send_prepared_def quiet_not_holds intro: thread_ok.idle idle.quiet)
  next
    case (Inr prepared)
    with prepare_named [of e user c body key "st_db s" prepared db'] p pg_ok_schema [OF assms(2)]
    have "named (prep_account_id prepared, key) (prep_command_id prepared) db'" by simp
    with Inr show ?thesis
      by (auto simp: send_prepared_def quiet_not_holds dispatch_call_not_holds simp flip: dispatch_call_def
          intro: thread_ok.idle idle.quiet thread_ok.prepared)
  qed
  ultimately show ?thesis by (simp add: f k)
qed

text \<open>
  The call of \<open>MarkCommandDispatched\<close>: if the rest of the request then holds a send, the send was
  not settled before and is settled now.
\<close>

lemma dispatch_call_step:
  assumes "named (prep_account_id prepared, key) (prep_command_id prepared) (st_db s)" "pg_ok (st_db s)"
    and "dispatch_call A user body key prepared = Step f k"
  shows "benign s (f e s) \<and> thread_ok A (st_db (f e s)) (k e s) \<and>
    (holds ak (k e s) \<longrightarrow> \<not> send_settled ak (st_db s) \<and> send_settled ak (st_db (f e s)))"
proof -
  let ?i = "prep_command_id prepared" and ?ak = "(prep_account_id prepared, key)"
  obtain r db' where m: "mark_command_dispatched e ?i (st_db s) = (r, db')" by force
  with assms(3) have f: "f e s = s\<lparr>st_db := db'\<rparr>"
    and k: "k e s = send_marked A user body key prepared r"
    by (auto simp: dispatch_call_def call_def on_db_def)
  have benign: "benign s (f e s)"
    using benign_message_calls(4) [of s ?i e] m by (simp add: f on_db_def)
  show ?thesis
  proof (cases "r = Inr True")
    case True
    with dispatch_settles [OF pg_ok_schema [OF assms(2)] _ assms(1)] m
    have settles: "\<not> send_settled ?ak (st_db s)" "send_settled ?ak db'" by auto
    have key: "send_key (prep_account_id prepared, TypeSend, encode_send_command
        \<lparr>sc_conversation_id = prep_conversation prepared, sc_body = body, sc_idempotency_key = key\<rparr>) = Some ?ak"
      by (simp add: decode_encode_send_command)
    from True have k': "k e s = Ask (prep_account_id prepared) TypeSend (encode_send_command
        \<lparr>sc_conversation_id = prep_conversation prepared, sc_body = body, sc_idempotency_key = key\<rparr>)
        (send_answered A user prepared)"
      by (simp add: k send_marked_def)
    have "thread_ok A db' (k e s)"
      unfolding k' by (rule thread_ok.dispatched [OF quiet_send_answered key settles(2)])
    moreover have "ak = ?ak" if "holds ak (k e s)"
      using that key unfolding holds_def k' by auto
    ultimately show ?thesis using benign settles by (auto simp: f)
  next
    case False
    then have "quiet (k e s)" by (auto simp: k send_marked_def split: sum.split)
    with benign show ?thesis by (auto simp: quiet_not_holds intro: thread_ok.idle idle.quiet)
  qed
qed

text \<open>
  The invariant, for one send: it has been handed to the hub at most once; while a request holds it
  or once it is handed over, it is settled, and no other request holds it.
\<close>

definition send_inv :: "('h, 'k) api \<Rightarrow> string \<times> string \<Rightarrow> 'h server \<Rightarrow> bool" where
  "send_inv A ak v \<longleftrightarrow> pg_ok (st_db (sv_site v)) \<and>
     (\<forall>i p. sv_threads v i = Some p \<longrightarrow> thread_ok A (st_db (sv_site v)) p) \<and>
     (sends ak v = 0 \<or> sends ak v = 1 \<and> send_settled ak (st_db (sv_site v)) \<and>
        (\<forall>i p. sv_threads v i = Some p \<longrightarrow> \<not> holds ak p)) \<and>
     (\<forall>i j p q. sv_threads v i = Some p \<longrightarrow> holds ak p \<longrightarrow> sv_threads v j = Some q \<longrightarrow> holds ak q \<longrightarrow> i = j)"

lemma send_invD:
  assumes "send_inv A ak v"
  shows "pg_ok (st_db (sv_site v))"
    and "sv_threads v i = Some p \<Longrightarrow> thread_ok A (st_db (sv_site v)) p"
    and "sends ak v = 0 \<or> sends ak v = 1 \<and> send_settled ak (st_db (sv_site v)) \<and>
      (\<forall>i p. sv_threads v i = Some p \<longrightarrow> \<not> holds ak p)"
    and "sv_threads v i = Some p \<Longrightarrow> holds ak p \<Longrightarrow> sv_threads v j = Some q \<Longrightarrow> holds ak q \<Longrightarrow> i = j"
  using assms unfolding send_inv_def by blast+

lemma send_invI:
  assumes "pg_ok (st_db (sv_site v))"
    and "\<And>i p. sv_threads v i = Some p \<Longrightarrow> thread_ok A (st_db (sv_site v)) p"
    and "sends ak v = 0 \<or> sends ak v = 1 \<and> send_settled ak (st_db (sv_site v)) \<and>
      (\<forall>i p. sv_threads v i = Some p \<longrightarrow> \<not> holds ak p)"
    and "\<And>i j p q. sv_threads v i = Some p \<Longrightarrow> holds ak p \<Longrightarrow> sv_threads v j = Some q \<Longrightarrow>
      holds ak q \<Longrightarrow> i = j"
  shows "send_inv A ak v"
  using assms unfolding send_inv_def by blast

lemma send_inv_log:
  assumes "send_inv A ak v" "sv_site w = sv_site v" "sv_threads w = sv_threads v" "sends ak w = sends ak v"
  shows "send_inv A ak w"
  using assms(1) unfolding send_inv_def assms(2-4) .

text \<open>A request that waits for something else than a call has no call of \<open>PrepareSend\<close> ahead.\<close>

lemma thread_quiet:
  assumes "thread_ok A db p" "\<And>f k. p \<noteq> Step f k"
  shows "(\<exists>a t j k. p = Ask a t j k \<and> (\<forall>r. quiet (k r))) \<or> quiet p"
  using assms
proof cases
  case idle
  then show ?thesis using assms(2)
    by (cases rule: idle.cases) (auto simp: prepare_call_def call_def)
qed (auto simp: dispatch_call_def call_def)

lemma holds_settled: "thread_ok A db p \<Longrightarrow> holds ak p \<Longrightarrow> send_settled ak db"
  by (cases rule: thread_ok.cases)
    (auto simp: idle_not_holds simp del: send_key.simps, auto simp: holds_def dispatch_call_def call_def)

text \<open>A step of one request that keeps the schema and the commands keeps the invariant.\<close>

lemma send_inv_thread:
  assumes inv: "send_inv A ak v" and benign: "benign (sv_site v) s"
    and p: "thread_ok A (st_db s) p"
    and holds: "holds ak p \<Longrightarrow> \<not> send_settled ak (st_db (sv_site v))"
  shows "send_inv A ak (v\<lparr>sv_site := s, sv_threads := (sv_threads v)(i \<mapsto> p)\<rparr>)" (is "send_inv A ak ?v")
proof -
  have le: "commands_le (db_commands (st_db (sv_site v))) (db_commands (st_db s))"
    using benign by (simp add: benign_def)
  have sends: "sends ak (v\<lparr>sv_site := s, sv_threads := t\<rparr>) = sends ak v" for t
    by (simp add: sends_def)
  have none: "\<not> holds ak q" if "holds ak p" "sv_threads v j = Some q" for j q
    using holds [OF that(1)] holds_settled [OF send_invD(2) [OF inv that(2)]] by blast
  have zero: "sends ak v = 0" if "holds ak p"
    using send_invD(3) [OF inv] holds [OF that] by blast
  show ?thesis
  proof (rule send_invI)
    show "pg_ok (st_db (sv_site ?v))" using send_invD(1) [OF inv] benign by (simp add: benign_def)
    show "thread_ok A (st_db (sv_site ?v)) q" if "sv_threads ?v j = Some q" for j q
      using that p thread_ok_le [OF send_invD(2) [OF inv] le] by (auto split: if_splits)
    show "sends ak ?v = 0 \<or> sends ak ?v = 1 \<and> send_settled ak (st_db (sv_site ?v)) \<and>
        (\<forall>j q. sv_threads ?v j = Some q \<longrightarrow> \<not> holds ak q)"
      using send_invD(3) [OF inv] zero send_settled_le [OF le, of ak] by (auto simp: sends)
    show "j = l" if "sv_threads ?v j = Some q" "holds ak q" "sv_threads ?v l = Some r" "holds ak r" for j l q r
      using that none send_invD(4) [OF inv, of j q l r] by (cases "j = i"; cases "l = i") auto
  qed
qed

lemma send_inv_quiet:
  assumes "send_inv A ak v" "quiet p"
  shows "send_inv A ak (v\<lparr>sv_threads := (sv_threads v)(i \<mapsto> p)\<rparr>)"
  using send_inv_thread [OF assms(1), of "sv_site v" p i] assms(2)
  by (simp add: quiet_not_holds thread_ok.idle idle.quiet)

lemma send_inv_background:
  assumes inv: "send_inv A ak v" and benign: "benign (sv_site v) s"
  shows "send_inv A ak (v\<lparr>sv_site := s\<rparr>)"
proof -
  have le: "commands_le (db_commands (st_db (sv_site v))) (db_commands (st_db s))"
    using benign by (simp add: benign_def)
  have "sends ak (v\<lparr>sv_site := s\<rparr>) = sends ak v" by (simp add: sends_def)
  with inv benign thread_ok_le [OF _ le] send_settled_le [OF le, of ak] show ?thesis
    by (auto simp: send_inv_def benign_def)
qed

text \<open>Handing a command over: a send that is held becomes a send that is handed over.\<close>

lemma send_inv_hand:
  assumes inv: "send_inv A ak v" and p: "sv_threads v i = Some (Ask a t j k)" and quiet: "quiet (Await k)"
  shows "send_inv A ak
    (v\<lparr>sv_threads := (sv_threads v)(i \<mapsto> Await k), sv_asked := sv_asked v @ [(a, t, j)]\<rparr>)"
    (is "send_inv A ak ?v")
proof (cases "holds ak (Ask a t j k)")
  case True
  then have key: "send_key (a, t, j) = Some ak" by (simp add: holds_def)
  have settled: "send_settled ak (st_db (sv_site v))"
    using holds_settled [OF send_invD(2) [OF inv p] True] .
  have "sends ak v = 0" using send_invD(3) [OF inv] p True by blast
  then have one: "sends ak ?v = 1" using key by (simp add: sends_def)
  have none: "\<not> holds ak q" if "sv_threads ?v l = Some q" for l q
    using that send_invD(4) [OF inv p True, of l q] quiet_not_holds [OF quiet]
    by (auto split: if_splits)
  show ?thesis
  proof (rule send_invI)
    show "thread_ok A (st_db (sv_site ?v)) q" if "sv_threads ?v l = Some q" for l q
      using that send_invD(2) [OF inv] quiet by (auto simp: thread_ok.idle idle.quiet split: if_splits)
  qed (use send_invD(1) [OF inv] settled one none in \<open>simp_all, blast?\<close>)
next
  case False
  then have "send_key (a, t, j) \<noteq> Some ak" by (simp add: holds_def)
  then have "sends ak ?v = sends ak (v\<lparr>sv_threads := (sv_threads v)(i \<mapsto> Await k)\<rparr>)"
    by (simp add: sends_def)
  then show ?thesis by (intro send_inv_log [OF send_inv_quiet [OF inv quiet, of i]]) simp_all
qed

lemma send_inv_step:
  assumes inv: "send_inv A ak v" and step: "sv_step A sha e v = Some v'"
    and store: "api_store A = postgres_store sha"
    and keep: "\<And>i r. e = Arrive i r \<Longrightarrow> hr_method r \<noteq> ''DELETE''"
      "\<And>c u a. e = Background c (Account (Delete u a)) \<Longrightarrow> False"
  shows "send_inv A ak v'"
  using step
proof (cases "(A, sha, e, v)" rule: sv_step.cases)
  case (1 A' sha' i r v0)
  have idle: "idle A (serve A r)" by (rule idle_serve [OF store keep(1)]) (use 1 in simp)
  have "send_inv A ak (v\<lparr>sv_site := sv_site v, sv_threads := (sv_threads v)(i \<mapsto> serve A r)\<rparr>)"
    by (rule send_inv_thread [OF inv]) (simp_all add: thread_ok.idle [OF idle] idle_not_holds [OF idle])
  with 1 step show ?thesis by (simp split: if_splits)
next
  case (2 A' sha' i e0 v0)
  with step obtain f k where p: "sv_threads v i = Some (Step f k)"
    and v': "v' = v\<lparr>sv_site := f e0 (sv_site v), sv_threads := (sv_threads v)(i \<mapsto> k e0 (sv_site v))\<rparr>"
    by (auto split: option.splits program.splits)
  have ok: "pg_ok (st_db (sv_site v))" and thread: "thread_ok A (st_db (sv_site v)) (Step f k)"
    using inv p by (auto simp: send_inv_def)
  have "benign (sv_site v) (f e0 (sv_site v)) \<and>
      thread_ok A (st_db (f e0 (sv_site v))) (k e0 (sv_site v)) \<and>
      (holds ak (k e0 (sv_site v)) \<longrightarrow> \<not> send_settled ak (st_db (sv_site v)))"
    using thread
  proof cases
    case idle
    then show ?thesis using idle_Step [OF idle ok] by blast
  next
    case (prepared p' key user body)
    then show ?thesis using dispatch_call_step [OF _ ok] by metis
  qed
  then show ?thesis unfolding v' by (intro send_inv_thread [OF inv]) auto
next
  case (3 A' sha' i v0)
  with step obtain a t j k where p: "sv_threads v i = Some (Ask a t j k)"
    and v': "v' = v\<lparr>sv_threads := (sv_threads v)(i \<mapsto> Await k), sv_asked := sv_asked v @ [(a, t, j)]\<rparr>"
    by (auto split: option.splits program.splits)
  have "thread_ok A (st_db (sv_site v)) (Ask a t j k)" using inv p by (simp add: send_inv_def)
  from thread_quiet [OF this] have "quiet (Await k)" by (auto elim: quiet_AskE intro: quiet.await)
  then show ?thesis unfolding v' by (rule send_inv_hand [OF inv p])
next
  case (4 A' sha' i r v0)
  with step obtain k where p: "sv_threads v i = Some (Await k)"
    and v': "v' = v\<lparr>sv_threads := (sv_threads v)(i \<mapsto> k r)\<rparr>"
    by (auto split: option.splits program.splits)
  have "thread_ok A (st_db (sv_site v)) (Await k)" using inv p by (simp add: send_inv_def)
  from thread_quiet [OF this] have "quiet (k r)" by (auto elim: quiet_AwaitE)
  with send_inv_quiet [OF inv] show ?thesis unfolding v' by simp
next
  case (5 A' sha' i v0)
  with step obtain a q where p: "sv_threads v i = Some (Kick a q)"
    and v': "v' = v\<lparr>sv_threads := (sv_threads v)(i \<mapsto> q)\<rparr>"
    by (auto split: option.splits program.splits)
  have "thread_ok A (st_db (sv_site v)) (Kick a q)" using inv p by (simp add: send_inv_def)
  from thread_quiet [OF this] have "quiet q" by (auto elim: quiet_KickE)
  with send_inv_quiet [OF inv] show ?thesis unfolding v' by simp
next
  case (6 A' sha' e0 c v0)
  with step have v': "v' = v\<lparr>sv_site := (sv_site v)\<lparr>st_db :=
      run_db sha (api_collate A) e0 c (st_db (sv_site v))\<rparr>\<rparr>" by simp
  have "benign (sv_site v) ((sv_site v)\<lparr>st_db := run_db sha (api_collate A) e0 c (st_db (sv_site v))\<rparr>)"
    by (rule benign_run) (use keep(2) 6 in auto)
  then show ?thesis unfolding v' by (rule send_inv_background [OF inv])
qed

lemma send_inv_new: "pg_ok (st_db s) \<Longrightarrow> send_inv A ak (new_server s)"
  by (simp add: send_inv_def new_server_def sends_def)

lemma send_inv_run:
  assumes "send_inv A ak v" "sv_run A sha es v = Some v'" "api_store A = postgres_store sha"
    and "\<forall>i r. Arrive i r \<in> set es \<longrightarrow> hr_method r \<noteq> ''DELETE''"
    and "\<forall>e u a. Background e (Account (Delete u a)) \<notin> set es"
  shows "send_inv A ak v'"
  using assms
proof (induction es arbitrary: v)
  case (Cons e es)
  then obtain w where w: "sv_step A sha e v = Some w" "sv_run A sha es w = Some v'"
    by (auto split: option.splits)
  have "send_inv A ak w"
    by (rule send_inv_step [OF Cons.prems(1) w(1) assms(3)]) (use Cons.prems(4,5) in fastforce)+
  with w(2) Cons show ?case by auto
qed simp

text \<open>
  C2. No message is sent twice, end to end: whatever requests arrive at the server, however they
  and the background calls interleave and whatever fails, among all requests with one idempotency
  key for one account at most one hands a send command to the hub - as long as no account is
  deleted.
\<close>

theorem message_handed_once:
  assumes "sv_run A sha es (new_server s) = Some v" "pg_ok (st_db s)"
    and "api_store A = postgres_store sha"
    and "\<forall>i r. Arrive i r \<in> set es \<longrightarrow> hr_method r \<noteq> ''DELETE''"
    and "\<forall>e u a. Background e (Account (Delete u a)) \<notin> set es"
  shows "length (filter (\<lambda>x. send_key x = Some (account, key)) (sv_asked v)) \<le> 1"
  using send_inv_run [OF send_inv_new [OF assms(2)] assms(1,3-5), of "(account, key)"]
  by (auto simp: send_inv_def sends_def)

subsection \<open>A request on its own\<close>

text \<open>
  The run of one program that nothing interleaves with: call \<open>n\<close> sees the environment \<open>es n\<close>, a
  request to the hub gets the reply \<open>rs n\<close>. The result is the response, the commands handed to the
  hub, and the site.
\<close>

primrec run_program ::
  "'s program \<Rightarrow> (nat \<Rightarrow> env) \<Rightarrow> (nat \<Rightarrow> reply) \<Rightarrow> nat \<Rightarrow> 's \<Rightarrow>
   response \<times> (string \<times> string \<times> json) list \<times> 's"
where
  "run_program (Respond r) = (\<lambda>es rs n s. (r, [], s))"
| "run_program (Step f k) = (\<lambda>es rs n s. run_program (k (es n) s) es rs (Suc n) (f (es n) s))"
| "run_program (Ask a t j k) = (\<lambda>es rs n s.
     case run_program (k (rs n)) es rs (Suc n) s of (r, asked, s') \<Rightarrow> (r, (a, t, j) # asked, s'))"
| "run_program (Await k) = (\<lambda>es rs n s. run_program (k (rs n)) es rs (Suc n) s)"
| "run_program (Kick a p) = (\<lambda>es rs n s. run_program p es rs n s)"

lemma run_call [simp]:
  "run_program (call f k) es rs n s =
   run_program (k (fst (f (es n) s))) es rs (Suc n) (snd (f (es n) s))"
  by (simp add: call_def)

lemma run_query [simp]:
  "run_program (query f k) es rs n s = run_program (k (f (es n) s)) es rs (Suc n) s"
  by (simp add: query_def)

lemma run_write [simp]:
  "run_program (write_json_body status body) es rs n s = (\<lparr>rs_status = status, rs_body = body\<rparr>, [], s)"
  "run_program (write_error status code message) es rs n s =
     (\<lparr>rs_status = status, rs_body = ErrorBody code message\<rparr>, [], s)"
  "run_program (accepted i m) es rs n s = (\<lparr>rs_status = 202, rs_body = SendBody i m\<rparr>, [], s)"
  by (simp_all add: write_json_body_def write_error_def accepted_def)

subsection \<open>Who may do what\<close>

text \<open>The routes that need no user.\<close>

definition open_paths :: "string list list" where
  "open_paths = [[''healthz''], [''v1'', ''workers'', ''connect''], [''v1'', ''auth'', ''start''],
     [''v1'', ''auth'', ''verify''], [''v1'', ''auth'', ''refresh'']]"

lemma match_Nil: "match_path [] ss = Some qs \<longleftrightarrow> ss = [] \<and> qs = []"
  by (cases ss) auto

lemma match_Lit: "match_path (Lit p # ps) ss = Some qs \<longleftrightarrow>
   (\<exists>ts. ss = p # ts \<and> match_path ps ts = Some qs)"
  by (cases ss) auto

lemma match_Wild: "match_path (Wild # ps) ss = Some qs \<longleftrightarrow>
   (\<exists>t ts rs. ss = t # ts \<and> t \<noteq> [] \<and> match_path ps ts = Some rs \<and> qs = t # rs)"
  by (cases ss) auto

lemmas match_simps = match_Nil match_Lit match_Wild v1_def

lemma serve_cases:
  obtains (Unrouted) status where "serve A r = write_json_body status NoBody" "status \<in> {404, 405}"
  | (Routed) m ps h qs where "(m, ps, h) \<in> set (routes A)" "match_path ps (hr_path r) = Some qs"
      "serves m (hr_method r)" "serve A r = h r qs"
proof (cases "List.find (\<lambda>(m, ps, h). serves m (hr_method r))
    (filter (\<lambda>(m, ps, h). match_path ps (hr_path r) \<noteq> None) (routes A))")
  case None
  show thesis by (rule Unrouted [of "if filter (\<lambda>(m, ps, h). match_path ps (hr_path r) \<noteq> None) (routes A) = []
      then 404 else 405"]) (use None in \<open>simp_all add: serve_def Let_def\<close>)
next
  case (Some route)
  obtain m ps h where route: "route = (m, ps, h)" by (cases route)
  with find_SomeD [OF Some] obtain qs where "(m, ps, h) \<in> set (routes A)" "serves m (hr_method r)"
    "match_path ps (hr_path r) = Some qs" by auto
  then show thesis using Some route by (intro Routed) (simp_all add: serve_def Let_def)
qed

lemma routes_guarded:
  assumes "(m, ps, h) \<in> set (routes A)" "match_path ps (hr_path r) = Some qs"
    "hr_path r \<notin> set open_paths"
  obtains k where "h r qs = require_user A r k"
  using assms by (auto simp: routes_def open_paths_def match_simps)

text \<open>
  C23. Without authentication nothing happens: a request outside the open routes whose bearer token
  does not authenticate a user, at whatever time it is checked, is answered with 401 (or 404, 405
  when there is no such route); nothing is read or written, and no worker is asked for anything.
\<close>

theorem unauthenticated_refused:
  assumes "\<forall>e. \<exists>m. authenticated_user A r e = Inl m" "hr_path r \<notin> set open_paths"
  shows "\<exists>status body. run_program (serve A r) es rs n s = (\<lparr>rs_status = status, rs_body = body\<rparr>, [], s) \<and>
    status \<in> {401, 404, 405}"
proof (cases A r rule: serve_cases)
  case (Routed m ps h qs)
  then obtain k where "serve A r = require_user A r k" by (metis routes_guarded assms(2))
  moreover from assms(1) obtain m where "authenticated_user A r (es n) = Inl m" by blast
  ultimately show ?thesis by (simp add: require_user_def)
qed auto

definition sample_api :: "(string, string) api" where
  "sample_api = \<lparr>api_store = postgres_store id, api_dev_auth = True, api_auth = None, api_messages = True,
     api_realtime = True, api_collate = id, api_parse_time = (\<lambda>_. Some minute)\<rparr>"

definition sample_site :: "string site" where
  "sample_site = \<lparr>st_db = sample_chat, st_logins = [], st_refresh_tokens = []\<rparr>"

definition sample_request :: "string \<Rightarrow> string list \<Rightarrow> string \<Rightarrow> json \<Rightarrow> http_request" where
  "sample_request method path authorization body = \<lparr>hr_method = method, hr_path = path,
     hr_query = (\<lambda>_. []), hr_authorization = authorization, hr_body = Inr body\<rparr>"

lemmas sample_server_defs = sample_api_def sample_site_def sample_request_def

theorem unauthenticated_refused_witness:
  "\<exists>status body. run_program (serve sample_api (sample_request ''DELETE'' [''v1'', ''accounts'', ''acc-1''] [] JNull))
     (\<lambda>_. sample_env 0) (\<lambda>_. Inr None) 0 sample_site = (\<lparr>rs_status = status, rs_body = body\<rparr>, [], sample_site)"
  using unauthenticated_refused [of sample_api
      "sample_request ''DELETE'' [''v1'', ''accounts'', ''acc-1''] [] JNull"
      "\<lambda>_. sample_env 0" "\<lambda>_. Inr None" 0 sample_site]
  by (auto simp: sample_server_defs authenticated_user_def has_prefix_def open_paths_def)

definition not_owner :: "string \<Rightarrow> string \<Rightarrow> 'h db \<Rightarrow> bool" where
  "not_owner user account_id db \<longleftrightarrow> (\<forall>a \<in> set (db_accounts db). a_id a = account_id \<longrightarrow> a_user_id a \<noteq> user)"

lemma not_owner_hidden:
  assumes "not_owner user i db" "healthy e"
  shows "pg_get e user i db = Inl ErrNotFound" "pg_delete e user i db = (Inl ErrNotFound, db)"
proof -
  have none: "List.find (\<lambda>r. a_id r = i \<and> a_user_id r = user) (db_accounts db) = None"
    "filter (\<lambda>r. a_id r = i \<and> a_user_id r = user) (db_accounts db) = []"
    using assms(1) by (auto simp: not_owner_def find_None_iff filter_empty_conv)
  show "pg_get e user i db = Inl ErrNotFound" using assms(2) none by (simp add: pg_get_def)
  show "pg_delete e user i db = (Inl ErrNotFound, db)"
    using assms(2) none by (simp add: pg_delete_def in_tx_def)
qed

text \<open>What a handler answers about something that is not the user's.\<close>

definition refused :: "response \<times> 'a list \<times> 's \<Rightarrow> 's \<Rightarrow> bool" where
  "refused result s \<longleftrightarrow> (\<exists>status body. result = (\<lparr>rs_status = status, rs_body = body\<rparr>, [], s) \<and>
     status \<in> {400, 404, 405, 503})"

lemma refused_write [simp]:
  "status \<in> {400, 404, 405, 503} \<Longrightarrow> refused (\<lparr>rs_status = status, rs_body = body\<rparr>, [], s) s"
  by (auto simp: refused_def)

lemma errors_is_refl [simp]: "errors_is e e"
  by (cases e) simp_all

lemma not_owner_account:
  assumes "not_owner user i (st_db s)" "\<forall>k. healthy (es k)" "api_store A = postgres_store sha"
  shows "refused (run_program (get_account_handler A user i) es rs n s) s"
    "refused (run_program (link_account_handler A user i r) es rs n s) s"
    "refused (run_program (delete_account_handler A user i) es rs n s) s"
  using assms
  by (simp_all add: get_account_handler_def link_account_handler_def delete_account_handler_def
      with_account_def postgres_store_def not_owner_hidden on_db_def)

lemma not_owner_conversation:
  assumes "owned_conversation user c (st_db s) = None" "\<forall>k. healthy (es k)"
  shows "refused (run_program (list_messages_handler A user c r) es rs n s) s"
    "refused (run_program (send_message_handler A user c r) es rs n s) s"
proof -
  have "get_conversation_target (es k) user c (st_db s) = Inl ErrNotFound"
    "prepare_send (es k) user c body key (st_db s) = (Inl ErrNotFound, st_db s)" for k body key
    using assms by (simp_all add: get_conversation_target_def prepare_send_def in_tx_def prepare_tx_def)
  then show "refused (run_program (list_messages_handler A user c r) es rs n s) s"
    "refused (run_program (send_message_handler A user c r) es rs n s) s"
    by (auto simp: list_messages_handler_def send_message_handler_def messages_not_configured_def
        with_body_def Let_def on_db_def send_prepared_def split: sum.split)
qed

lemma route_conversation:
  assumes "(m, ps, h) \<in> set (routes A)"
    "match_path ps [''v1'', ''conversations'', c, ''messages''] = Some qs"
  shows "h r qs = require_user A r (\<lambda>u. list_messages_handler A u c r) \<or>
    h r qs = require_user A r (\<lambda>u. send_message_handler A u c r)"
proof -
  have "\<forall>(m, ps, h) \<in> set (routes A). match_path ps [''v1'', ''conversations'', c, ''messages''] = Some qs \<longrightarrow>
    h r qs = require_user A r (\<lambda>u. list_messages_handler A u c r) \<or>
    h r qs = require_user A r (\<lambda>u. send_message_handler A u c r)"
    by (simp add: routes_def v1_def) auto
  with assms show ?thesis by fast
qed

lemma route_account:
  assumes "(m, ps, h) \<in> set (routes A)" "match_path ps path = Some qs"
    "path \<in> {[''v1'', ''accounts'', a], [''v1'', ''accounts'', a, ''link'']}"
  shows "h r qs = require_user A r (\<lambda>u. get_account_handler A u a) \<or>
    h r qs = require_user A r (\<lambda>u. delete_account_handler A u a) \<or>
    h r qs = require_user A r (\<lambda>u. link_account_handler A u a r)"
proof -
  have "\<forall>(m, ps, h) \<in> set (routes A). match_path ps path = Some qs \<longrightarrow>
    h r qs = require_user A r (\<lambda>u. get_account_handler A u a) \<or>
    h r qs = require_user A r (\<lambda>u. delete_account_handler A u a) \<or>
    h r qs = require_user A r (\<lambda>u. link_account_handler A u a r)"
    using assms(3) by (elim insertE emptyE) (simp_all add: routes_def v1_def, auto)
  with assms(1,2) show ?thesis by fast
qed



subsection \<open>Worked example: two requests with one key\<close>

definition sample_send :: "string \<Rightarrow> http_request" where
  "sample_send body = sample_request ''POST'' [''v1'', ''conversations'', ''con-1'', ''messages'']
     ''Bearer dev:alice'' (JObj [(''body'', JStr body), (''idempotency_key'', JStr ''0123456789abcdef'')])"

lemma serve_sample_send:
  "serve sample_api (sample_send body) = require_user sample_api (sample_send body)
     (\<lambda>u. send_message_handler sample_api u ''con-1'' (sample_send body))"
proof -
  have "hr_path (sample_send body) = [''v1'', ''conversations'', ''con-1'', ''messages'']"
    "hr_method (sample_send body) = ''POST''"
    by (simp_all add: sample_send_def sample_request_def)
  then show ?thesis by (simp add: serve_def Let_def routes_def v1_def serves_def)
qed

lemma authenticated_sample_send: "authenticated_user sample_api (sample_send body) e = Inr ''alice''"
proof -
  have "trim_space ''dev:alice'' = ''dev:alice''" "trim_space ''alice'' = ''alice''"
    by (rule trim_space_ascii; simp)+
  moreover have "hr_authorization (sample_send body) = ''Bearer dev:alice''"
    by (simp add: sample_send_def sample_request_def)
  ultimately show ?thesis
    by (simp add: authenticated_user_def sample_api_def trim_prefix_def has_prefix_def)
qed

lemma sample_prepare_key:
  "\<exists>p db1. prepare_send (sample_env minute) ''alice'' ''con-1'' ''hello'' ''0123456789abcdef'' sample_chat =
     (Inr p, db1) \<and> prep_created p \<and> prep_account_id p = ''acc-1'' \<and>
     fst (mark_command_dispatched (sample_env minute) (prep_command_id p) db1) = Inr True"
  by (simp add: prepare_send_def in_tx_def prepare_tx_def owned_conversation_def sample_db_simps
      insert_new_command_def send_command_row_def command_statuses_def insert_command_def
      prepare_message_def insert_message_def pending_message_row_def message_check_def
      pending_message_def mark_command_dispatched_eq dispatchable_def link_message_def
      command_lifetime_def minute_def second_def pg_time_def update_where_def)

lemma sample_send_handler:
  "send_message_handler sample_api u ''con-1'' (sample_send ''hello'') =
   call (on_db (\<lambda>e. prepare_send e u ''con-1'' ''hello'' ''0123456789abcdef''))
     (send_prepared sample_api u ''hello'' ''0123456789abcdef'')"
proof -
  have "trim_space ''hello'' = ''hello''" by (rule trim_space_ascii) simp_all
  moreover have "decode_body [''body'', ''idempotency_key''] (sample_send ''hello'') =
      Inr [''hello'', ''0123456789abcdef'']"
    by (simp add: decode_body_def sample_send_def sample_request_def fold_key_simps)
  ultimately show ?thesis by (simp add: send_message_handler_def with_body_def sample_api_def Let_def)
qed

definition sample_events :: "sv_event list" where
  "sample_events = [Arrive 0 (sample_send ''hello''), Arrive 1 (sample_send ''hello''),
     Advance 0 (sample_env minute), Advance 1 (sample_env minute), Advance 0 (sample_env minute),
     Advance 0 (sample_env minute), Hand 0]"

lemma sample_run:
  "\<exists>v j. sv_run sample_api id sample_events (new_server sample_site) = Some v \<and>
     sv_asked v = [(''acc-1'', TypeSend, j)] \<and> send_key (''acc-1'', TypeSend, j) = Some (''acc-1'', ''0123456789abcdef'')"
proof -
  obtain p db1 where p: "prepare_send (sample_env minute) ''alice'' ''con-1'' ''hello'' ''0123456789abcdef''
      sample_chat = (Inr p, db1)" "prep_created p" "prep_account_id p = ''acc-1''"
      "fst (mark_command_dispatched (sample_env minute) (prep_command_id p) db1) = Inr True"
    using sample_prepare_key by blast
  have "st_db sample_site = sample_chat" by (simp add: sample_site_def)
  with p show ?thesis
    by (simp add: sample_events_def new_server_def serve_sample_send require_user_def query_def
        authenticated_sample_send sample_send_handler call_def on_db_snd on_db_fst send_prepared_def
        send_marked_def decode_encode_send_command)
qed

theorem message_handed_once_witness:
  "\<exists>v. sv_run sample_api id sample_events (new_server sample_site) = Some v \<and> sv_asked v \<noteq> [] \<and>
     length (filter (\<lambda>x. send_key x = Some (''acc-1'', ''0123456789abcdef'')) (sv_asked v)) \<le> 1"
proof -
  obtain v j where v: "sv_run sample_api id sample_events (new_server sample_site) = Some v"
    "sv_asked v = [(''acc-1'', TypeSend, j)]" using sample_run by blast
  have "pg_ok (st_db sample_site)" by (simp add: sample_site_def sample_chat_ok)
  moreover have "api_store sample_api = postgres_store id" by (simp add: sample_api_def)
  ultimately show ?thesis
    using message_handed_once [OF v(1)] v by (auto simp: sample_events_def sample_send_def sample_request_def)
qed

subsection \<open>A send on its own\<close>



text \<open>
  A retry may send another text than the one that is stored: while the first request has not dispatched
  its command, a second request with the same key and another body is let through, and it is the
  second body the worker is asked to send, under the message that holds the first.
\<close>

theorem retry_sends_other_text:
  assumes "pg_ok (st_db s)" "prepare_send e user c body key (st_db s) = (Inr p, db1)"
    "prep_created p" "healthy e'"
    "fst (mark_command_dispatched e'' (prep_command_id p) db1) = Inr True"
  shows "\<exists>p'. prepare_send e' user c body' key db1 = (Inr p', db1) \<and>
    msg_body (prep_message p') = msg_body (prep_message p) \<and>
    send_prepared A user body' key (Inr p') = dispatch_call A user body' key p' \<and>
    send_marked A user body' key p' (fst (mark_command_dispatched e'' (prep_command_id p') db1)) =
      Ask (prep_account_id p') TypeSend (encode_send_command
        \<lparr>sc_conversation_id = prep_conversation p', sc_body = body', sc_idempotency_key = key\<rparr>)
        (send_answered A user p')"
proof -
  from prepare_send_again [OF pg_ok_schema [OF assms(1)] assms(2,4), of body'] obtain p' where
    p': "prepare_send e' user c body' key db1 = (Inr p', db1)" "prep_command_id p' = prep_command_id p"
      "msg_body (prep_message p') = msg_body (prep_message p)" "prep_created p'"
    using assms(3) by blast
  then show ?thesis using assms(5) by (simp add: send_prepared_def dispatch_call_def send_marked_def)
qed

end
