(* ===== verification/SayApi.thy ===== *)
theory SayApi
  imports Server Realtime Retention
begin

section \<open>The API program\<close>

text \<open>
  \<^verbatim>\<open>cmd/say-api/main.go\<close>: the checks at startup, the handler of the workers' events, which joins the
  gateway to the message store and the realtime hub, and the loop that relays the outbox to the
  realtime hub. Shown: an acknowledged message event is stored, and stays stored; an outbox event is
  marked as delivered only after it has been published to its user.
\<close>

subsection \<open>Startup\<close>

definition env_or :: "string \<Rightarrow> string \<Rightarrow> string" where
  "env_or value fallback = (if value \<noteq> [] then value else fallback)"

text \<open>\<open>strconv.ParseBool\<close>.\<close>

definition env_bool :: "string \<Rightarrow> bool" where
  "env_bool value \<longleftrightarrow> value \<in> set [''1'', ''t'', ''T'', ''TRUE'', ''true'', ''True'']"

text \<open>\<open>strconv.Atoi\<close>: an optional sign and decimal digits, within 64 bits.\<close>

fun digits_value :: "int \<Rightarrow> string \<Rightarrow> int option" where
  "digits_value n [] = Some n"
| "digits_value n (c # cs) =
     (if of_char c \<in> {48..57 :: int} then digits_value (10 * n + (of_char c - 48)) cs else None)"

definition atoi :: "string \<Rightarrow> int option" where
  "atoi s =
     (let (negative, ds) = (case s of [] \<Rightarrow> (False, [])
        | c # cs \<Rightarrow> if c = CHR 0x2D then (True, cs) else if c = CHR 0x2B then (False, cs) else (False, c # cs)) in
      if ds = [] then None
      else case digits_value 0 ds of
        None \<Rightarrow> None
      | Some n \<Rightarrow> let v = (if negative then - n else n) in
          if - (2 ^ 63) \<le> v \<and> v < 2 ^ 63 then Some v else None)"

definition env_int :: "string \<Rightarrow> int \<Rightarrow> int" where
  "env_int value fallback =
     (case atoi value of None \<Rightarrow> fallback | Some v \<Rightarrow> if v \<le> 0 then fallback else v)"

text \<open>
  The configuration errors \<open>main\<close> itself exits with, over the environment variables (the empty
  string when not set); the constructors it calls have checks of their own.
\<close>

definition startup_refused :: "(string \<Rightarrow> string) \<Rightarrow> bool" where
  "startup_refused getenv \<longleftrightarrow>
     (let environment = env_or (getenv ''SAY_ENV'') ''development'';
          webhook = getenv ''SAY_AUTH_WEBHOOK_URL'' in
      environment = ''production'' \<and>
        (env_bool (getenv ''SAY_DEV_AUTH'') \<or> env_bool (getenv ''SAY_AUTH_DEBUG_RETURN_CODE'')) \<or>
      getenv ''SAY_DATABASE_URL'' = [] \<or>
      webhook \<noteq> [] \<and> environment = ''production'' \<and> \<not> has_prefix webhook ''https://'' \<or>
      webhook \<noteq> [] \<and> getenv ''SAY_AUTH_EMAIL_FROM'' = [] \<or>
      getenv ''SAY_JWT_SIGNING_KEY'' = [] \<or> getenv ''SAY_LOGIN_HASH_KEY'' = [])"

subsection \<open>Events of the workers\<close>

text \<open>The account store, over a state that has more parts than the database.\<close>

definition beside :: "('s \<Rightarrow> 'r \<times> 's) \<Rightarrow> 's \<times> 'x \<Rightarrow> 'r \<times> 's \<times> 'x" where
  "beside f s = (case f (fst s) of (r, s') \<Rightarrow> (r, s', snd s))"

definition store_beside :: "'s account_store \<Rightarrow> ('s \<times> 'x) account_store" where
  "store_beside S = \<lparr>store_create = (\<lambda>e u p n. beside (store_create S e u p n)),
     store_list = (\<lambda>e u s. store_list S e u (fst s)), store_get = (\<lambda>e u a s. store_get S e u a (fst s)),
     store_delete = (\<lambda>e u a. beside (store_delete S e u a)),
     store_auth = (\<lambda>e t p. beside (store_auth S e t p)),
     store_set_status = (\<lambda>e a g st. beside (store_set_status S e a g st)),
     store_set_identity = (\<lambda>e a g st x. beside (store_set_identity S e a g st x)),
     store_touch = (\<lambda>e a g. beside (store_touch S e a g))\<rparr>"

text \<open>The event handler \<open>main\<close> gives to \<open>gateway.NewHub\<close>, over the database and the realtime hub.\<close>

definition worker_event :: "(string \<Rightarrow> time option) \<Rightarrow> ('h db \<times> rt_hub) event_handler" where
  "worker_event parse_time e account envelope s =
     (if env_type envelope = TypeMessageNew then
        (case decode_payload (decode_wire_message parse_time empty_wire_message) envelope of
           Inl err \<Rightarrow> (Inl err, s)
         | Inr m \<Rightarrow>
             (case IngestMessage e account m (fst s) of
                (Inl err, db) \<Rightarrow> (Inl err, db, snd s)
              | (Inr _, db) \<Rightarrow> (Inr (), db, snd s)))
      else if env_type envelope = TypeAccountStatus then
        (case decode_payload decode_account_status envelope of
           Inl err \<Rightarrow> (Inl err, s)
         | Inr status \<Rightarrow>
             (case publish (acc_user_id account) TypeAccountStatus
                     (Inr (JObj (enc ''account_id'' (acc_id account) @
                        enc ''external_id'' (as_external_id status) @ enc ''state'' (as_state status)))) (snd s) of
                (r, h) \<Rightarrow> (r, fst s, h)))
      else (Inl (NewError ''unsupported worker event type''), s))"

subsection \<open>Relaying the outbox\<close>

text \<open>
  \<open>runOutbox\<close> and \<open>drainOutbox\<close>, one call at a time, next to everything else that happens to the
  database and the hub: \<open>Poll\<close> reads a batch, \<open>Relay\<close> publishes its next event, \<open>Confirm\<close> marks the
  event just published; any error ends the batch. \<open>rl_log\<close> are the events published. \<open>rl_payload\<close>
  gives the JSON value in which \<open>jsonb\<close> returns a stored event.
\<close>

record 'h relay =
  rl_db :: "'h db"
  rl_hub :: rt_hub
  rl_batch :: "outbox_row list"
  rl_current :: "outbox_row option"
  rl_log :: "outbox_row list"

datatype relay_event =
    Poll env
  | Relay
  | Confirm env
  | Store env db_call
  | Client rt_event

fun relay_step ::
  "(message \<Rightarrow> json) \<Rightarrow> (string \<Rightarrow> 'h) \<Rightarrow> (string \<Rightarrow> 'k::linorder) \<Rightarrow> relay_event \<Rightarrow> 'h relay \<Rightarrow> 'h relay option"
where
  "relay_step payload sha collate (Poll e) s =
     (if rl_current s \<noteq> None \<or> rl_batch s \<noteq> [] then None
      else case pending_outbox e 100 (rl_db s) of
        Inl err \<Rightarrow> Some s
      | Inr rows \<Rightarrow> Some (s\<lparr>rl_batch := rows\<rparr>))"
| "relay_step payload sha collate Relay s =
     (case (rl_current s, rl_batch s) of
        (None, r # rows) \<Rightarrow>
          (case publish (o_user_id r) (o_event_type r) (Inr (payload (o_payload r))) (rl_hub s) of
             (Inl err, h) \<Rightarrow> Some (s\<lparr>rl_hub := h, rl_batch := []\<rparr>)
           | (Inr _, h) \<Rightarrow> Some (s\<lparr>rl_hub := h, rl_batch := rows, rl_current := Some r, rl_log := rl_log s @ [r]\<rparr>))
      | _ \<Rightarrow> None)"
| "relay_step payload sha collate (Confirm e) s =
     (case rl_current s of
        None \<Rightarrow> None
      | Some r \<Rightarrow>
          (case mark_outbox_delivered e (o_id r) (rl_db s) of
             (Inl err, db) \<Rightarrow> Some (s\<lparr>rl_db := db, rl_batch := [], rl_current := None\<rparr>)
           | (Inr _, db) \<Rightarrow> Some (s\<lparr>rl_db := db, rl_current := None\<rparr>)))"
| "relay_step payload sha collate (Store e c) s =
     (if \<exists>i. c = Delivered i then None
      else Some (s\<lparr>rl_db := run_db sha collate e c (rl_db s)\<rparr>))"
| "relay_step payload sha collate (Client ev) s =
     map_option (\<lambda>h. s\<lparr>rl_hub := h\<rparr>) (rt_step ev (rl_hub s))"

fun relay_run ::
  "(message \<Rightarrow> json) \<Rightarrow> (string \<Rightarrow> 'h) \<Rightarrow> (string \<Rightarrow> 'k::linorder) \<Rightarrow> relay_event list \<Rightarrow> 'h relay \<Rightarrow> 'h relay option"
where
  "relay_run payload sha collate [] s = Some s"
| "relay_run payload sha collate (e # es) s =
     (case relay_step payload sha collate e s of
        None \<Rightarrow> None
      | Some s' \<Rightarrow> relay_run payload sha collate es s')"

definition new_relay :: "'h db \<Rightarrow> rt_hub \<Rightarrow> 'h relay" where
  "new_relay db h = \<lparr>rl_db = db, rl_hub = h, rl_batch = [], rl_current = None, rl_log = []\<rparr>"

subsection \<open>An acknowledged message is stored\<close>

lemma worker_event_message:
  assumes "worker_event parse_time e account v s = (Inr (), s')" "env_type v = TypeMessageNew"
  obtains m r new where "decode_payload (decode_wire_message parse_time empty_wire_message) v = Inr m"
    "ingest_message e account m True (fst s) = (Inr (r, new), fst s')" "snd s' = snd s"
  using assms by (auto simp: worker_event_def IngestMessage_def split: sum.splits prod.splits)

lemma acked_stored:
  assumes "handle_frame S (Some (worker_event parse_time)) e e' ok v c s = (c', s')"
    and "cn_written c' \<noteq> cn_written c" "env_type v = TypeMessageNew"
  shows "\<exists>m. decode_payload (decode_wire_message parse_time empty_wire_message) v = Inr m \<and>
    Ingest.stored (cn_account_id c) (wm_conversation_id m) (wm_provider_message_id m) (fst s')"
proof -
  let ?v = "v\<lparr>env_generation := cn_generation c\<rparr>"
  from acked_handled [OF assms(1,2)] obtain t where
    handled: "worker_event parse_time e' (wa_account (cn_auth c)) ?v t = (Inr (), s')" by auto
  from handled assms(3) obtain m r new where
    m: "decode_payload (decode_wire_message parse_time empty_wire_message) ?v = Inr m"
      "ingest_message e' (wa_account (cn_auth c)) m True (fst t) = (Inr (r, new), fst s')"
    by (auto elim: worker_event_message)
  have "Ingest.stored (cn_account_id c) (wm_conversation_id m) (wm_provider_message_id m) (fst s')"
    using ingest_stored [OF m(2)] by (auto simp: Ingest.stored_def cn_account_id_def)
  moreover have "decode_payload d ?v = decode_payload d v" for d :: "json \<Rightarrow> wire_message option"
    by (auto simp: decode_payload_def split: option.splits)
  ultimately show ?thesis using m(1) by auto
qed


definition sample_delivery :: envelope where
  "sample_delivery = empty_envelope\<lparr>env_version := Version, env_id := ''e1'', env_type := TypeMessageNew,
     env_payload := Some (JObj [(''provider_message_id'', JStr ''1720000000001''),
       (''conversation_id'', JStr ''+47''), (''author_id'', JStr ''+47''), (''author_name'', JStr ''Bob''),
       (''body'', JStr ''hi''), (''sent_at'', JStr ''2024''), (''direction'', JStr ''incoming'')])\<rparr>"

lemma decode_sample_delivery:
  "decode_payload (decode_wire_message (\<lambda>_. Some minute) empty_wire_message)
     (sample_delivery\<lparr>env_generation := n\<rparr>) = Inr sample_message"
  by (simp add: decode_payload_def sample_delivery_def empty_envelope_def empty_wire_message_def
      sample_message_def fold_key_simps)


subsection \<open>The outbox along runs\<close>

text \<open>
  A call that is not the confirmation of an event only adds undelivered events, under new numbers,
  or removes events.
\<close>

definition outbox_step :: "'h db \<Rightarrow> 'h db \<Rightarrow> bool" where
  "outbox_step db db' \<longleftrightarrow> db_next_outbox db \<le> db_next_outbox db' \<and>
     (\<forall>r \<in> set (db_outbox db'). r \<in> set (db_outbox db) \<or>
        o_delivered_at r = None \<and> db_next_outbox db \<le> o_id r)"

lemma outbox_step_same:
  "db_outbox db' = db_outbox db \<Longrightarrow> db_next_outbox db' = db_next_outbox db \<Longrightarrow> outbox_step db db'"
  by (simp add: outbox_step_def)

lemma outbox_step_refl [simp]: "outbox_step db db"
  by (simp add: outbox_step_same)

lemma outbox_step_trans: "outbox_step db db1 \<Longrightarrow> outbox_step db1 db2 \<Longrightarrow> outbox_step db db2"
  by (fastforce simp: outbox_step_def)

lemma outbox_step_insert: "insert_outbox_row u t m db = Some db' \<Longrightarrow> outbox_step db db'"
  by (auto simp: insert_outbox_row_def outbox_step_def split: if_splits)

lemma delete_messages_outbox [simp]:
  "db_outbox (delete_messages P db) = db_outbox db"
  "db_next_outbox (delete_messages P db) = db_next_outbox db"
  by (simp_all add: delete_messages_def Let_def)

lemma upsert_conversation_outbox:
  "upsert_conversation r f db = Some (c, db') \<Longrightarrow>
   db_outbox db' = db_outbox db \<and> db_next_outbox db' = db_next_outbox db"
  by (auto simp: upsert_conversation_def insert_conversation_def split: option.splits if_splits)

lemma ingest_outbox: "outbox_step db (snd (ingest_message e a m alive db))"
proof -
  have "outbox_step db db'" if "ingest_tx e a m alive db = Inr (v, db')" for v db'
  proof -
    obtain r new where "v = (r, new)" by (cases v)
    with that have "ingest_tx e a m alive db = Inr ((r, new), db')" by simp
    then show ?thesis
    proof (cases rule: ingest_tx_cases)
      case (Duplicate i title kind conversation db1 x)
      then show ?thesis using upsert_conversation_outbox [OF Duplicate(1)] by (simp add: outbox_step_same)
    next
      case (New i j title kind conversation db1 db2)
      have "outbox_step db db1"
        using upsert_conversation_outbox [OF New(1)] by (simp add: outbox_step_same)
      moreover have "outbox_step db1 db2"
        using New(3) by (auto simp: insert_message_def outbox_step_same split: if_splits)
      moreover have "outbox_step db2 db'"
        using New(7)
      proof (cases rule: ingest_live_cases)
        case (Loud db3)
        have "outbox_step db2 db3"
          using Loud(2) by (auto simp: increment_unread_def outbox_step_same split: if_splits)
        with outbox_step_insert [OF Loud(4)] show ?thesis by (blast intro: outbox_step_trans)
      qed simp
      ultimately show ?thesis by (blast intro: outbox_step_trans)
    qed
  qed
  then show ?thesis
    by (auto simp: ingest_message_def intro: in_tx_snd [where P = "outbox_step db"])
qed

lemma upsert_loop_outbox:
  "upsert_loop e a cs n db = Inr (k, db') \<Longrightarrow>
   db_outbox db' = db_outbox db \<and> db_next_outbox db' = db_next_outbox db"
proof (induction e a cs n db rule: upsert_loop.induct)
  case (2 e a c cs n db)
  show ?case
  proof (cases "wc_provider_id c = []")
    case False
    with "2.prems" obtain i v db1 where *:
      "upsert_conversation
          \<lparr>c_id = i, c_account_id = a, c_provider_id = wc_provider_id c,
           c_title = wc_title c, c_kind = wc_kind c, c_unread_count = 0,
           c_last_message_at = None, c_updated_at = db_now e\<rparr>
          (\<lambda>r. r\<lparr>c_title := wc_title c, c_kind := wc_kind c, c_updated_at := db_now e\<rparr>) db =
        Some (v, db1)" "upsert_loop e a cs (n + 1) db1 = Inr (k, db')"
      by (auto simp: attempt_eq_Inr stmt_eq_Inr)
    from "2.IH"(2) [OF False] *(2) upsert_conversation_outbox [OF *(1)] show ?thesis by simp
  qed (use 2 in simp)
qed simp

lemma sync_outbox: "outbox_step db (snd (upsert_conversations e u a cs db))"
  unfolding upsert_conversations_def
  by (rule in_tx_snd) (auto simp: attempt_eq_Inr stmt_eq_Inr outbox_step_same dest: upsert_loop_outbox)

lemma prepare_outbox: "outbox_step db (snd (prepare_send e u c body key db))"
  unfolding prepare_send_snd
proof (rule in_tx_snd)
  fix v db'
  assume "prepare_tx e u c body key db = Inr (v, db')"
  then show "outbox_step db db'"
  proof (cases rule: prepare_tx_cases)
    case (Prepared cr a j m db1 db2)
    have "outbox_step db db1" "outbox_step db1 db2" "outbox_step db2 db'"
      using Prepared(4-6)
      by (auto simp: insert_command_def insert_message_def outbox_step_same split: if_splits)
    then show ?thesis by (blast intro: outbox_step_trans)
  qed simp
qed simp

lemma update_message_outbox:
  "update_message i f db = Some (r, db') \<Longrightarrow>
   db_outbox db' = db_outbox db \<and> db_next_outbox db' = db_next_outbox db"
  by (auto simp: update_message_def Let_def split: option.splits if_splits)

lemma complete_outbox: "outbox_step db (snd (complete_send e u i p t db))"
  unfolding complete_send_def
proof (rule in_tx_snd)
  fix v db'
  assume "complete_tx e u i p t db = Inr (v, db')"
  then show "outbox_step db db'"
  proof (cases rule: complete_tx_cases)
    case (1 k m r db1 db2)
    have "outbox_step db db1" by (simp add: 1(4) reconcile_def outbox_step_same)
    moreover have "outbox_step db1 db2"
      using update_message_outbox [OF 1(5)] by (simp add: outbox_step_same)
    moreover have "outbox_step db2 db'"
      using outbox_step_insert [OF 1(8)] by (simp add: outbox_step_def set_command_result_def)
    ultimately show ?thesis by (blast intro: outbox_step_trans)
  qed
qed simp

lemma fail_outbox: "outbox_step db (snd (fail_send e u i code db))"
  unfolding fail_send_def
proof (rule in_tx_snd)
  fix v db'
  assume "fail_tx e u i code db = Inr (v, db')"
  then show "outbox_step db db'"
  proof (cases rule: fail_tx_cases)
    case (1 k j r db2)
    have "outbox_step db db2"
      using update_message_outbox [OF 1(3)] by (simp add: outbox_step_same set_command_result_def)
    with outbox_step_insert [OF 1(6)] show ?thesis by (blast intro: outbox_step_trans)
  qed
qed simp

lemma prune_outbox: "outbox_step db (snd (prune collate e r k db))"
proof (cases rule: prune_cases [where collate = collate and e = e and retention = r and
      keep = k and db = db])
  case (Done db1)
  then show ?thesis by (auto simp: outbox_step_def)
qed (simp_all add: outbox_step_same)

lemma account_call_outbox: "outbox_step db (run_call (postgres_store sha) e c db)"
proof (cases "\<exists>u a. c = Delete u a")
  case True
  then obtain u a where "c = Delete u a" by blast
  then show ?thesis
    by (auto simp: postgres_store_def pg_delete_def Let_def attempt_dests outbox_step_same delete_accounts_def
        delete_conversations_def intro!: in_tx_snd [where P = "outbox_step db"])
next
  case False
  then show ?thesis
    using account_call_other [of c db sha e] by (auto simp: same_traffic_def outbox_step_same)
qed

lemma run_outbox:
  assumes "\<And>i. c \<noteq> Delivered i"
  shows "outbox_step db (run_db sha collate e c db)"
proof (cases c)
  case MarkOffline
  then show ?thesis
    by (cases "db_fault e 0") (simp_all add: mark_workers_offline_def in_tx_def stmt_def outbox_step_same)
next
  case (Dispatch i)
  then show ?thesis by (simp add: mark_command_dispatched_eq outbox_step_same split: option.split)
qed (use assms in \<open>simp_all add: account_call_outbox ingest_outbox sync_outbox prepare_outbox
      complete_outbox fail_outbox prune_outbox\<close>)

subsection \<open>Confirmed means published\<close>

text \<open>What identifies an event of the outbox, and what is published of it.\<close>

definition event_of :: "outbox_row \<Rightarrow> int \<times> string \<times> string \<times> message" where
  "event_of r = (o_id r, o_user_id r, o_event_type r, o_payload r)"

text \<open>\<open>known db r\<close>: if the event of \<open>r\<close> is still in the outbox, it is unchanged.\<close>

definition known :: "'h db \<Rightarrow> outbox_row \<Rightarrow> bool" where
  "known db r \<longleftrightarrow> o_id r < db_next_outbox db \<and>
     (\<forall>x \<in> set (db_outbox db). o_id x = o_id r \<longrightarrow> event_of x = event_of r)"

definition envelope_of :: "(message \<Rightarrow> json) \<Rightarrow> outbox_row \<Rightarrow> envelope" where
  "envelope_of payload r = empty_envelope\<lparr>env_version := Version, env_type := o_event_type r,
     env_payload := Some (payload (o_payload r))\<rparr>"

text \<open>
  The invariant, from a realtime hub \<open>h\<close> and with the events \<open>earlier\<close> confirmed before; \<open>evs\<close> is
  what has happened to the realtime hub.
\<close>

definition relay_inv ::
  "(message \<Rightarrow> json) \<Rightarrow> rt_hub \<Rightarrow> (int \<times> string \<times> string \<times> message) set \<Rightarrow> rt_event list \<Rightarrow> 'h relay \<Rightarrow> bool"
where
  "relay_inv payload h earlier evs s \<longleftrightarrow> pg_ok (rl_db s) \<and>
     (\<forall>r \<in> set (rl_batch s). known (rl_db s) r) \<and>
     (\<forall>r \<in> set_option (rl_current s). known (rl_db s) r \<and> r \<in> set (rl_log s)) \<and>
     (\<forall>r \<in> set (db_outbox (rl_db s)). o_delivered_at r \<noteq> None \<longrightarrow>
        event_of r \<in> earlier \<union> event_of ` set (rl_log s)) \<and>
     rt_run evs h = Some (rl_hub s) \<and>
     (\<forall>r \<in> set (rl_log s). envelope_of payload r \<in> set (published (o_user_id r) evs))"

lemma known_step: "known db r \<Longrightarrow> outbox_step db db' \<Longrightarrow> known db' r"
  by (fastforce simp: known_def outbox_step_def)

lemma outbox_id_unique:
  assumes "pg_ok db" "r \<in> set (db_outbox db)" "x \<in> set (db_outbox db)" "o_id r = o_id x"
  shows "r = x"
proof -
  have "sorted_wrt (<) (map o_id (db_outbox db))"
    using db_ok_outbox [OF pg_ok_schema [OF assms(1)]] by (simp add: outbox_ok_def)
  then have "distinct (map o_id (db_outbox db))" by (simp add: strict_sorted_iff)
  with assms(2-4) show ?thesis by (auto simp: distinct_map dest: inj_onD)
qed

lemma pending_known:
  assumes "pg_ok db" "pending_outbox e n db = Inr rows" "r \<in> set rows"
  shows "known db r"
proof -
  have r: "r \<in> set (db_outbox db)"
    using assms(2,3) by (auto simp: pending_outbox_def Let_def attempt_dests dest: in_set_takeD)
  then have "o_id r < db_next_outbox db"
    using db_ok_outbox [OF pg_ok_schema [OF assms(1)]] by (simp add: outbox_ok_def)
  with outbox_id_unique [OF assms(1) _ r] show ?thesis unfolding known_def by metis
qed

lemma mark_delivered_eq:
  "mark_outbox_delivered e i db = (case db_fault e 0 of
     Some err \<Rightarrow> (Inl (Wrapped ''mark outbox delivered'' err), db)
   | None \<Rightarrow> (Inr (), db\<lparr>db_outbox := update_where (\<lambda>r. o_id r = i \<and> o_delivered_at r = None)
       (\<lambda>r. r\<lparr>o_delivered_at := Some (db_now e)\<rparr>) (db_outbox db)\<rparr>))"
  by (simp add: mark_outbox_delivered_def in_tx_def stmt_def split: option.split)

lemma rt_run_snoc: "rt_run evs h = Some h1 \<Longrightarrow> rt_run (evs @ [ev]) h = rt_step ev h1"
  by (induction evs arbitrary: h) (auto split: option.splits)

text \<open>A step that touches neither the database nor the log.\<close>

lemma relay_inv_hub:
  assumes "relay_inv payload h earlier evs s" "rt_step ev (rl_hub s) = Some h'"
  shows "relay_inv payload h earlier (evs @ [ev]) (s\<lparr>rl_hub := h'\<rparr>)"
  using assms by (auto simp: relay_inv_def rt_run_snoc published_append)

lemma relay_inv_store:
  assumes inv: "relay_inv payload h earlier evs s" and step: "outbox_step (rl_db s) db" and ok: "pg_ok db"
  shows "relay_inv payload h earlier evs (s\<lparr>rl_db := db\<rparr>)"
proof -
  have "\<forall>r \<in> set (db_outbox db). o_delivered_at r \<noteq> None \<longrightarrow> r \<in> set (db_outbox (rl_db s))"
    using step by (auto simp: outbox_step_def)
  with inv ok known_step [OF _ step] show ?thesis by (auto simp: relay_inv_def)
qed

lemma relay_inv_confirm:
  assumes inv: "relay_inv payload h earlier evs s" and r: "rl_current s = Some r"
    and mark: "mark_outbox_delivered e (o_id r) (rl_db s) = (Inr u, db)"
  shows "relay_inv payload h earlier evs (s\<lparr>rl_db := db, rl_current := None\<rparr>)"
proof -
  have db: "db = (rl_db s)\<lparr>db_outbox := update_where (\<lambda>x. o_id x = o_id r \<and> o_delivered_at x = None)
      (\<lambda>x. x\<lparr>o_delivered_at := Some (db_now e)\<rparr>) (db_outbox (rl_db s))\<rparr>"
    using mark by (auto simp: mark_delivered_eq split: option.splits)
  have ok: "pg_ok db"
    using run_pg_ok [of "rl_db s" "\<lambda>_. undefined" "id :: string \<Rightarrow> string" e "Delivered (o_id r)"] inv mark
    by (simp add: relay_inv_def)
  have same: "event_of (x\<lparr>o_delivered_at := t\<rparr>) = event_of x" for x t by (simp add: event_of_def)
  have known: "known db x" if "known (rl_db s) x" for x
    using that by (auto simp: known_def db set_update_where same)
  have r': "known (rl_db s) r" "r \<in> set (rl_log s)" using inv r by (auto simp: relay_inv_def)
  have "event_of y \<in> earlier \<union> event_of ` set (rl_log s)"
    if "y \<in> set (db_outbox db)" "o_delivered_at y \<noteq> None" for y
  proof -
    from that(1) obtain x where x: "x \<in> set (db_outbox (rl_db s))"
      "y = (if o_id x = o_id r \<and> o_delivered_at x = None
            then x\<lparr>o_delivered_at := Some (db_now e)\<rparr> else x)"
      by (auto simp: db set_update_where)
    show ?thesis
    proof (cases "o_id x = o_id r \<and> o_delivered_at x = None")
      case True
      then have "event_of y = event_of r" using x r'(1) by (auto simp: known_def same)
      with r'(2) show ?thesis by blast
    next
      case False
      with x that(2) inv show ?thesis by (auto simp: relay_inv_def)
    qed
  qed
  then show ?thesis using inv ok known by (auto simp: relay_inv_def)
qed

lemma relay_inv_step:
  assumes inv: "relay_inv payload h earlier evs s" and step: "relay_step payload sha collate e s = Some s'"
  shows "\<exists>evs'. relay_inv payload h earlier evs' s'"
proof (cases e)
  case (Poll en)
  have ok: "pg_ok (rl_db s)" using inv by (simp add: relay_inv_def)
  show ?thesis
  proof (cases "pending_outbox en 100 (rl_db s)")
    case (Inl err)
    with Poll step inv show ?thesis by (auto split: if_splits)
  next
    case (Inr rows)
    with Poll step have "s' = s\<lparr>rl_batch := rows\<rparr>" by (auto split: if_splits)
    with inv pending_known [OF ok Inr] have "relay_inv payload h earlier evs s'"
      by (simp add: relay_inv_def)
    then show ?thesis by blast
  qed
next
  case Relay
  with step obtain r rows where r: "rl_current s = None" "rl_batch s = r # rows"
    by (auto split: option.splits list.splits)
  let ?ev = "Publish (o_user_id r) (o_event_type r) (Inr (payload (o_payload r)))"
  obtain h' where h': "publish (o_user_id r) (o_event_type r) (Inr (payload (o_payload r))) (rl_hub s) = (Inr (), h')"
    by (simp add: publish_def new_envelope_def)
  with Relay r step have s': "s' = s\<lparr>rl_hub := h', rl_batch := rows, rl_current := Some r, rl_log := rl_log s @ [r]\<rparr>"
    by simp
  have "relay_inv payload h earlier (evs @ [?ev]) (s\<lparr>rl_hub := h'\<rparr>)"
    by (rule relay_inv_hub [OF inv]) (simp add: h')
  moreover have "envelope_of payload r \<in> set (published (o_user_id r) (evs @ [?ev]))"
    by (simp add: published_append new_envelope_def envelope_of_def)
  ultimately have "relay_inv payload h earlier (evs @ [?ev]) s'"
    using r unfolding s' by (auto simp: relay_inv_def simp del: published.simps)
  then show ?thesis by blast
next
  case (Confirm en)
  with step obtain r where r: "rl_current s = Some r" by (auto split: option.splits)
  obtain res db where m: "mark_outbox_delivered en (o_id r) (rl_db s) = (res, db)" by force
  show ?thesis
  proof (cases res)
    case (Inl err)
    with m have "db = rl_db s" by (auto simp: mark_delivered_eq split: option.splits)
    with Confirm step r m Inl have "s' = s\<lparr>rl_batch := [], rl_current := None\<rparr>" by simp
    with inv have "relay_inv payload h earlier evs s'" by (simp add: relay_inv_def)
    then show ?thesis by blast
  next
    case (Inr u)
    with Confirm step r m have "s' = s\<lparr>rl_db := db, rl_current := None\<rparr>" by simp
    with relay_inv_confirm [OF inv r] m Inr show ?thesis by blast
  qed
next
  case (Store en c)
  with step have c: "\<And>i. c \<noteq> Delivered i" and s': "s' = s\<lparr>rl_db := run_db sha collate en c (rl_db s)\<rparr>"
    by (auto split: if_splits)
  have "pg_ok (rl_db s)" using inv by (simp add: relay_inv_def)
  from relay_inv_store [OF inv run_outbox [OF c] run_pg_ok [OF this]] show ?thesis unfolding s' by blast
next
  case (Client ev)
  with step obtain h' where "rt_step ev (rl_hub s) = Some h'" "s' = s\<lparr>rl_hub := h'\<rparr>" by auto
  with relay_inv_hub [OF inv] show ?thesis by blast
qed

lemma relay_inv_run:
  "relay_inv payload h earlier evs s \<Longrightarrow> relay_run payload sha collate es s = Some s' \<Longrightarrow>
   \<exists>evs'. relay_inv payload h earlier evs' s'"
proof (induction es arbitrary: s evs)
  case (Cons e es)
  then obtain s1 where "relay_step payload sha collate e s = Some s1" "relay_run payload sha collate es s1 = Some s'"
    by (auto split: option.splits)
  with Cons relay_inv_step show ?case by blast
qed auto

text \<open>
  C4. Delivered means published: in every run of the relay, next to any calls of the stores and any
  steps of the clients and with any failures, an event of the outbox that is marked as delivered was
  so from the start, or has been published to its user at the realtime hub, with the type and the
  message that are stored; so a client that is served and not dropped has it in its stream.
\<close>

theorem delivered_was_published:
  assumes "relay_run payload sha collate es (new_relay db h) = Some s" "pg_ok db"
  shows "\<exists>evs. rt_run evs h = Some (rl_hub s) \<and>
    (\<forall>r \<in> set (db_outbox (rl_db s)). o_delivered_at r \<noteq> None \<longrightarrow>
       (\<exists>x \<in> set (db_outbox db). o_delivered_at x \<noteq> None \<and> event_of x = event_of r) \<or>
       envelope_of payload r \<in> set (published (o_user_id r) evs))"
proof -
  let ?earlier = "event_of ` {x \<in> set (db_outbox db). o_delivered_at x \<noteq> None}"
  have "relay_inv payload h ?earlier [] (new_relay db h)"
    using assms(2) by (auto simp: relay_inv_def new_relay_def)
  from relay_inv_run [OF this assms(1)] obtain evs where inv: "relay_inv payload h ?earlier evs s" by blast
  have early: "\<exists>x \<in> set (db_outbox db). o_delivered_at x \<noteq> None \<and> event_of x = event_of r"
    if "r \<in> set (db_outbox (rl_db s))" "o_delivered_at r \<noteq> None"
      "envelope_of payload r \<notin> set (published (o_user_id r) evs)" for r
  proof -
    from that(1,2) inv have "event_of r \<in> ?earlier \<union> event_of ` set (rl_log s)"
      by (simp add: relay_inv_def)
    then consider x where "x \<in> set (db_outbox db)" "o_delivered_at x \<noteq> None" "event_of x = event_of r"
      | x where "x \<in> set (rl_log s)" "event_of x = event_of r"
      by (auto simp: image_iff)
    then show ?thesis
    proof cases
      case (2 x)
      then have "envelope_of payload x \<in> set (published (o_user_id x) evs)" using inv by (simp add: relay_inv_def)
      moreover have "envelope_of payload x = envelope_of payload r" "o_user_id x = o_user_id r"
        using 2(2) by (simp_all add: event_of_def envelope_of_def)
      ultimately show ?thesis using that(3) by simp
    qed blast
  qed
  show ?thesis
  proof (intro exI conjI ballI impI)
    show "rt_run evs h = Some (rl_hub s)" using inv by (simp add: relay_inv_def)
  next
    fix r
    assume "r \<in> set (db_outbox (rl_db s))" "o_delivered_at r \<noteq> None"
    with early show "(\<exists>x \<in> set (db_outbox db). o_delivered_at x \<noteq> None \<and> event_of x = event_of r) \<or>
       envelope_of payload r \<in> set (published (o_user_id r) evs)" by blast
  qed
qed

theorem delivered_was_published_witness:
  "\<exists>s evs. relay_run (\<lambda>_. JNull) id (id :: string \<Rightarrow> string) [Poll (sample_env 0), Relay, Confirm (sample_env 0)]
       (new_relay sample_outbox sample_rt) = Some s \<and>
     o_delivered_at (db_outbox (rl_db s) ! 1) \<noteq> None \<and> rt_run evs sample_rt = Some (rl_hub s) \<and>
     published ''alice'' evs \<noteq> []"
proof -
  let ?es = "[Poll (sample_env 0), Relay, Confirm (sample_env 0)]"
  obtain s where run: "relay_run (\<lambda>_. JNull) id (id :: string \<Rightarrow> string) ?es (new_relay sample_outbox sample_rt) = Some s"
    and rows: "db_outbox (rl_db s) = [sample_event 1 (Some minute), sample_event 2 (Some (db_now (sample_env 0))), sample_event 3 None]"
    by (simp add: new_relay_def pending_outbox_def sample_outbox_def sample_event_def mark_delivered_eq
        publish_def new_envelope_def update_where_def)
  have "pg_ok sample_outbox"
    using sample_chat_ok sample_outbox_ok by (simp add: pg_ok_def sample_outbox_def)
  from delivered_was_published [OF run this] obtain evs where evs: "rt_run evs sample_rt = Some (rl_hub s)"
    "\<forall>r \<in> set (db_outbox (rl_db s)). o_delivered_at r \<noteq> None \<longrightarrow>
       (\<exists>x \<in> set (db_outbox sample_outbox). o_delivered_at x \<noteq> None \<and> event_of x = event_of r) \<or>
       envelope_of (\<lambda>_. JNull) r \<in> set (published (o_user_id r) evs)" by blast
  have "envelope_of (\<lambda>_. JNull) (sample_event 2 (Some (db_now (sample_env 0)))) \<in> set (published (o_user_id (sample_event 2 (Some (db_now (sample_env 0))))) evs)"
    using evs(2) rows by (force simp: sample_outbox_def sample_event_def event_of_def)
  then have "published ''alice'' evs \<noteq> []" by (auto simp: sample_event_def)
  moreover have "o_delivered_at (db_outbox (rl_db s) ! 1) \<noteq> None" by (simp add: rows sample_event_def)
  ultimately show ?thesis using run evs(1) by blast
qed

end
