(* ===== verification/ApiMain.thy ===== *)
theory ApiMain
  imports SayApi EmailSender
begin

section \<open>Starting the API program, and its retention loop\<close>

text \<open>
  The rest of \<^verbatim>\<open>cmd/say-api/main.go\<close>: the start-up sequence of \<open>main\<close>, which makes the configuration
  of the HTTP API from the environment variables or exits, and \<open>runRetention\<close>, next to everything
  else that happens to the database. Shown: a production process takes access tokens only, never
  shows a login code and mails it over HTTPS; for which settings the retention period is the one that was
  set; and what every pass of the loop leaves in the database.
\<close>

subsection \<open>Start-up\<close>

definition must_env :: "(string \<Rightarrow> string) \<Rightarrow> string \<Rightarrow> go_error + string" where
  "must_env getenv key =
     (if getenv key = [] then Inl (NewError (''required environment variable is missing: '' @ key))
      else Inr (getenv key))"

text \<open>The sender of the login codes, \<open>None\<close> when no service is configured.\<close>

definition code_sender ::
  "mail_client \<Rightarrow> (string \<Rightarrow> string) \<Rightarrow> string \<Rightarrow> go_error + (string \<Rightarrow> string \<Rightarrow> go_error + unit) option"
where
  "code_sender client getenv environment =
     (let url = getenv ''SAY_AUTH_WEBHOOK_URL'' in
      if url = [] then Inr None else
      attempt (fail_if (environment = ''production'' \<and> \<not> has_prefix url ''https://'')
        (NewError ''SAY_AUTH_WEBHOOK_URL must use HTTPS in production'')) (\<lambda>_.
      attempt (must_env getenv ''SAY_AUTH_EMAIL_FROM'') (\<lambda>from_address.
      attempt (new_email_sender url from_address (getenv ''SAY_AUTH_WEBHOOK_TOKEN'')) (\<lambda>s.
      Inr (Some (send_login_code client s))))))"

text \<open>
  \<open>retention_duration\<close>: the product \<open>time.Duration(days) * 24 * time.Hour\<close>, in 64 bits.
\<close>

definition retention_duration :: "int \<Rightarrow> time" where
  "retention_duration days = sint (word_of_int days * 24 * word_of_int (60 * minute) :: 64 word)"

record api_settings =
  ap_addr :: string
  ap_retention :: time
  ap_keep :: int

text \<open>
  \<open>main\<close> up to \<open>httpapi.New\<close> and \<open>go runRetention\<close>; \<open>Inl\<close> is an exit with status 1. \<open>opened\<close> is the
  result of \<open>postgres.Open\<close> for a URL, \<open>marked\<close> that of \<open>MarkWorkersOffline\<close>.
\<close>

definition api_start ::
  "'h auth_lib \<Rightarrow> (string \<Rightarrow> 'h) \<Rightarrow> (string \<Rightarrow> 'k) \<Rightarrow> (string \<Rightarrow> time option) \<Rightarrow> mail_client \<Rightarrow>
   (string \<Rightarrow> string) \<Rightarrow> (string \<Rightarrow> go_error + unit) \<Rightarrow> go_error + unit \<Rightarrow> go_error + ('h, 'k) api \<times> api_settings"
where
  "api_start lib sha collate parse_time client getenv opened marked =
     (let environment = env_or (getenv ''SAY_ENV'') ''development'';
          dev_auth = env_bool (getenv ''SAY_DEV_AUTH'');
          debug_code = env_bool (getenv ''SAY_AUTH_DEBUG_RETURN_CODE'') in
      attempt (fail_if (environment = ''production'' \<and> (dev_auth \<or> debug_code))
        (NewError ''development authentication options are forbidden in production'')) (\<lambda>_.
      attempt (must_env getenv ''SAY_DATABASE_URL'') (\<lambda>url.
      attempt (opened url) (\<lambda>_.
      attempt (code_sender client getenv environment) (\<lambda>sender.
      attempt (must_env getenv ''SAY_JWT_SIGNING_KEY'') (\<lambda>jwt_key.
      attempt (must_env getenv ''SAY_LOGIN_HASH_KEY'') (\<lambda>hash_key.
      attempt (new_service \<lparr>cfg_issuer = env_or (getenv ''SAY_JWT_ISSUER'') ''say'', cfg_jwt_key = jwt_key,
        cfg_hash_key = hash_key, cfg_access_lifetime = 0, cfg_refresh_lifetime = 0, cfg_login_lifetime = 0,
        cfg_debug_code = debug_code\<rparr>) (\<lambda>cfg.
      attempt marked (\<lambda>_.
      Inr (\<lparr>api_store = postgres_store sha, api_dev_auth = dev_auth, api_auth = Some (lib, cfg, sender),
              api_messages = True, api_realtime = True, api_collate = collate, api_parse_time = parse_time\<rparr>,
           \<lparr>ap_addr = env_or (getenv ''SAY_ADDR'') '':8080'',
            ap_retention = retention_duration (env_int (getenv ''SAY_MESSAGE_RETENTION_DAYS'') 30),
            ap_keep = env_int (getenv ''SAY_MESSAGE_KEEP_PER_CONVERSATION'') 500\<rparr>))))))))))"

lemma must_env_eq_Inr [attempt_dests]: "must_env getenv key = Inr v \<longleftrightarrow> v = getenv key \<and> v \<noteq> []"
  by (auto simp: must_env_def)

lemma code_sender_eq_Inr [attempt_dests]:
  "code_sender client getenv environment = Inr sender \<longleftrightarrow>
   (if getenv ''SAY_AUTH_WEBHOOK_URL'' = [] then sender = None
    else (environment = ''production'' \<longrightarrow> has_prefix (getenv ''SAY_AUTH_WEBHOOK_URL'') ''https://'') \<and>
      getenv ''SAY_AUTH_EMAIL_FROM'' \<noteq> [] \<and>
      (\<exists>s. new_email_sender (getenv ''SAY_AUTH_WEBHOOK_URL'') (getenv ''SAY_AUTH_EMAIL_FROM'')
          (getenv ''SAY_AUTH_WEBHOOK_TOKEN'') = Inr s \<and> sender = Some (send_login_code client s)))"
  by (auto simp: code_sender_def Let_def attempt_eq_Inr must_env_eq_Inr)

text \<open>The errors of \<open>startup_refused\<close> are exits of the sequence.\<close>

lemma refused_exits:
  "startup_refused getenv \<Longrightarrow>
   \<exists>err. api_start lib sha collate parse_time client getenv opened marked = Inl err"
proof (rule ccontr)
  assume refused: "startup_refused getenv"
    and "\<nexists>err. api_start lib sha collate parse_time client getenv opened marked = Inl err"
  then obtain v where "api_start lib sha collate parse_time client getenv opened marked = Inr v"
    by (metis sum.exhaust)
  with refused show False
    by (auto simp: api_start_def startup_refused_def Let_def attempt_eq_Inr must_env_eq_Inr
        code_sender_eq_Inr split: if_splits)
qed

subsection \<open>The URL of the mail service\<close>

text \<open>Trimming stops at a byte that no space has.\<close>

lemma trim_left_stops:
  "\<forall>p \<in> set spaces. c \<notin> set p \<Longrightarrow> s = a @ c # b \<Longrightarrow> \<exists>a'. trim_left spaces s = a' @ c # b"
proof (induction spaces s arbitrary: a rule: trim_left.induct)
  case (1 spaces s)
  show ?case
  proof (cases "List.find (\<lambda>p. p \<noteq> [] \<and> s \<noteq> [] \<and> has_prefix s p) spaces")
    case None
    then have "trim_left spaces s = s" by (subst trim_left.simps) simp
    then show ?thesis using 1(3) by blast
  next
    case (Some p)
    then have p: "p \<in> set spaces" "has_prefix s p" by (auto simp: find_Some_iff)
    then obtain r where "a @ c # b = p @ r" using 1(3) by (auto simp: has_prefix_iff)
    then obtain us where "a = p @ us"
      using 1(2) p(1) by (auto simp: append_eq_append_conv2 Cons_eq_append_conv)
    then have "drop (length p) s = us @ c # b" using 1(3) by simp
    from 1(1) [OF Some 1(2) this] Some show ?thesis by (simp add: trim_left.simps [of spaces s])
  qed
qed

lemma white_space_bytes: "p \<in> set white_space \<Longrightarrow> c \<in> set p \<Longrightarrow> of_char c < (33 :: nat) \<or> of_char c > (127 :: nat)"
  by (auto simp: white_space_def utf8_bytes_def take_bit_eq_mod)

lemma trim_keeps_https:
  assumes "has_prefix url ''https://''"
  shows "has_prefix (trim_right_slashes (trim_space url)) ''https:''"
proof -
  from assms obtain x where url: "url = ''https://'' @ x" by (auto simp: has_prefix_iff)
  have "hd url \<notin> hd ` set white_space"
  proof
    assume "hd url \<in> hd ` set white_space"
    from subsetD [OF white_heads(1) this] show False by (simp add: url)
  qed
  then have left: "trim_left white_space url = url" by (rule trim_left_id)
  have slash: "\<forall>p \<in> set (map rev white_space). CHR ''/'' \<notin> set p"
    using white_space_bytes by force
  have "rev url = (rev x @ ''/'') @ CHR ''/'' # '':sptth''" using url by simp
  from trim_left_stops [OF slash this] obtain a where
    "trim_left (map rev white_space) (rev url) = a @ CHR ''/'' # '':sptth''" by blast
  then have "rev (trim_space url) = (a @ ''/'') @ '':sptth''" by (simp add: trim_space_def left)
  then have "\<exists>b. dropWhile (\<lambda>c. c = CHR ''/'') (rev (trim_space url)) = b @ '':sptth''"
    by (auto simp: dropWhile_append)
  then obtain b where "trim_right_slashes (trim_space url) = ''https:'' @ rev b"
    by (auto simp: trim_right_slashes_def)
  then show ?thesis by (simp only: has_prefix_append)
qed

lemma code_mailed_over_https:
  assumes "new_email_sender url from_address token = Inr s" "has_prefix url ''https://''"
  shows "has_prefix (es_url s) ''https:''"
  using assms trim_keeps_https by (auto simp: new_email_sender_def attempt_eq_Inr)

lemma new_serviceD:
  "new_service cfg = Inr cfg' \<Longrightarrow> cfg_debug_code cfg' = cfg_debug_code cfg \<and> 32 \<le> length (cfg_jwt_key cfg') \<and>
   32 \<le> length (cfg_hash_key cfg')"
  by (auto simp: new_service_def attempt_eq_Inr)

text \<open>
  C11. A process that starts in production is hardened: a request is let in only as the user of an access
  token the service issued, not on the development user's word; the keys have 32 bytes or more; the
  answer to a login request never shows the code; and the code is sent to an HTTPS URL, or, if no
  mail service is configured, there is no login.
\<close>

theorem production_hardened:
  assumes "api_start lib sha collate parse_time client getenv opened marked = Inr (A, st)"
    and "getenv ''SAY_ENV'' = ''production''"
  shows "\<exists>cfg sender. api_auth A = Some (lib, cfg, sender) \<and>
    (\<forall>r e u. authenticated_user A r e = Inr u \<longrightarrow>
       validate_access_token lib cfg e (trim_space (trim_prefix (hr_authorization r) ''Bearer '')) = Inr u) \<and>
    32 \<le> length (cfg_jwt_key cfg) \<and> 32 \<le> length (cfg_hash_key cfg) \<and>
    (\<forall>e email db ls db'. start_login lib cfg sender e email db = (Inr ls, db') \<longrightarrow>
       ls_debug_code ls = [] \<and> (\<exists>s. sender = Some (send_login_code client s) \<and> has_prefix (es_url s) ''https:''))"
proof -
  let ?debug = "env_bool (getenv ''SAY_AUTH_DEBUG_RETURN_CODE'')"
  from assms obtain sender cfg0 cfg where
    debug: "\<not> env_bool (getenv ''SAY_DEV_AUTH'')" "\<not> ?debug"
    and sender: "code_sender client getenv ''production'' = Inr sender"
    and cfg: "new_service cfg0 = Inr cfg" "cfg_debug_code cfg0 = ?debug"
    and A: "api_auth A = Some (lib, cfg, sender)" "\<not> api_dev_auth A"
    by (auto simp: api_start_def Let_def attempt_eq_Inr env_or_def)
  note cfg' = new_serviceD [OF cfg(1)]
  have "validate_access_token lib cfg e (trim_space (trim_prefix (hr_authorization r) ''Bearer '')) = Inr u"
    if "authenticated_user A r e = Inr u" for r e u
    using that A by (auto simp: authenticated_user_def Let_def split: if_splits sum.splits)
  moreover have "ls_debug_code ls = [] \<and>
      (\<exists>s. sender = Some (send_login_code client s) \<and> has_prefix (es_url s) ''https:'')"
    if start: "start_login lib cfg sender e email db = (Inr ls, db')" for e email db ls db'
  proof -
    have "sender \<noteq> None" "ls_debug_code ls = []"
      using start cfg' cfg(2) debug
      by (auto simp: start_login_def attempt_eq_Inr attempt_eq_Inl split: sum.splits)
    with sender show ?thesis
      by (auto simp: code_sender_eq_Inr intro: code_mailed_over_https split: if_splits)
  qed
  ultimately show ?thesis using A cfg' by (intro exI [of _ cfg] exI [of _ sender]) blast
qed


definition production_env :: "string \<Rightarrow> string" where
  "production_env key = (case map_of
     [(''SAY_ENV'', ''production''), (''SAY_DATABASE_URL'', ''postgres://db''),
      (''SAY_AUTH_WEBHOOK_URL'', ''https://mail/send''), (''SAY_AUTH_EMAIL_FROM'', ''say@mail''),
      (''SAY_JWT_SIGNING_KEY'', replicate 32 CHR ''j''), (''SAY_LOGIN_HASH_KEY'', replicate 32 CHR ''h''),
      (''SAY_MESSAGE_RETENTION_DAYS'', ''90'')] key of
     None \<Rightarrow> [] | Some v \<Rightarrow> v)"

lemma sample_api_start:
  "\<exists>A st. api_start toy_lib id (id :: string \<Rightarrow> string) (\<lambda>_. None) sample_client production_env (\<lambda>_. Inr ()) (Inr ()) =
     Inr (A, st)"
  by (simp add: api_start_def production_env_def env_or_def env_bool_def Let_def must_env_def code_sender_def
      new_email_sender_def trim_space_ascii new_service_def has_prefix_def)

theorem production_hardened_witness:
  "\<exists>A st. api_start toy_lib id (id :: string \<Rightarrow> string) (\<lambda>_. None) sample_client production_env (\<lambda>_. Inr ()) (Inr ()) =
       Inr (A, st) \<and>
     authenticated_user A (sample_request ''GET'' [''v1'', ''accounts''] ''Bearer dev:alice'' JNull) (sample_env 0)
       \<noteq> Inr ''alice''"
proof -
  let ?r = "sample_request ''GET'' [''v1'', ''accounts''] ''Bearer dev:alice'' JNull"
  obtain A st where start: "api_start toy_lib id (id :: string \<Rightarrow> string) (\<lambda>_. None) sample_client production_env
      (\<lambda>_. Inr ()) (Inr ()) = Inr (A, st)"
    using sample_api_start by blast
  have "production_env ''SAY_ENV'' = ''production''" by (simp add: production_env_def)
  from production_hardened [OF start this] obtain cfg where
    "\<forall>r e u. authenticated_user A r e = Inr u \<longrightarrow>
       validate_access_token toy_lib cfg e (trim_space (trim_prefix (hr_authorization r) ''Bearer '')) = Inr u" by blast
  moreover have "trim_prefix (hr_authorization ?r) ''Bearer '' = ''dev:alice''" "trim_space ''dev:alice'' = ''dev:alice''"
    by (simp_all add: sample_request_def trim_prefix_def has_prefix_def trim_space_ascii)
  moreover have "validate_access_token toy_lib cfg (sample_env 0) ''dev:alice'' \<noteq> Inr ''alice''"
    by (simp add: validate_access_token_def toy_lib_def)
  ultimately show ?thesis using start by metis
qed

subsection \<open>The retention period\<close>

lemma retention_product: "retention_duration days = sint (word_of_int (days * day) :: 64 word)"
  by (simp add: retention_duration_def day_def minute_def second_def mult.commute)

lemma retention_period_iff:
  assumes "0 < days"
  shows "retention_duration days = days * day \<longleftrightarrow> days \<le> 106751"
proof
  assume "retention_duration days = days * day"
  then have "days * day < 2 ^ 63"
    using sint_less [of "word_of_int (days * day) :: 64 word"] by (simp add: retention_product)
  then show "days \<le> 106751" by (simp add: day_def second_def)
next
  assume "days \<le> 106751"
  then have "days * day < 2 ^ 63" by (simp add: day_def second_def)
  moreover have "0 < days * day" using assms by (simp add: day_def second_def)
  ultimately show "retention_duration days = days * day"
    unfolding retention_product sint_sbintrunc' by (subst signed_take_bit_int_eq_self) simp_all
qed

text \<open>
  C40. The retention period is the number of days that was set exactly when this is at most 106751, about
  292 years; beyond, the product leaves the 64 bits of a \<open>time.Duration\<close>. A setting that is not a
  positive number counts as 30 days.
\<close>

theorem retention_period_exact:
  assumes "api_start lib sha collate parse_time client getenv opened marked = Inr (A, st)"
  shows "case atoi (getenv ''SAY_MESSAGE_RETENTION_DAYS'') of
      Some days \<Rightarrow> (if days \<le> 0 then ap_retention st = 30 * day
        else ap_retention st = days * day \<longleftrightarrow> days \<le> 106751)
    | None \<Rightarrow> ap_retention st = 30 * day"
proof -
  have "ap_retention st = retention_duration (env_int (getenv ''SAY_MESSAGE_RETENTION_DAYS'') 30)"
    using assms by (auto simp: api_start_def Let_def attempt_eq_Inr)
  then show ?thesis
    using retention_period_iff [of 30] retention_period_iff by (auto simp: env_int_def split: option.split)
qed

theorem retention_period_exact_witness:
  "\<exists>A st. api_start toy_lib id (id :: string \<Rightarrow> string) (\<lambda>_. None) sample_client production_env (\<lambda>_. Inr ()) (Inr ()) =
       Inr (A, st) \<and> ap_retention st = 90 * day"
proof -
  obtain A st where start: "api_start toy_lib id (id :: string \<Rightarrow> string) (\<lambda>_. None) sample_client production_env
      (\<lambda>_. Inr ()) (Inr ()) = Inr (A, st)"
    using sample_api_start by blast
  have "atoi (production_env ''SAY_MESSAGE_RETENTION_DAYS'') = Some 90"
    by (simp add: production_env_def atoi_def)
  with retention_period_exact [OF start] start show ?thesis by simp
qed

text \<open>A setting of 106752 days makes every pass fail; one of 213504 days keeps messages for 26 minutes.\<close>

lemma retention_overflow:
  "retention_duration 106752 < 0" "0 < retention_duration 213504" "retention_duration 213504 < 26 * minute"
  by (simp_all add: retention_product day_def minute_def second_def)


subsection \<open>The retention loop\<close>

text \<open>
  \<open>Pass\<close> is one turn of \<open>runRetention\<close>, at the start and then at every tick of an hour until the program
  ends; \<open>Elsewhere\<close> is any call of the stores between two turns. Only the loop prunes.
  \<open>rn_passes\<close> are the turns with the database before and after; \<open>rn_lines\<close> is what the loop logs.
\<close>

datatype retention_line = PruneFailed go_error | PrunedMessages nat

record 'h retention_run =
  rn_db :: "'h db"
  rn_passes :: "(env \<times> 'h db \<times> 'h db) list"
  rn_lines :: "retention_line list"

datatype retention_event = Pass env | Elsewhere env db_call

definition pass_lines :: "go_error + nat \<Rightarrow> retention_line list" where
  "pass_lines r =
     (case r of
        Inl err \<Rightarrow> if errors_is err ErrContextCanceled then [] else [PruneFailed err]
      | Inr deleted \<Rightarrow> if deleted > 0 then [PrunedMessages deleted] else [])"

fun retention_step ::
  "(string \<Rightarrow> 'h) \<Rightarrow> (string \<Rightarrow> 'k::linorder) \<Rightarrow> time \<Rightarrow> int \<Rightarrow> retention_event \<Rightarrow> 'h retention_run \<Rightarrow>
   'h retention_run option"
where
  "retention_step sha collate retention keep (Pass e) s =
     (case prune collate e retention keep (rn_db s) of (r, db') \<Rightarrow>
        Some (s\<lparr>rn_db := db', rn_passes := rn_passes s @ [(e, rn_db s, db')],
          rn_lines := rn_lines s @ pass_lines r\<rparr>))"
| "retention_step sha collate retention keep (Elsewhere e c) s =
     (if \<exists>r k. c = Prune r k then None
      else Some (s\<lparr>rn_db := run_db sha collate e c (rn_db s)\<rparr>))"

definition run_retention ::
  "(string \<Rightarrow> 'h) \<Rightarrow> (string \<Rightarrow> 'k::linorder) \<Rightarrow> time \<Rightarrow> int \<Rightarrow> retention_event list \<Rightarrow> 'h retention_run \<Rightarrow>
   'h retention_run option"
where
  "run_retention sha collate retention keep = run_steps (retention_step sha collate retention keep)"

definition new_retention_run :: "'h db \<Rightarrow> 'h retention_run" where
  "new_retention_run db = \<lparr>rn_db = db, rn_passes = [], rn_lines = []\<rparr>"

text \<open>Every pass is a prune of a database that the schema's rules hold of.\<close>

definition passes_ok :: "(string \<Rightarrow> 'k::linorder) \<Rightarrow> time \<Rightarrow> int \<Rightarrow> 'h retention_run \<Rightarrow> bool" where
  "passes_ok collate retention keep s \<longleftrightarrow> pg_ok (rn_db s) \<and>
     (\<forall>(e, before, after) \<in> set (rn_passes s). pg_ok before \<and>
        (\<exists>r. prune collate e retention keep before = (r, after)))"

lemma passes_ok_step:
  assumes "passes_ok collate retention keep s" "retention_step sha collate retention keep ev s = Some s'"
  shows "passes_ok collate retention keep s'"
proof (cases ev)
  case (Pass e)
  have "pg_ok (run_db sha collate e (Prune retention keep) (rn_db s))"
    using assms(1) by (intro run_pg_ok) (simp add: passes_ok_def)
  with Pass assms show ?thesis by (auto simp: passes_ok_def split: prod.splits)
next
  case (Elsewhere e c)
  with assms show ?thesis by (auto simp: passes_ok_def run_pg_ok split: if_splits)
qed

interpretation retention_loop: step_invariant "retention_step sha collate retention keep" "passes_ok collate retention keep"
  for sha collate retention keep
  by unfold_locales (rule passes_ok_step)

text \<open>
  C15. Retention takes only what the settings allow: whenever the loop runs with a period of \<open>days\<close>
  days, up to 106751, next to any other calls of the stores, and whether a pass succeeds or fails
  halfway, a message that a pass removes was settled and older than \<open>days\<close> days, no message is
  altered, and every conversation keeps its newest \<open>keep\<close> settled messages (all of them if there are
  fewer).
\<close>

theorem retention_as_configured:
  assumes "run_retention sha collate (retention_duration days) keep es (new_retention_run db) = Some s"
    and "pg_ok db" "inj collate" "0 < days" "days \<le> 106751" "(e, before, after) \<in> set (rn_passes s)"
  shows "set (db_messages after) \<subseteq> set (db_messages before) \<and>
    (\<forall>m \<in> set (db_messages before) - set (db_messages after).
       m_status m \<noteq> ''pending'' \<and> m_sent_at m < pg_time (clock e - days * day)) \<and>
    min (nat keep) (length (filter (settled c) (db_messages before))) \<le>
      length (filter (settled c) (db_messages after))"
proof -
  have period: "retention_duration days = days * day"
    using assms(4,5) retention_period_iff by simp
  have "passes_ok collate (retention_duration days) keep s"
    by (rule retention_loop.run_keeps [OF assms(1) [unfolded run_retention_def]])
      (simp add: passes_ok_def new_retention_run_def assms(2))
  then obtain r where ok: "pg_ok before" and p: "prune collate e (days * day) keep before = (r, after)"
    using assms(6) by (auto simp: passes_ok_def period)
  from pruned_messages_any [OF p] show ?thesis
    using newest_not_pruned [OF pg_ok_schema [OF ok] assms(3), of keep c e "days * day"]
    by (auto simp: pruned_def prunable_def)
qed


theorem retention_as_configured_witness:
  "\<exists>s after. run_retention id (id :: string \<Rightarrow> string) (retention_duration 30) 2
       [Elsewhere (sample_env 0) MarkOffline, Pass (sample_env (40 * day))] (new_retention_run sample_history) = Some s \<and>
     rn_passes s = [(sample_env (40 * day), run_db id (id :: string \<Rightarrow> string) (sample_env 0) MarkOffline sample_history, after)] \<and>
     2 \<le> length (filter (settled ''con-1'') (db_messages after)) \<and> rn_lines s = [PrunedMessages 1]"
proof -
  let ?db = "run_db id (id :: string \<Rightarrow> string) (sample_env 0) MarkOffline sample_history"
  let ?es = "[Elsewhere (sample_env 0) MarkOffline, Pass (sample_env (40 * day))]"
  have ok: "pg_ok sample_history"
    using sample_chat_ok sample_history_ok by (simp add: pg_ok_def sample_history_def)
  have messages: "db_messages ?db = db_messages sample_history"
    by (simp add: mark_workers_offline_def in_tx_def)
  obtain r after where prune: "prune (id :: string \<Rightarrow> string) (sample_env (40 * day)) (30 * day) 2 ?db = (Inr r, after)"
    by (simp add: prune_def Let_def day_def second_def)
  have "r = 1"
    using pruned_messages [OF prune] messages
    by (simp add: pruned_def prunable_def recency_rank_def recency_key_def sample_history_def sample_row_def
        pg_time_def day_def minute_def second_def)
  let ?s = "\<lparr>rn_db = after, rn_passes = [(sample_env (40 * day), ?db, after)], rn_lines = [PrunedMessages 1]\<rparr>"
  have run: "run_retention id (id :: string \<Rightarrow> string) (retention_duration 30) 2 ?es (new_retention_run sample_history) = Some ?s"
    using prune \<open>r = 1\<close> retention_period_iff [of 30] by (simp add: run_retention_def new_retention_run_def pass_lines_def)
  have "length (filter (settled ''con-1'') (db_messages ?db)) = 3"
    unfolding messages by (simp add: sample_history_def settled_def sample_row_def)
  then have "2 \<le> length (filter (settled ''con-1'') (db_messages after))"
    using retention_as_configured [OF run ok inj_on_id, of "sample_env (40 * day)" ?db after "''con-1''"] by simp
  with run show ?thesis by auto
qed

end
