(* ===== verification/ApiRuns.thy ===== *)
theory ApiRuns
  imports Server
begin

section \<open>The API: responses, termination, and requests on their own\<close>

text \<open>
  Three properties of every handler of \<^verbatim>\<open>internal/httpapi/router.go\<close>, whatever else the server does
  meanwhile: its responses have the form \<^verbatim>\<open>api/openapi.yaml\<close> gives for the operation; it ends after
  finitely many calls and is never stuck; and run without interference, it is \<open>run_program\<close>.
\<close>

subsection \<open>What is left of a program\<close>

text \<open>\<open>responses p\<close> are the responses a program can end with.\<close>

inductive responds :: "'s program \<Rightarrow> response \<Rightarrow> bool" where
  here: "responds (Respond r) r"
| step: "responds (k e s) r \<Longrightarrow> responds (Step f k) r"
| ask: "responds (k x) r \<Longrightarrow> responds (Ask a t j k) r"
| await: "responds (k x) r \<Longrightarrow> responds (Await k) r"
| kick: "responds p r \<Longrightarrow> responds (Kick a p) r"

inductive_simps responds_simps [simp]:
  "responds (Respond r') r" "responds (Step f k) r" "responds (Ask a t j k) r"
  "responds (Await k) r" "responds (Kick a p) r"

text \<open>\<open>after p\<close>: what one move can leave of a program.\<close>

inductive after :: "'s program \<Rightarrow> 's program \<Rightarrow> bool" where
  step: "after (k e s) (Step f k)"
| hand: "after (Await k) (Ask a t j k)"
| answer: "after (k x) (Await k)"
| cut: "after p (Kick a p)"

inductive_simps after_simps:
  "after q (Respond r)" "after q (Step f k)" "after q (Ask a t j k)" "after q (Await k)" "after q (Kick a p)"

lemma accp_after: "Wellfounded.accp after p"
proof (induction p)
  case (Respond r)
  then show ?case by (rule accp.intros) (simp add: after_simps)
next
  case (Step f k)
  show ?case by (rule accp.intros) (use Step in \<open>auto simp: after_simps\<close>)
next
  case (Ask a t j k)
  then have "Wellfounded.accp after (Await k)" by (intro accp.intros [of _ "Await k"]) (auto simp: after_simps)
  then show ?case by (intro accp.intros [of _ "Ask a t j k"]) (simp add: after_simps)
next
  case (Await k)
  show ?case by (rule accp.intros) (use Await in \<open>auto simp: after_simps\<close>)
next
  case (Kick a p)
  then show ?case by (intro accp.intros [of _ "Kick a p"]) (simp add: after_simps)
qed

lemma wfp_after: "wfp after"
  using accp_after by (auto intro: accp_wfpI)

lemmas program_induct = wfp_induct_rule [OF wfp_after, consumes 0, case_names less]

lemma responds_after: "after q p \<Longrightarrow> responds q r \<Longrightarrow> responds p r"
  by (induction rule: after.induct) auto

text \<open>The events that move request \<open>i\<close>.\<close>

fun moves :: "nat \<Rightarrow> sv_event \<Rightarrow> bool" where
  "moves i (Advance j e) = (i = j)"
| "moves i (Hand j) = (i = j)"
| "moves i (Answer j x) = (i = j)"
| "moves i (Cut j) = (i = j)"
| "moves i _ = False"

lemma sv_step_moves:
  assumes "sv_step A sha ev v = Some v'" "moves i ev"
  shows "\<exists>p q. sv_threads v i = Some p \<and> sv_threads v' i = Some q \<and> after q p"
  using assms
  by (cases ev) (auto split: option.splits program.splits if_splits simp: after_simps, blast)

lemma sv_step_stays:
  assumes "sv_step A sha ev v = Some v'" "\<not> moves i ev"
  shows "sv_threads v' i = sv_threads v i \<or>
    (\<exists>r. ev = Arrive i r \<and> sv_threads v i = None \<and> sv_threads v' i = Some (serve A r))"
  using assms
  by (cases ev) (auto split: option.splits program.splits if_splits)

subsection \<open>Termination\<close>

lemma finite_moves:
  assumes "\<forall>n. sv_step A sha (ev n) (v n) = Some (v (Suc n))" "sv_threads (v n) i = Some p"
  shows "finite {m. n \<le> m \<and> moves i (ev m)}"
  using wfp_after assms(2)
proof (induction p arbitrary: n rule: wfp_induct_rule)
  case (less p)
  show ?case
  proof (cases "\<exists>m. n \<le> m \<and> moves i (ev m)")
    case True
    define m where "m = (LEAST m. n \<le> m \<and> moves i (ev m))"
    have m: "n \<le> m" "moves i (ev m)" and first: "\<And>l. n \<le> l \<Longrightarrow> l < m \<Longrightarrow> \<not> moves i (ev l)"
      using LeastI_ex [OF True] not_less_Least by (auto simp: m_def)
    have "sv_threads (v l) i = Some p" if "n \<le> l" "l \<le> m" for l
      using that
    proof (induction rule: dec_induct)
      case (step l)
      then have "sv_threads (v l) i = Some p" "\<not> moves i (ev l)" using first by auto
      with sv_step_stays [OF assms(1) [rule_format, of l], of i] show ?case by auto
    qed (rule less.prems)
    with m have "sv_threads (v m) i = Some p" by blast
    with sv_step_moves [OF assms(1) [rule_format] m(2)] obtain q where
      "sv_threads (v (Suc m)) i = Some q" "after q p" by auto
    then have "finite {l. Suc m \<le> l \<and> moves i (ev l)}" by (rule less.IH [rotated])
    moreover have "{l. n \<le> l \<and> moves i (ev l)} = insert m {l. Suc m \<le> l \<and> moves i (ev l)}"
      using m first by (auto simp: Suc_le_eq not_le [symmetric])
    ultimately show ?thesis by simp
  next
    case False
    then have empty: "{m. n \<le> m \<and> moves i (ev m)} = {}" by blast
    show ?thesis unfolding empty by simp
  qed
qed


definition waiting :: "nat \<Rightarrow> string server" where
  "waiting n = ((\<lambda>v. v\<lparr>sv_site := (sv_site v)\<lparr>st_db :=
       run_db id (id :: string \<Rightarrow> string) (sample_env 0) MarkOffline (st_db (sv_site v))\<rparr>\<rparr>) ^^ n)
     (new_server sample_site)\<lparr>sv_threads := [0 \<mapsto> Await (\<lambda>_. health)]\<rparr>"


subsection \<open>Responses\<close>

text \<open>
  The successful responses \<^verbatim>\<open>api/openapi.yaml\<close> documents, by method and path.
\<close>

definition documented :: "(string \<times> segment list \<times> nat \<times> (api_body \<Rightarrow> bool)) list" where
  "documented =
     [(''GET'', [Lit ''healthz''], 200, \<lambda>b. b = HealthBody),
      (''GET'', v1 [Lit ''workers'', Lit ''connect''], 101, \<lambda>b. b = WorkerSocket),
      (''POST'', v1 [Lit ''auth'', Lit ''start''], 202, \<lambda>b. \<exists>l. b = LoginBody l),
      (''POST'', v1 [Lit ''auth'', Lit ''verify''], 200, \<lambda>b. \<exists>p. b = PairBody p),
      (''POST'', v1 [Lit ''auth'', Lit ''refresh''], 200, \<lambda>b. \<exists>p. b = PairBody p),
      (''GET'', v1 [Lit ''accounts''], 200, \<lambda>b. \<exists>xs. b = AccountsBody xs),
      (''POST'', v1 [Lit ''accounts''], 201, \<lambda>b. \<exists>a t x. b = CreatedBody a t x),
      (''GET'', v1 [Lit ''accounts'', Wild], 200, \<lambda>b. \<exists>a. b = AccountBody a),
      (''DELETE'', v1 [Lit ''accounts'', Wild], 204, \<lambda>b. b = NoBody),
      (''POST'', v1 [Lit ''accounts'', Wild, Lit ''link''], 200, \<lambda>b. \<exists>j. b = ResultBody j),
      (''GET'', v1 [Lit ''conversations''], 200, \<lambda>b. \<exists>xs. b = ConversationsBody xs),
      (''GET'', v1 [Lit ''conversations'', Wild, Lit ''messages''], 200, \<lambda>b. \<exists>xs. b = MessagesBody xs),
      (''POST'', v1 [Lit ''conversations'', Wild, Lit ''messages''], 202, \<lambda>b. \<exists>i m. b = SendBody i m),
      (''GET'', v1 [Lit ''ws''], 101, \<lambda>b. \<exists>u. b = ClientSocket u)]"

text \<open>\<open>conforms r x\<close>: a documented success of the operation, an error with the error body, or the router's 404 or 405.\<close>

definition conforms :: "http_request \<Rightarrow> response \<Rightarrow> bool" where
  "conforms r x \<longleftrightarrow>
     (case rs_body x of
        ErrorBody code text \<Rightarrow> 400 \<le> rs_status x \<and> rs_status x \<le> 504
      | b \<Rightarrow> rs_status x \<in> {404, 405} \<and> b = NoBody \<or>
          (\<exists>(m, ps, status, fits) \<in> set documented. serves m (hr_method r) \<and>
             match_path ps (hr_path r) \<noteq> None \<and> rs_status x = status \<and> fits b))"

definition answers :: "(response \<Rightarrow> bool) \<Rightarrow> 's program \<Rightarrow> bool" where
  "answers P p \<longleftrightarrow> (\<forall>x. responds p x \<longrightarrow> P x)"

lemma answers_simps [simp]:
  "answers P (call f k) \<longleftrightarrow> (\<forall>e s. answers P (k (fst (f e s))))"
  "answers P (query g h) \<longleftrightarrow> (\<forall>e s. answers P (h (g e s)))"
  "answers P (Ask a t j l) \<longleftrightarrow> (\<forall>x. answers P (l x))"
  "answers P (Kick a p) \<longleftrightarrow> answers P p"
  "answers P (write_json_body status body) \<longleftrightarrow> P \<lparr>rs_status = status, rs_body = body\<rparr>"
  "answers P (write_error status code m) \<longleftrightarrow> P \<lparr>rs_status = status, rs_body = ErrorBody code m\<rparr>"
  by (auto simp: answers_def call_def query_def write_json_body_def write_error_def)

lemma answers_splits:
  "(\<And>a. x = Inl a \<Longrightarrow> answers P (f a)) \<Longrightarrow> (\<And>b. x = Inr b \<Longrightarrow> answers P (g b)) \<Longrightarrow> answers P (case_sum f g x)"
  "(y = None \<Longrightarrow> answers P p) \<Longrightarrow> (\<And>b. y = Some b \<Longrightarrow> answers P (h b)) \<Longrightarrow> answers P (case_option p h y)"
  "(c \<Longrightarrow> answers P p) \<Longrightarrow> (\<not> c \<Longrightarrow> answers P q) \<Longrightarrow> answers P (if c then p else q)"
  "(\<And>a b. z = (a, b) \<Longrightarrow> answers P (l a b)) \<Longrightarrow> answers P (case_prod l z)"
  by (simp_all split: sum.split option.split prod.split)

text \<open>The same for one operation.\<close>

definition good :: "nat \<Rightarrow> (api_body \<Rightarrow> bool) \<Rightarrow> response \<Rightarrow> bool" where
  "good status fits x \<longleftrightarrow>
     (case rs_body x of
        ErrorBody code text \<Rightarrow> 400 \<le> rs_status x \<and> rs_status x \<le> 504
      | b \<Rightarrow> rs_status x = status \<and> fits b)"

lemmas handler_defs = health_def start_auth_def verify_auth_def refresh_auth_def auth_not_configured_def
  list_accounts_def create_account_handler_def with_account_def get_account_handler_def
  delete_account_handler_def link_account_handler_def messages_not_configured_def
  list_conversations_handler_def list_messages_handler_def accepted_def send_failed_def
  send_answered_def send_marked_def send_prepared_def send_message_handler_def client_web_socket_def
  with_body_def require_user_def Let_def

lemma good_cache_history:
  "answers (good status fits) k \<Longrightarrow> answers (good status fits) (cache_history account ms k)"
  by (induction ms) (auto intro!: answers_splits simp: good_def)

lemma auth_good:
  "answers (good 202 (\<lambda>b. \<exists>l. b = LoginBody l)) (start_auth A r)"
  "answers (good 200 (\<lambda>b. \<exists>p. b = PairBody p)) (verify_auth A r)"
  "answers (good 200 (\<lambda>b. \<exists>p. b = PairBody p)) (refresh_auth A r)"
  by (simp_all add: handler_defs good_def split: option.split sum.split prod.split)

lemma account_good:
  "answers (good 200 (\<lambda>b. \<exists>xs. b = AccountsBody xs)) (list_accounts A u)"
  "answers (good 201 (\<lambda>b. \<exists>a t x. b = CreatedBody a t x)) (create_account_handler A u r)"
  "answers (good 200 (\<lambda>b. \<exists>a. b = AccountBody a)) (get_account_handler A u i)"
  "answers (good 204 (\<lambda>b. b = NoBody)) (delete_account_handler A u i)"
  "answers (good 200 (\<lambda>b. \<exists>j. b = ResultBody j)) (link_account_handler A u i r)"
  by (simp_all add: handler_defs good_def split: option.split sum.split prod.split)

lemma message_good:
  "answers (good 200 (\<lambda>b. \<exists>xs. b = ConversationsBody xs)) (list_conversations_handler A u r)"
  "answers (good 200 (\<lambda>b. \<exists>xs. b = MessagesBody xs)) (list_messages_handler A u c r)"
  "answers (good 202 (\<lambda>b. \<exists>i m. b = SendBody i m)) (send_message_handler A u c r)"
proof -
  show "answers (good 200 (\<lambda>b. \<exists>xs. b = ConversationsBody xs)) (list_conversations_handler A u r)"
    by (simp add: handler_defs good_def split: option.split sum.split)
  show "answers (good 200 (\<lambda>b. \<exists>xs. b = MessagesBody xs)) (list_messages_handler A u c r)"
    by (simp add: handler_defs good_def good_cache_history split: option.split sum.split)
  show "answers (good 202 (\<lambda>b. \<exists>i m. b = SendBody i m)) (send_message_handler A u c r)"
    by (simp add: handler_defs good_def split: option.split sum.split prod.split)
qed

lemma answers_require_user:
  "(\<And>u. answers (good status fits) (k u)) \<Longrightarrow> answers (good status fits) (require_user A r k)"
  by (simp add: require_user_def good_def split: sum.split)

lemma routes_good:
  assumes "(m, ps, h) \<in> set (routes A)"
  shows "\<exists>status fits. (m, ps, status, fits) \<in> set documented \<and> answers (good status fits) (h r qs)"
proof -
  have sockets: "good 101 (\<lambda>b. b = WorkerSocket) \<lparr>rs_status = 101, rs_body = WorkerSocket\<rparr>"
    "answers (good 101 (\<lambda>b. \<exists>u. b = ClientSocket u)) (client_web_socket A u)"
    "answers (good 200 (\<lambda>b. b = HealthBody)) health" for u
    by (simp_all add: good_def client_web_socket_def health_def)
  have "\<forall>(m, ps, h) \<in> set (routes A). \<exists>(m', ps', status, fits) \<in> set documented.
      m' = m \<and> ps' = ps \<and> answers (good status fits) (h r qs)"
    unfolding routes_def documented_def
    by (simp add: v1_def answers_require_user auth_good account_good message_good sockets)
  with assms show ?thesis by fast
qed

lemma serve_conforms: "answers (conforms r) (serve A r)"
proof (cases A r rule: serve_cases)
  case (Routed m ps h qs)
  from routes_good [OF Routed(1)] obtain status fits where
    doc: "(m, ps, status, fits) \<in> set documented" and good: "answers (good status fits) (h r qs)" by blast
  have "conforms r x" if "good status fits x" for x
    using that doc Routed(2,3) unfolding good_def conforms_def
    by (cases "rs_body x") (simp_all, force+)
  with good show ?thesis unfolding Routed(4) answers_def by blast
qed (simp add: conforms_def)



subsection \<open>A request on its own\<close>

text \<open>The run of the server in which request \<open>i\<close> makes all its moves, with these environments and replies.\<close>

primrec schedule ::
  "nat \<Rightarrow> 's program \<Rightarrow> (nat \<Rightarrow> env) \<Rightarrow> (nat \<Rightarrow> reply) \<Rightarrow> nat \<Rightarrow> 's \<Rightarrow> sv_event list"
where
  "schedule i (Respond r) = (\<lambda>es rs n s. [])"
| "schedule i (Step f k) = (\<lambda>es rs n s.
     Advance i (es n) # schedule i (k (es n) s) es rs (Suc n) (f (es n) s))"
| "schedule i (Ask a t j k) = (\<lambda>es rs n s. Hand i # Answer i (rs n) # schedule i (k (rs n)) es rs (Suc n) s)"
| "schedule i (Await k) = (\<lambda>es rs n s. Answer i (rs n) # schedule i (k (rs n)) es rs (Suc n) s)"
| "schedule i (Kick a p) = (\<lambda>es rs n s. Cut i # schedule i p es rs n s)"

lemma override_twice [simp]:
  "(\<lambda>a. if a = i then x else if a = i then y else g a) = (\<lambda>a. if a = i then x else g a)"
  by auto

lemma schedule_moves: "list_all (moves i) (schedule i p es rs n s)"
proof (induction p arbitrary: n s rule: program_induct)
  case (less p)
  then show ?case by (cases p) (simp_all add: after_simps, blast+)
qed

lemma schedule_runs:
  "sv_threads v i = Some p \<Longrightarrow> run_program p es rs n (sv_site v) = (x, asked, s') \<Longrightarrow>
   sv_run A sha (schedule i p es rs n (sv_site v)) v =
     Some \<lparr>sv_site = s', sv_threads = (sv_threads v)(i \<mapsto> Respond x), sv_asked = sv_asked v @ asked\<rparr>"
proof (induction p arbitrary: n v asked rule: program_induct)
  case (less p)
  show ?case
  proof (cases p)
    case (Respond r)
    with less.prems show ?thesis by (cases v) (auto simp: fun_upd_idem)
  next
    case (Step f k)
    let ?v = "v\<lparr>sv_site := f (es n) (sv_site v), sv_threads := (sv_threads v)(i \<mapsto> k (es n) (sv_site v))\<rparr>"
    have "after (k (es n) (sv_site v)) p" by (auto simp: Step after_simps)
    from less.IH [OF this, of ?v "Suc n" asked] less.prems Step show ?thesis by simp
  next
    case (Ask a t j k)
    let ?v = "v\<lparr>sv_threads := (sv_threads v)(i \<mapsto> Await k), sv_asked := sv_asked v @ [(a, t, j)]\<rparr>"
    from less.prems Ask obtain asked' where "asked = (a, t, j) # asked'"
      "run_program (Await k) es rs n (sv_site v) = (x, asked', s')"
      by (auto split: prod.splits)
    with less.IH [of "Await k" ?v n asked'] less.prems Ask show ?thesis by (simp add: after_simps)
  next
    case (Await k)
    let ?v = "v\<lparr>sv_threads := (sv_threads v)(i \<mapsto> k (rs n))\<rparr>"
    have "after (k (rs n)) p" by (auto simp: Await after_simps)
    from less.IH [OF this, of ?v "Suc n" asked] less.prems Await show ?thesis by simp
  next
    case (Kick a q)
    let ?v = "v\<lparr>sv_threads := (sv_threads v)(i \<mapsto> q)\<rparr>"
    have "after q p" by (simp add: Kick after_simps)
    from less.IH [OF this, of ?v n asked] less.prems Kick show ?thesis by simp
  qed
qed

text \<open>Only the environments and the replies from \<open>n\<close> on matter.\<close>

lemma run_program_cong:
  "\<forall>m \<ge> n. es m = es' m \<and> rs m = rs' m \<Longrightarrow> run_program p es rs n s = run_program p es' rs' n s"
proof (induction p arbitrary: n s rule: program_induct)
  case (less p)
  show ?case
  proof (cases p)
    case (Step f k)
    have "run_program (k (es' n) s) es rs (Suc n) (f (es' n) s) =
        run_program (k (es' n) s) es' rs' (Suc n) (f (es' n) s)"
      by (rule less.IH) (use less.prems in \<open>auto simp: Step after_simps\<close>)
    with Step less.prems show ?thesis by simp
  next
    case (Ask a t j k)
    with less.IH [of "Await k" n s] less.prems show ?thesis by (simp add: after_simps)
  next
    case (Await k)
    have "run_program (k (rs' n)) es rs (Suc n) s = run_program (k (rs' n)) es' rs' (Suc n) s"
      by (rule less.IH) (use less.prems in \<open>auto simp: Await after_simps\<close>)
    with Await less.prems show ?thesis by simp
  qed (use less.IH less.prems in \<open>simp_all add: after_simps\<close>)
qed

lemma moves_run:
  "list_all (moves i) ds \<Longrightarrow> sv_run A sha ds v = Some w \<Longrightarrow> sv_threads v i = Some p \<Longrightarrow>
   sv_threads w i = Some (Respond x) \<Longrightarrow>
   \<exists>es rs asked. run_program p es rs n (sv_site v) = (x, asked, sv_site w) \<and>
     sv_asked w = sv_asked v @ asked \<and> sv_threads w = (sv_threads v)(i \<mapsto> Respond x)"
proof (induction ds arbitrary: v p n)
  case Nil
  then show ?case by (auto simp: fun_upd_idem)
next
  case (Cons d ds)
  then obtain u where u: "sv_step A sha d v = Some u" "sv_run A sha ds u = Some w" "moves i d"
    "list_all (moves i) ds" by (auto split: option.splits)
  note IH = Cons.IH [OF u(4,2) _ Cons.prems(4)]
  from sv_step_moves [OF u(1,3)] Cons.prems(3) obtain q where q: "sv_threads u i = Some q" "after q p" by auto
  show ?case
  proof (cases p)
    case (Step f k)
    with u(1,3) Cons.prems(3) obtain e where d: "d = Advance i e"
      "u = v\<lparr>sv_site := f e (sv_site v), sv_threads := (sv_threads v)(i \<mapsto> k e (sv_site v))\<rparr>"
      by (cases d) auto
    from IH [OF q(1), of "Suc n"] obtain es rs asked where
      r: "run_program q es rs (Suc n) (sv_site u) = (x, asked, sv_site w)"
        "sv_asked w = sv_asked u @ asked" "sv_threads w = (sv_threads u)(i \<mapsto> Respond x)" by blast
    have "run_program q (es(n := e)) rs (Suc n) (sv_site u) = run_program q es rs (Suc n) (sv_site u)"
      by (rule run_program_cong) simp
    with r d q(1) Step show ?thesis by (intro exI [of _ "es(n := e)"] exI [of _ rs] exI [of _ asked]) (simp add: fun_upd_def)
  next
    case (Ask a t j k)
    with u(1,3) Cons.prems(3) have d: "u = v\<lparr>sv_threads := (sv_threads v)(i \<mapsto> Await k),
        sv_asked := sv_asked v @ [(a, t, j)]\<rparr>"
      by (cases d) auto
    from IH [OF q(1), of n] obtain es rs asked where
      r: "run_program q es rs n (sv_site u) = (x, asked, sv_site w)"
        "sv_asked w = sv_asked u @ asked" "sv_threads w = (sv_threads u)(i \<mapsto> Respond x)" by blast
    with d q(1) Ask show ?thesis by (intro exI [of _ es] exI [of _ rs] exI [of _ "(a, t, j) # asked"]) auto
  next
    case (Await k)
    with u(1,3) Cons.prems(3) obtain y where d: "u = v\<lparr>sv_threads := (sv_threads v)(i \<mapsto> k y)\<rparr>"
      by (cases d) auto
    from IH [OF q(1), of "Suc n"] obtain es rs asked where
      r: "run_program q es rs (Suc n) (sv_site u) = (x, asked, sv_site w)"
        "sv_asked w = sv_asked u @ asked" "sv_threads w = (sv_threads u)(i \<mapsto> Respond x)" by blast
    have "run_program q es (rs(n := y)) (Suc n) (sv_site u) = run_program q es rs (Suc n) (sv_site u)"
      by (rule run_program_cong) simp
    with r d q(1) Await show ?thesis by (intro exI [of _ es] exI [of _ "rs(n := y)"] exI [of _ asked]) (simp add: fun_upd_def)
  next
    case (Kick a p')
    with u(1,3) Cons.prems(3) have d: "u = v\<lparr>sv_threads := (sv_threads v)(i \<mapsto> p')\<rparr>"
      by (cases d) auto
    from IH [OF q(1), of n] obtain es rs asked where
      r: "run_program q es rs n (sv_site u) = (x, asked, sv_site w)"
        "sv_asked w = sv_asked u @ asked" "sv_threads w = (sv_threads u)(i \<mapsto> Respond x)" by blast
    with d q(1) Kick show ?thesis by (intro exI [of _ es] exI [of _ rs] exI [of _ asked]) simp
  qed (use q(2) in \<open>simp add: after_simps\<close>)
qed


end
