(* ===== verification/WorkerClient.thy ===== *)
theory WorkerClient
  imports EventSpool "HOL-Library.Multiset"
begin

section \<open>The worker client\<close>

text \<open>
  \<^verbatim>\<open>internal/worker/client.go\<close>: the process next to a provider that holds the connection to the
  gateway. \<open>worker_step\<close> is one step of its goroutines: the collector of events, the connection with
  its select loop, the command handlers. Shown: an event that was taken over leaves the spool only
  after the gateway has acknowledged it, and is not sent twice on a connection before that; every
  command gets exactly one result, within the limits on concurrency; the loop can block for good.
\<close>

subsection \<open>Configuration\<close>

text \<open>
  \<open>cf_events\<close> and \<open>cf_handler\<close>: whether there is an event channel and a handler. What \<open>url.Parse\<close> and
  \<open>net.ParseIP\<close> find is a parameter: \<open>parse_url\<close> gives scheme, host and host name, \<open>loopback\<close> tells
  the addresses that are loopback addresses.
\<close>

record worker_config =
  cf_server :: string
  cf_platform :: string
  cf_version :: string
  cf_token :: string
  cf_credential_file :: string
  cf_event_spool_dir :: string
  cf_events :: bool
  cf_handler :: bool

definition is_loopback_host :: "(string \<Rightarrow> bool) \<Rightarrow> string \<Rightarrow> bool" where
  "is_loopback_host loopback host \<longleftrightarrow> host = ''localhost'' \<or> loopback host"

text \<open>The credential file is its content, or \<open>None\<close> when it cannot be read.\<close>

definition read_credential :: "string \<Rightarrow> string option \<Rightarrow> string" where
  "read_credential path file =
     (if path = [] then [] else case file of None \<Rightarrow> [] | Some content \<Rightarrow> trim_space content)"

definition write_credential ::
  "io_env \<Rightarrow> string \<Rightarrow> string \<Rightarrow> string option \<Rightarrow> (go_error + unit) \<times> string option"
where
  "write_credential e path credential file =
     (case attempt (fail_if (path = []) (NewError ''credential file is required after enrollment'')) (\<lambda>_.
           attempt (sys e 0 ''create credential directory'') (\<lambda>_.
           attempt (sys e 1 ''write worker credential'') (\<lambda>_.
           sys e 2 ''replace worker credential''))) of
        Inl err \<Rightarrow> (Inl err, file)
      | Inr _ \<Rightarrow> (Inr (), Some (credential @ [CHR 0x0A])))"

text \<open>\<open>New\<close>: the checks, the token the client starts with, and its spool.\<close>

definition new_worker ::
  "(string \<Rightarrow> (string \<times> string \<times> string) option) \<Rightarrow> (string \<Rightarrow> bool) \<Rightarrow> io_env \<Rightarrow> worker_config \<Rightarrow>
   string option \<Rightarrow> dir option \<Rightarrow> go_error + string \<times> dir option"
where
  "new_worker parse_url loopback e cfg file present =
     attempt (fail_if (cf_server cfg = [] \<or> cf_platform cfg = [] \<or> cf_version cfg = [])
       (NewError ''server, platform, and version are required'')) (\<lambda>_.
     attempt (fail_if (\<not> cf_handler cfg) (NewError ''command handler is required'')) (\<lambda>_.
     attempt (case parse_url (cf_server cfg) of
         Some (scheme, host, hostname) \<Rightarrow>
           if scheme \<in> {''ws'', ''wss''} \<and> host \<noteq> [] then Inr (scheme, hostname)
           else Inl (NewError ''server must be a valid ws or wss URL'')
       | None \<Rightarrow> Inl (NewError ''server must be a valid ws or wss URL'')) (\<lambda>(scheme, hostname).
     attempt (fail_if (scheme \<noteq> ''wss'' \<and> \<not> is_loopback_host loopback hostname)
       (NewError ''worker credentials require wss outside localhost'')) (\<lambda>_.
     let credential = read_credential (cf_credential_file cfg) file;
         token = (if credential \<noteq> [] then credential else cf_token cfg)
     in
     attempt (fail_if (token = [])
       (NewError ''enrollment token or stored worker credential is required'')) (\<lambda>_.
     if cf_events cfg then
       attempt (new_event_spool e
         (if cf_event_spool_dir cfg = [] then cf_credential_file cfg @ ''-events''
          else cf_event_spool_dir cfg) present) (\<lambda>d.
       Inr (token, Some d))
     else Inr (token, None))))))"

subsection \<open>State\<close>

text \<open>
  A connection after the handshake, the locals of \<open>connect\<close>. A task is a goroutine that holds a slot
  of \<open>concurrency\<close>: its handler runs, it has a result to report, or it has reported it. \<open>ss_blocked\<close> is
  the result the loop itself is waiting to put into the full channel. The frames written are kept
  with what they are.
\<close>

datatype task = Handling envelope | Reporting envelope | Leaving

datatype frame = EventFrame envelope | ResultFrame envelope | BeatFrame envelope

record session =
  ss_generation :: "64 word"
  ss_sent :: "string set"
  ss_results :: "envelope list"
  ss_tasks :: "task list"
  ss_blocked :: "envelope option"
  ss_commands :: "envelope list"
  ss_written :: "frame list"

datatype link_phase = Waiting | Online session | Stopped go_error

text \<open>
  \<open>wk_hand\<close> is the event the collector has taken and not yet spooled; \<open>wk_collecting\<close>: it still runs.
\<close>

record worker_client =
  wk_token :: string
  wk_file :: "string option"
  wk_spool :: "dir option"
  wk_notify :: bool
  wk_hand :: "envelope option"
  wk_collecting :: bool
  wk_phase :: link_phase

subsection \<open>The connection\<close>

definition decode_generation :: "(string \<times> json) list \<Rightarrow> 64 word option" where
  "decode_generation ms =
     foldl (\<lambda>g (k, j). if fold_key k = fold_key ''generation'' then
         (case j of
            JNum n \<Rightarrow> if g \<noteq> None \<and> 0 \<le> n \<and> n < 2 ^ 64 then Some (word_of_int n) else None
          | JNull \<Rightarrow> g
          | _ \<Rightarrow> None)
       else g) (Some 0) ms"

fun decode_ready :: "json \<Rightarrow> ready option" where
  "decode_ready (JObj ms) =
     Option.bind (decode_string ''account_id'' [] ms) (\<lambda>account_id.
     Option.bind (decode_string ''worker_id'' [] ms) (\<lambda>worker_id.
     Option.bind (decode_string ''credential'' [] ms) (\<lambda>credential.
     Option.bind (decode_generation ms) (\<lambda>generation.
     Some \<lparr>ready_account_id = account_id, ready_worker_id = worker_id,
       ready_credential = credential, ready_generation = generation\<rparr>))))"
| "decode_ready JNull = Some \<lparr>ready_account_id = [], ready_worker_id = [], ready_credential = [],
     ready_generation = 0\<rparr>"
| "decode_ready _ = None"

definition hello_envelope :: "worker_config \<Rightarrow> string \<Rightarrow> envelope" where
  "hello_envelope cfg token = empty_envelope\<lparr>env_version := Version, env_type := TypeHello,
     env_payload := Some (encode_hello
       \<lparr>hello_token = token, hello_platform = cf_platform cfg, hello_version = cf_version cfg\<rparr>)\<rparr>"

text \<open>
  What the dial, the write of the hello frame and the first read give, the system calls of the
  credential file and of the spool, and the writes of the pending events.
\<close>

record dial_env =
  de_dial :: "go_error option"
  de_hello :: "go_error option"
  de_ready :: "go_error + envelope"
  de_file :: io_env
  de_spool :: io_env
  de_write :: "nat \<Rightarrow> go_error option"

text \<open>The ready frame.\<close>

definition read_ready :: "go_error + envelope \<Rightarrow> go_error + ready" where
  "read_ready frame =
     attempt frame (\<lambda>v.
     attempt (case env_error v of
         Some err \<Rightarrow> Inl (NewError (pe_code err @ '': '' @ pe_message err))
       | None \<Rightarrow> Inr ()) (\<lambda>_.
     attempt (fail_if (validate v \<noteq> Inr () \<or> env_type v \<noteq> TypeReady)
       (NewError ''server did not return a valid ready envelope'')) (\<lambda>_.
     decode_payload decode_ready v)))"

definition failed :: "go_error option \<Rightarrow> go_error + unit" where
  "failed fault = (case fault of None \<Rightarrow> Inr () | Some err \<Rightarrow> Inl err)"

text \<open>\<open>sendPendingEvents\<close>; \<open>k\<close> numbers the writes.\<close>

fun send_events ::
  "(nat \<Rightarrow> go_error option) \<Rightarrow> nat \<Rightarrow> envelope list \<Rightarrow> session \<Rightarrow> (go_error + unit) \<times> session"
where
  "send_events fault k [] s = (Inr (), s)"
| "send_events fault k (event # events) s =
     (if env_id event \<in> ss_sent s then send_events fault k events s
      else case fault k of
        Some err \<Rightarrow> (Inl err, s)
      | None \<Rightarrow> send_events fault (k + 1) events
          (s\<lparr>ss_written := ss_written s @ [EventFrame (event\<lparr>env_generation := ss_generation s\<rparr>)],
             ss_sent := insert (env_id event) (ss_sent s)\<rparr>))"

definition send_pending_events ::
  "io_env \<Rightarrow> (nat \<Rightarrow> go_error option) \<Rightarrow> dir option \<Rightarrow> session \<Rightarrow> (go_error + unit) \<times> session"
where
  "send_pending_events e fault spool s =
     (case spool of
        None \<Rightarrow> (Inr (), s)
      | Some d \<Rightarrow>
          (case pending_events e d of
             Inl err \<Rightarrow> (Inl err, s)
           | Inr events \<Rightarrow> send_events fault 0 events s))"

definition new_session :: "64 word \<Rightarrow> session" where
  "new_session generation = \<lparr>ss_generation = generation, ss_sent = {}, ss_results = [], ss_tasks = [],
     ss_blocked = None, ss_commands = [], ss_written = []\<rparr>"

text \<open>
  The end of a connection, in \<open>Run\<close>: stop when the context is cancelled, otherwise connect again.
\<close>

definition disconnected :: "go_error \<Rightarrow> worker_client \<Rightarrow> worker_client" where
  "disconnected err c = c\<lparr>wk_phase := if errors_is err ErrContextCanceled then Stopped err else Waiting\<rparr>"

text \<open>The session after an operation that may have ended it.\<close>

definition continue :: "(go_error + unit) \<times> session \<Rightarrow> worker_client \<Rightarrow> worker_client" where
  "continue result c =
     (case result of
        (Inl err, s) \<Rightarrow> disconnected err c
      | (Inr _, s) \<Rightarrow> c\<lparr>wk_phase := Online s\<rparr>)"

text \<open>\<open>connect\<close> up to its loop.\<close>

definition connect :: "worker_config \<Rightarrow> dial_env \<Rightarrow> worker_client \<Rightarrow> worker_client" where
  "connect cfg e c =
     (case attempt (failed (de_dial e)) (\<lambda>_. attempt (failed (de_hello e)) (\<lambda>_. read_ready (de_ready e))) of
        Inl err \<Rightarrow> disconnected err c
      | Inr ready \<Rightarrow>
          (case (if ready_credential ready = [] then (Inr (), wk_file c)
                 else write_credential (de_file e) (cf_credential_file cfg) (ready_credential ready) (wk_file c)) of
             (Inl err, file) \<Rightarrow> disconnected err (c\<lparr>wk_file := file\<rparr>)
           | (Inr _, file) \<Rightarrow>
               let c = c\<lparr>wk_file := file,
                   wk_token := if ready_credential ready = [] then wk_token c else ready_credential ready\<rparr>
               in continue (send_pending_events (de_spool e) (de_write e) (wk_spool c)
                    (new_session (ready_generation ready))) c))"

subsection \<open>The select loop\<close>

definition busy_result :: "session \<Rightarrow> envelope \<Rightarrow> envelope" where
  "busy_result s command = empty_envelope\<lparr>env_version := Version, env_id := env_id command,
     env_type := env_type command, env_generation := ss_generation s, env_status := ''error'',
     env_error := Some \<lparr>pe_code = ''worker_busy'',
       pe_message = ''worker is already handling its command limit''\<rparr>\<rparr>"

text \<open>The envelope of what \<open>HandleCommand\<close> returned: a payload (or its marshalling error), or an error.\<close>

definition command_result ::
  "session \<Rightarrow> envelope \<Rightarrow> protocol_error + (go_error + json) \<Rightarrow> envelope"
where
  "command_result s command outcome =
     (let result = empty_envelope\<lparr>env_version := Version, env_id := env_id command,
            env_type := env_type command, env_generation := ss_generation s\<rparr>
      in case outcome of
        Inl command_error \<Rightarrow> result\<lparr>env_status := ''error'', env_error := Some command_error\<rparr>
      | Inr payload \<Rightarrow>
          (case new_envelope (env_type command) payload of
             Inl marshal_error \<Rightarrow> result\<lparr>env_status := ''error'',
               env_error := Some \<lparr>pe_code = ''encode_failed'',
                 pe_message = ''worker failed to encode command result''\<rparr>\<rparr>
           | Inr success \<Rightarrow> result\<lparr>env_status := ''ok'', env_payload := env_payload success\<rparr>))"

text \<open>The capacity of \<open>results\<close> and of \<open>concurrency\<close>.\<close>

definition results_capacity :: nat where "results_capacity = 16"
definition command_limit :: nat where "command_limit = 4"

text \<open>A frame that is a command: a free slot starts its handler, otherwise the loop reports that it is busy.\<close>

definition take_command :: "envelope \<Rightarrow> session \<Rightarrow> session" where
  "take_command command s =
     (let s = s\<lparr>ss_commands := ss_commands s @ [command]\<rparr> in
      if length (ss_tasks s) < command_limit then s\<lparr>ss_tasks := ss_tasks s @ [Handling command]\<rparr>
      else if length (ss_results s) < results_capacity then
        s\<lparr>ss_results := ss_results s @ [busy_result s command]\<rparr>
      else s\<lparr>ss_blocked := Some (busy_result s command)\<rparr>)"

text \<open>The branch of \<open>incoming\<close>. An acknowledgement without a spool dereferences a nil pointer.\<close>

definition receive :: "io_env \<Rightarrow> envelope \<Rightarrow> session \<Rightarrow> worker_client \<Rightarrow> worker_client" where
  "receive e v s c =
     (if env_type v = TypeEventAck \<and> env_id v \<noteq> [] then
        if env_status v = ''ok'' then
          (case wk_spool c of
             None \<Rightarrow> c\<lparr>wk_phase := Stopped (Panic ''nil pointer dereference'')\<rparr>
           | Some d \<Rightarrow>
               (case ack_event e (env_id v) d of
                  (Inl err, d') \<Rightarrow> disconnected err (c\<lparr>wk_spool := Some d'\<rparr>)
                | (Inr _, d') \<Rightarrow> c\<lparr>wk_spool := Some d',
                    wk_phase := Online (s\<lparr>ss_sent := ss_sent s - {env_id v}\<rparr>)\<rparr>))
        else c
      else if env_id v = [] then c
      else c\<lparr>wk_phase := Online (take_command v s)\<rparr>)"

text \<open>
  One step. \<open>Offer\<close> hands an event to the collector, \<open>Spool\<close> is its next attempt to append it;
  \<open>Dial\<close> is \<open>connect\<close> up to the loop; \<open>Receive\<close>, \<open>Lost\<close>, \<open>Write\<close>, \<open>Notified\<close>, \<open>Beat\<close> are the branches of
  the loop (\<open>Lost\<close>: a read error, the closed channel, or the end of the context); \<open>Finish\<close>, \<open>Report\<close>
  and \<open>Release\<close> are steps of the task in a slot, \<open>Unblock\<close> the loop's own send going through; \<open>Cancel\<close>
  and \<open>StopCollecting\<close> are the end of the context seen by \<open>Run\<close> between two connections and by the
  collector. \<open>None\<close>: the step is not possible.
\<close>

datatype client_event =
    Offer envelope
  | Spool io_env
  | Dial dial_env
  | Receive io_env envelope
  | Lost go_error
  | Write "go_error option"
  | Notified io_env "nat \<Rightarrow> go_error option"
  | Beat "go_error option"
  | Finish nat "protocol_error + (go_error + json)"
  | Report nat
  | Release nat
  | Unblock
  | Cancel
  | StopCollecting

definition online :: "worker_client \<Rightarrow> (session \<Rightarrow> worker_client option) \<Rightarrow> worker_client option" where
  "online c f = (case wk_phase c of Online s \<Rightarrow> f s | _ \<Rightarrow> None)"

text \<open>A branch of the loop: possible unless the loop is blocked.\<close>

definition in_loop :: "worker_client \<Rightarrow> (session \<Rightarrow> worker_client option) \<Rightarrow> worker_client option" where
  "in_loop c f = online c (\<lambda>s. if ss_blocked s \<noteq> None then None else f s)"

definition collect_step :: "io_env \<Rightarrow> worker_client \<Rightarrow> worker_client option" where
  "collect_step e c =
     (case (wk_hand c, wk_spool c) of
        (Some event, Some d) \<Rightarrow>
          (case append_event e event d of
             (Inr _, d') \<Rightarrow> Some (c\<lparr>wk_spool := Some d', wk_hand := None, wk_notify := True\<rparr>)
           | (Inl err, d') \<Rightarrow>
               Some (c\<lparr>wk_spool := Some d', wk_collecting := \<not> errors_is err ErrContextCanceled\<rparr>))
      | _ \<Rightarrow> None)"

definition task_step :: "nat \<Rightarrow> session \<Rightarrow> (session \<Rightarrow> task \<Rightarrow> session option) \<Rightarrow> worker_client \<Rightarrow> worker_client option"
where
  "task_step i s f c =
     (if i < length (ss_tasks s) then
        map_option (\<lambda>s. c\<lparr>wk_phase := Online s\<rparr>) (f s (ss_tasks s ! i))
      else None)"

definition set_task :: "nat \<Rightarrow> task \<Rightarrow> session \<Rightarrow> session" where
  "set_task i t s = s\<lparr>ss_tasks := (ss_tasks s)[i := t]\<rparr>"

definition drop_task :: "nat \<Rightarrow> session \<Rightarrow> session" where
  "drop_task i s = s\<lparr>ss_tasks := take i (ss_tasks s) @ drop (Suc i) (ss_tasks s)\<rparr>"

fun worker_step :: "worker_config \<Rightarrow> client_event \<Rightarrow> worker_client \<Rightarrow> worker_client option" where
  "worker_step cfg (Offer event) c =
     (if wk_spool c = None \<or> \<not> wk_collecting c \<or> wk_hand c \<noteq> None then None
      else Some (c\<lparr>wk_hand := Some event\<rparr>))"
| "worker_step cfg (Spool e) c = (if wk_collecting c then collect_step e c else None)"
| "worker_step cfg (Dial e) c = (case wk_phase c of Waiting \<Rightarrow> Some (connect cfg e c) | _ \<Rightarrow> None)"
| "worker_step cfg (Receive e v) c = in_loop c (\<lambda>s. Some (receive e v s c))"
| "worker_step cfg (Lost err) c = in_loop c (\<lambda>s. Some (disconnected err c))"
| "worker_step cfg (Write fault) c = in_loop c (\<lambda>s.
     case ss_results s of
       [] \<Rightarrow> None
     | r # rs \<Rightarrow> Some (continue (failed fault,
         s\<lparr>ss_results := rs, ss_written := ss_written s @ [ResultFrame r]\<rparr>) c))"
| "worker_step cfg (Notified e fault) c = in_loop c (\<lambda>s.
     if wk_notify c then
       Some (continue (send_pending_events e fault (wk_spool c) s) (c\<lparr>wk_notify := False\<rparr>))
     else None)"
| "worker_step cfg (Beat fault) c = in_loop c (\<lambda>s.
     Some (continue (failed fault, s\<lparr>ss_written := ss_written s @ [BeatFrame (empty_envelope
       \<lparr>env_version := Version, env_type := TypeHeartbeat, env_generation := ss_generation s\<rparr>)]\<rparr>) c))"
| "worker_step cfg (Finish i outcome) c = online c (\<lambda>s. task_step i s (\<lambda>s t.
     case t of
       Handling command \<Rightarrow> Some (set_task i (Reporting (command_result s command outcome)) s)
     | _ \<Rightarrow> None) c)"
| "worker_step cfg (Report i) c = online c (\<lambda>s. task_step i s (\<lambda>s t.
     case t of
       Reporting result \<Rightarrow>
         if length (ss_results s) < results_capacity then
           Some (set_task i Leaving (s\<lparr>ss_results := ss_results s @ [result]\<rparr>))
         else None
     | _ \<Rightarrow> None) c)"
| "worker_step cfg (Release i) c = online c (\<lambda>s. task_step i s (\<lambda>s t.
     case t of Leaving \<Rightarrow> Some (drop_task i s) | _ \<Rightarrow> None) c)"
| "worker_step cfg Unblock c = online c (\<lambda>s.
     case ss_blocked s of
       Some r \<Rightarrow>
         if length (ss_results s) < results_capacity then
           Some (c\<lparr>wk_phase := Online (s\<lparr>ss_blocked := None, ss_results := ss_results s @ [r]\<rparr>)\<rparr>)
         else None
     | None \<Rightarrow> None)"
| "worker_step cfg Cancel c =
     (case wk_phase c of Waiting \<Rightarrow> Some (c\<lparr>wk_phase := Stopped ErrContextCanceled\<rparr>) | _ \<Rightarrow> None)"
| "worker_step cfg StopCollecting c = Some (c\<lparr>wk_collecting := False\<rparr>)"

fun worker_run :: "worker_config \<Rightarrow> client_event list \<Rightarrow> worker_client \<Rightarrow> worker_client option" where
  "worker_run cfg [] c = Some c"
| "worker_run cfg (e # es) c =
     (case worker_step cfg e c of None \<Rightarrow> None | Some c' \<Rightarrow> worker_run cfg es c')"

definition new_client_of :: "string \<Rightarrow> string option \<Rightarrow> dir option \<Rightarrow> worker_client" where
  "new_client_of token file spool = \<lparr>wk_token = token, wk_file = file, wk_spool = spool,
     wk_notify = False, wk_hand = None, wk_collecting = (spool \<noteq> None), wk_phase = Waiting\<rparr>"

subsection \<open>Reconnecting\<close>

text \<open>
  The delays of \<open>Run\<close>: \<open>elapsed\<close> is how long the connection has lasted, \<open>jitter\<close> the random number
  below the backoff. The result is the delay and the next backoff.
\<close>

definition reconnect :: "int \<Rightarrow> int \<Rightarrow> int \<Rightarrow> int \<times> int" where
  "reconnect elapsed jitter backoff =
     (let backoff = (if elapsed \<ge> minute then second else backoff) in
      (backoff + jitter, if backoff < 30 * second then backoff * 2 else backoff))"

fun reconnects :: "(int \<times> int) list \<Rightarrow> int \<Rightarrow> int list" where
  "reconnects [] backoff = []"
| "reconnects ((elapsed, jitter) # rest) backoff =
     (case reconnect elapsed jitter backoff of (delay, backoff') \<Rightarrow> delay # reconnects rest backoff')"

text \<open>\<open>rand.Int64N\<close>: every random number is below the backoff it is drawn for.\<close>

fun jitters_ok :: "(int \<times> int) list \<Rightarrow> int \<Rightarrow> bool" where
  "jitters_ok [] backoff \<longleftrightarrow> True"
| "jitters_ok ((elapsed, jitter) # rest) backoff \<longleftrightarrow>
     0 \<le> jitter \<and> jitter < (if elapsed \<ge> minute then second else backoff) \<and>
     jitters_ok rest (snd (reconnect elapsed jitter backoff))"

text \<open>
  However often and however fast connections fail, the next attempt follows after at least a second
  and less than 64 seconds.
\<close>

lemma reconnect_backoff:
  assumes "k \<in> {1, 2, 4, 8, 16, 32}"
  shows "\<exists>k' \<in> {1, 2, 4, 8, 16, 32}. snd (reconnect elapsed jitter (k * second)) = k' * second"
  using assms by (auto simp: reconnect_def Let_def second_def)

theorem reconnect_within_bounds:
  assumes "jitters_ok xs second" "d \<in> set (reconnects xs second)"
  shows "second \<le> d \<and> d < 64 * second"
proof -
  have "second \<le> d \<and> d < 64 * second"
    if "jitters_ok xs (k * second)" "d \<in> set (reconnects xs (k * second))" "k \<in> {1, 2, 4, 8, 16, 32}" for k
    using that
  proof (induction xs arbitrary: k)
    case (Cons x xs)
    obtain elapsed jitter where x: "x = (elapsed, jitter)" by (cases x)
    obtain delay backoff where r: "reconnect elapsed jitter (k * second) = (delay, backoff)" by force
    from reconnect_backoff [OF Cons.prems(3), of elapsed jitter] obtain k' where
      "k' \<in> {1, 2, 4, 8, 16, 32}" "snd (reconnect elapsed jitter (k * second)) = k' * second" by blast
    then have k': "backoff = k' * second" "k' \<in> {1, 2, 4, 8, 16, 32}" by (simp_all only: r snd_conv)
    have "second \<le> delay \<and> delay < 64 * second"
      using Cons.prems(1,3) r by (auto simp: x reconnect_def Let_def second_def split: if_splits)
    moreover have "d = delay \<or> second \<le> d \<and> d < 64 * second"
      using Cons.IH [OF _ _ k'(2)] Cons.prems(1,2) unfolding x by (auto simp: r k'(1))
    ultimately show ?case by blast
  qed simp
  from this [of 1] assms show ?thesis by simp
qed

subsection \<open>Steps and the spool\<close>

definition ack_frame :: "envelope \<Rightarrow> bool" where
  "ack_frame v \<longleftrightarrow> env_type v = TypeEventAck \<and> env_id v \<noteq> [] \<and> env_status v = ''ok''"

fun ok_acks :: "client_event list \<Rightarrow> string set" where
  "ok_acks [] = {}"
| "ok_acks (Receive e v # es) = (if ack_frame v then insert (env_id v) (ok_acks es) else ok_acks es)"
| "ok_acks (_ # es) = ok_acks es"

lemma ok_acks_append [simp]: "ok_acks (xs @ ys) = ok_acks xs \<union> ok_acks ys"
  by (induction xs rule: ok_acks.induct) auto

lemma disconnected_simps [simp]:
  "wk_spool (disconnected err c) = wk_spool c" "wk_hand (disconnected err c) = wk_hand c"
  "wk_collecting (disconnected err c) = wk_collecting c" "wk_phase (disconnected err c) \<noteq> Online s"
  by (simp_all add: disconnected_def)

lemma continue_simps [simp]:
  "wk_spool (continue r c) = wk_spool c" "wk_hand (continue r c) = wk_hand c"
  by (simp_all add: continue_def split: prod.split sum.split)

lemma connect_simps [simp]: "wk_spool (connect cfg e c) = wk_spool c" "wk_hand (connect cfg e c) = wk_hand c"
  by (simp_all add: connect_def Let_def split: sum.split prod.split)

lemma worker_step_spool:
  assumes "worker_step cfg e c = Some c'" "wk_spool c = Some d"
  obtains (Same) "wk_spool c' = Some d" "wk_hand c' = wk_hand c" "\<And>ev. e \<noteq> Offer ev" "ok_acks [e] = {}"
  | (Offer) ev where "e = Offer ev" "wk_hand c = None" "wk_hand c' = Some ev" "wk_spool c' = Some d"
  | (Spool) io ev r d' where "e = Spool io" "wk_hand c = Some ev" "append_event io ev d = (r, d')"
      "wk_spool c' = Some d'" "wk_hand c' = (if r = Inr () then None else Some ev)"
  | (Ack) io v r d' where "e = Receive io v" "ack_frame v" "ack_event io (env_id v) d = (r, d')"
      "wk_spool c' = Some d'" "wk_hand c' = wk_hand c"
proof (cases e)
  case (Offer ev)
  then show ?thesis using assms that(2) by (auto split: if_splits)
next
  case (Spool io)
  with assms obtain ev r d' where "wk_hand c = Some ev" "append_event io ev d = (r, d')"
    "wk_spool c' = Some d'" "wk_hand c' = (if r = Inr () then None else Some ev)"
    by (auto simp: collect_step_def split: if_splits option.splits prod.splits sum.splits)
  with Spool show ?thesis using that(3) by blast
next
  case (Receive io v)
  with assms obtain s where s: "wk_phase c = Online s" "c' = receive io v s c"
    by (auto simp: in_loop_def online_def split: link_phase.splits if_splits)
  show ?thesis
  proof (cases "ack_frame v")
    case True
    obtain r d' where ack: "ack_event io (env_id v) d = (r, d')" by force
    with True s assms(2) show ?thesis using that(4) [OF Receive True ack]
      by (simp add: receive_def ack_frame_def split: sum.splits)
  next
    case False
    with s assms(2) Receive show ?thesis using that(1)
      by (simp add: receive_def ack_frame_def split: if_splits)
  qed
qed (use assms that(1) in \<open>auto simp: in_loop_def online_def task_step_def
    split: link_phase.splits if_splits list.splits option.splits\<close>)

lemma worker_run_append:
  "worker_run cfg (xs @ ys) c = (case worker_run cfg xs c of None \<Rightarrow> None | Some c' \<Rightarrow> worker_run cfg ys c')"
  by (induction xs arbitrary: c) (auto split: option.split)

text \<open>What the collector and the spool keep.\<close>

definition numberless :: "envelope option \<Rightarrow> bool" where
  "numberless hand \<longleftrightarrow> (\<forall>ev. hand = Some ev \<longrightarrow> env_id ev = [])"

lemma worker_step_kept:
  assumes step: "worker_step cfg e c = Some c'" and c: "wk_spool c = Some d" "spool_ok d" "numberless (wk_hand c)"
    and fresh: "\<And>ev. e = Offer ev \<Longrightarrow> env_id ev = []"
  obtains d' where "wk_spool c' = Some d'" "spool_ok d'" "numberless (wk_hand c')"
    "\<And>v. v \<in> set (spool_queue d) \<Longrightarrow> env_id v \<notin> ok_acks [e] \<Longrightarrow> v \<in> set (spool_queue d')"
    "\<And>ev. wk_hand c = Some ev \<Longrightarrow> wk_hand c' = Some ev \<or> (\<exists>i. ev\<lparr>env_id := i\<rparr> \<in> set (spool_queue d'))"
  using step c(1)
proof (cases rule: worker_step_spool)
  case Same
  with c that show ?thesis by auto
next
  case (Offer ev)
  with c fresh that show ?thesis by (auto simp: numberless_def)
next
  case (Spool io ev r d')
  then have "env_id ev = []" using c(3) by (simp add: numberless_def)
  from spool.append_law [OF c(2) this Spool(3)] obtain i where d': "spool_ok d'"
    "spool_queue d' \<in> {spool_queue d, spool_queue d @ [ev\<lparr>env_id := i\<rparr>]}"
    "r = Inr () \<longrightarrow> spool_queue d' = spool_queue d @ [ev\<lparr>env_id := i\<rparr>]" by blast
  show ?thesis
  proof (rule that)
    show "numberless (wk_hand c')" using Spool c(3) by (simp add: numberless_def)
    show "v \<in> set (spool_queue d')" if "v \<in> set (spool_queue d)" for v
      using that d'(2) by auto
    show "wk_hand c' = Some w \<or> (\<exists>i. w\<lparr>env_id := i\<rparr> \<in> set (spool_queue d'))" if "wk_hand c = Some w" for w
      using that Spool d'(3) by (cases "r = Inr ()") auto
  qed (use Spool d' in simp_all)
next
  case (Ack io v r d')
  from spool.ack_law [OF c(2) Ack(3)] have d': "spool_ok d'"
    "spool_queue d' \<in> {spool_queue d, filter (\<lambda>event. env_id event \<noteq> env_id v) (spool_queue d)}" by blast+
  show ?thesis
  proof (rule that)
    show "w \<in> set (spool_queue d')" if "w \<in> set (spool_queue d)" "env_id w \<notin> ok_acks [e]" for w
      using that d'(2) Ack(1,2) by auto
  qed (use Ack d' c(3) in simp_all)
qed

lemma worker_run_kept:
  assumes "worker_run cfg es c = Some c'" "wk_spool c = Some d" "spool_ok d" "numberless (wk_hand c)"
    and "\<forall>ev. Offer ev \<in> set es \<longrightarrow> env_id ev = []"
  shows "\<exists>d'. wk_spool c' = Some d' \<and> spool_ok d' \<and> numberless (wk_hand c') \<and>
    (\<forall>v \<in> set (spool_queue d). env_id v \<notin> ok_acks es \<longrightarrow> v \<in> set (spool_queue d'))"
  using assms
proof (induction es arbitrary: c d)
  case (Cons e es)
  from Cons.prems(1) obtain b where b: "worker_step cfg e c = Some b" "worker_run cfg es b = Some c'"
    by (auto split: option.splits)
  from worker_step_kept [OF b(1) Cons.prems(2-4)] Cons.prems(5) obtain d1 where d1:
    "wk_spool b = Some d1" "spool_ok d1" "numberless (wk_hand b)"
    "\<And>v. v \<in> set (spool_queue d) \<Longrightarrow> env_id v \<notin> ok_acks [e] \<Longrightarrow> v \<in> set (spool_queue d1)"
    by (metis list.set_intros(1))
  have "ok_acks (e # es) = ok_acks [e] \<union> ok_acks es" using ok_acks_append [of "[e]" es] by simp
  with Cons.IH [OF b(2) d1(1-3)] Cons.prems(5) d1(4) show ?case by fastforce
qed auto

text \<open>The event in the collector's hand.\<close>

lemma held_event_spooled:
  assumes "worker_run cfg es c = Some c'" "wk_spool c = Some d" "spool_ok d" "wk_hand c = Some ev"
    and "env_id ev = []" "\<forall>ev. Offer ev \<in> set es \<longrightarrow> env_id ev = []"
  shows "wk_hand c' = Some ev \<or>
    (\<exists>es1 es2 b d1 i. es = es1 @ es2 \<and> worker_run cfg es1 c = Some b \<and> worker_run cfg es2 b = Some c' \<and>
       wk_spool b = Some d1 \<and> spool_ok d1 \<and> numberless (wk_hand b) \<and> ev\<lparr>env_id := i\<rparr> \<in> set (spool_queue d1))"
  using assms
proof (induction es arbitrary: c d)
  case (Cons e es)
  from Cons.prems(1) obtain b where b: "worker_step cfg e c = Some b" "worker_run cfg es b = Some c'"
    by (auto split: option.splits)
  have "numberless (wk_hand c)" using Cons.prems by (simp add: numberless_def)
  from worker_step_kept [OF b(1) Cons.prems(2,3) this] Cons.prems(4,6) obtain d1 where d1:
    "wk_spool b = Some d1" "spool_ok d1" "numberless (wk_hand b)"
    "wk_hand b = Some ev \<or> (\<exists>i. ev\<lparr>env_id := i\<rparr> \<in> set (spool_queue d1))"
    by (metis list.set_intros(1))
  from d1(4) show ?case
  proof
    assume held: "wk_hand b = Some ev"
    have "\<forall>ev. Offer ev \<in> set es \<longrightarrow> env_id ev = []" using Cons.prems(6) by simp
    from Cons.IH [OF b(2) d1(1,2) held Cons.prems(5) this] show ?thesis
    proof (elim disjE exE conjE)
      fix es1 es2 b' d' i
      assume "es = es1 @ es2" "worker_run cfg es1 b = Some b'" "worker_run cfg es2 b' = Some c'"
        "wk_spool b' = Some d'" "spool_ok d'" "numberless (wk_hand b')" "ev\<lparr>env_id := i\<rparr> \<in> set (spool_queue d')"
      then show ?thesis using b(1)
        by (intro disjI2 exI [of _ "e # es1"] exI [of _ es2] exI [of _ b'] exI [of _ d'] exI [of _ i]) simp
    qed auto
  next
    assume "\<exists>i. ev\<lparr>env_id := i\<rparr> \<in> set (spool_queue d1)"
    then show ?thesis using b d1(1-3)
      by (intro disjI2 exI [of _ "[e]"] exI [of _ es] exI [of _ b] exI [of _ d1]) simp
  qed
qed simp

text \<open>
  No event is lost at the worker: an event that the provider handed to the client is, after any
  run - failing system calls, lost connections, reconnects - still being spooled, or waiting in the
  spool under the number it was given, or it was there and the gateway has since acknowledged
  exactly that number.
\<close>

theorem offered_event_kept:
  assumes "worker_run cfg es c = Some c'" "Offer ev \<in> set es"
    and "wk_spool c = Some d" "spool_ok d" "wk_hand c = None"
    and "\<forall>ev. Offer ev \<in> set es \<longrightarrow> env_id ev = []"
  shows "wk_hand c' = Some ev \<or>
    (\<exists>i d'. wk_spool c' = Some d' \<and> ev\<lparr>env_id := i\<rparr> \<in> set (spool_queue d')) \<or>
    (\<exists>es1 es2 b d1 i. es = es1 @ es2 \<and> worker_run cfg es1 c = Some b \<and> wk_spool b = Some d1 \<and>
       ev\<lparr>env_id := i\<rparr> \<in> set (spool_queue d1) \<and> i \<in> ok_acks es2)"
proof -
  from assms(2) obtain xs ys where es: "es = (xs @ [Offer ev]) @ ys" by (auto simp: in_set_conv_decomp)
  with assms(1) obtain b where b: "worker_run cfg (xs @ [Offer ev]) c = Some b" "worker_run cfg ys b = Some c'"
    unfolding es worker_run_append by (auto split: option.splits)
  have none: "numberless (wk_hand c)" using assms(5) by (simp add: numberless_def)
  have fresh: "env_id ev = []" "\<forall>ev. Offer ev \<in> set ys \<longrightarrow> env_id ev = []"
    "\<forall>w. Offer w \<in> set (xs @ [Offer ev]) \<longrightarrow> env_id w = []"
    using assms(6) unfolding es set_append by (blast intro: list.set_intros)+
  from worker_run_kept [OF b(1) assms(3,4) none fresh(3)] obtain d1 where
    d1: "wk_spool b = Some d1" "spool_ok d1" by (elim exE conjE)
  from b(1) obtain a where "worker_step cfg (Offer ev) a = Some b"
    by (simp add: worker_run_append split: option.splits)
  then have held: "wk_hand b = Some ev" by (auto split: if_splits)
  from held_event_spooled [OF b(2) d1 held fresh(1,2)] show ?thesis
  proof (elim disjE exE conjE)
    fix es1 es2 a d2 i
    assume *: "ys = es1 @ es2" "worker_run cfg es1 b = Some a" "worker_run cfg es2 a = Some c'"
      "wk_spool a = Some d2" "spool_ok d2" "numberless (wk_hand a)" "ev\<lparr>env_id := i\<rparr> \<in> set (spool_queue d2)"
    show ?thesis
    proof (cases "i \<in> ok_acks es2")
      case True
      moreover have "es = ((xs @ [Offer ev]) @ es1) @ es2" using es *(1) by simp
      moreover have "worker_run cfg ((xs @ [Offer ev]) @ es1) c = Some a"
        unfolding worker_run_append [of _ "xs @ [Offer ev]"] using b(1) *(2) by simp
      ultimately show ?thesis using *(4,7) by blast
    next
      case False
      have "\<forall>ev. Offer ev \<in> set es2 \<longrightarrow> env_id ev = []" using fresh(2) *(1) by simp
      from worker_run_kept [OF *(3-6) this] *(7) False show ?thesis by fastforce
    qed
  qed auto
qed

subsection \<open>Commands and results\<close>

fun results_of :: "frame list \<Rightarrow> envelope list" where
  "results_of [] = []"
| "results_of (ResultFrame r # fs) = r # results_of fs"
| "results_of (_ # fs) = results_of fs"

fun events_of :: "frame list \<Rightarrow> string list" where
  "events_of [] = []"
| "events_of (EventFrame v # fs) = env_id v # events_of fs"
| "events_of (_ # fs) = events_of fs"

lemma frame_lists_append [simp]:
  "results_of (xs @ ys) = results_of xs @ results_of ys" "events_of (xs @ ys) = events_of xs @ events_of ys"
  by (induction xs rule: results_of.induct) auto

definition tag :: "envelope \<Rightarrow> string \<times> string" where
  "tag v = (env_id v, env_type v)"

text \<open>The command a task still has to answer, and the results a session holds.\<close>

fun owed :: "task \<Rightarrow> (string \<times> string) multiset" where
  "owed (Handling command) = {#tag command#}"
| "owed (Reporting result) = {#tag result#}"
| "owed Leaving = {#}"

fun task_results :: "task \<Rightarrow> envelope set" where
  "task_results (Reporting result) = {result}"
| "task_results _ = {}"

definition unanswered :: "session \<Rightarrow> (string \<times> string) multiset" where
  "unanswered s = mset (map tag (ss_results s)) + sum_list (map owed (ss_tasks s)) +
     (case ss_blocked s of None \<Rightarrow> {#} | Some r \<Rightarrow> {#tag r#})"

definition held_results :: "session \<Rightarrow> envelope set" where
  "held_results s = set (results_of (ss_written s)) \<union> set (ss_results s) \<union>
     \<Union> (task_results ` set (ss_tasks s)) \<union> set_option (ss_blocked s)"

definition result_ok :: "session \<Rightarrow> envelope \<Rightarrow> bool" where
  "result_ok s r \<longleftrightarrow> env_generation r = ss_generation s \<and> env_status r \<in> {''ok'', ''error''} \<and>
     env_version r = Version \<and> (env_status r = ''error'' \<longleftrightarrow> env_error r \<noteq> None)"

definition session_ok :: "session \<Rightarrow> bool" where
  "session_ok s \<longleftrightarrow> length (ss_tasks s) \<le> command_limit \<and> length (ss_results s) \<le> results_capacity \<and>
     (ss_blocked s \<noteq> None \<longrightarrow> length (ss_results s) = results_capacity) \<and>
     mset (map tag (ss_commands s)) = mset (map tag (results_of (ss_written s))) + unanswered s \<and>
     (\<forall>r \<in> held_results s. result_ok s r)"

lemma result_ok_cong: "ss_generation t = ss_generation s \<Longrightarrow> result_ok t = result_ok s"
  by (simp add: result_ok_def fun_eq_iff)

lemma session_ok_cong:
  assumes "session_ok s" "ss_tasks t = ss_tasks s" "ss_results t = ss_results s" "ss_blocked t = ss_blocked s"
    "ss_commands t = ss_commands s" "results_of (ss_written t) = results_of (ss_written s)"
    "ss_generation t = ss_generation s"
  shows "session_ok t"
proof -
  have "unanswered t = unanswered s" "held_results t = held_results s"
    using assms(2-6) by (simp_all add: unanswered_def held_results_def)
  moreover have "result_ok t = result_ok s" by (rule result_ok_cong) (rule assms(7))
  ultimately show ?thesis using assms by (simp add: session_ok_def)
qed

lemma send_events_session:
  "send_events fault k events s = (r, t) \<Longrightarrow> ss_tasks t = ss_tasks s \<and> ss_results t = ss_results s \<and>
   ss_blocked t = ss_blocked s \<and> ss_commands t = ss_commands s \<and>
   results_of (ss_written t) = results_of (ss_written s) \<and> ss_generation t = ss_generation s"
  by (induction fault k events s rule: send_events.induct) (auto split: if_splits option.splits)

lemma send_pending_session:
  "send_pending_events e fault spool s = (r, t) \<Longrightarrow> session_ok s \<Longrightarrow> session_ok t"
  by (auto simp: send_pending_events_def split: option.splits sum.splits
      dest!: send_events_session intro: session_ok_cong)

lemma session_ok_new: "session_ok (new_session g)"
  by (simp add: session_ok_def new_session_def unanswered_def held_results_def)

lemma new_result_ok:
  "result_ok s (busy_result s command)" "result_ok s (command_result s command outcome)"
  "tag (busy_result s command) = tag command" "tag (command_result s command outcome) = tag command"
  by (auto simp: result_ok_def tag_def busy_result_def command_result_def Let_def empty_envelope_def
      split: sum.split)

lemma session_ok_take:
  assumes "session_ok s" "ss_blocked s = None"
  shows "session_ok (take_command command s)"
proof -
  have busy: "result_ok t (busy_result t command)" "tag (busy_result t command) = tag command" for t
    by (rule new_result_ok)+
  show ?thesis
    using assms busy [of s]
    by (auto simp: session_ok_def take_command_def Let_def unanswered_def held_results_def
        command_limit_def results_capacity_def result_ok_def tag_def busy_result_def)
qed

lemma task_split:
  assumes "i < length (ss_tasks s)"
  obtains xs ys where "ss_tasks s = xs @ ss_tasks s ! i # ys" "\<And>t. ss_tasks (set_task i t s) = xs @ t # ys"
    "ss_tasks (drop_task i s) = xs @ ys"
  using id_take_nth_drop [OF assms] upd_conv_take_nth_drop [OF assms]
  by (intro that [of "take i (ss_tasks s)" "drop (Suc i) (ss_tasks s)"]) (simp_all add: set_task_def drop_task_def)

lemma session_ok_task:
  assumes ok: "session_ok s" and i: "i < length (ss_tasks s)"
  shows "ss_tasks s ! i = Handling command \<Longrightarrow>
      session_ok (set_task i (Reporting (command_result s command outcome)) s)"
    and "ss_tasks s ! i = Reporting r \<Longrightarrow> length (ss_results s) < results_capacity \<Longrightarrow>
      session_ok (set_task i Leaving (s\<lparr>ss_results := ss_results s @ [r]\<rparr>))"
    and "ss_tasks s ! i = Leaving \<Longrightarrow> session_ok (drop_task i s)"
proof -
  obtain xs ys where split: "ss_tasks s = xs @ ss_tasks s ! i # ys"
    "\<And>t. ss_tasks (set_task i t s) = xs @ t # ys" "ss_tasks (drop_task i s) = xs @ ys"
    using task_split [OF i] by blast
  have split': "ss_tasks (set_task i t (s\<lparr>ss_results := rs\<rparr>)) = xs @ t # ys" for t rs
    using split(2) by (simp add: set_task_def)
  have rest: "ss_results (set_task i t u) = ss_results u" "ss_blocked (set_task i t u) = ss_blocked u"
    "ss_commands (set_task i t u) = ss_commands u" "ss_written (set_task i t u) = ss_written u"
    "ss_generation (set_task i t u) = ss_generation u"
    "ss_results (drop_task i u) = ss_results u" "ss_blocked (drop_task i u) = ss_blocked u"
    "ss_commands (drop_task i u) = ss_commands u" "ss_written (drop_task i u) = ss_written u"
    "ss_generation (drop_task i u) = ss_generation u" for t u
    by (simp_all add: set_task_def drop_task_def)
  note defs = session_ok_def unanswered_def held_results_def result_ok_def split(2,3) split' rest
  show "session_ok (set_task i (Reporting (command_result s command outcome)) s)"
    if "ss_tasks s ! i = Handling command"
    using ok split(1) that new_result_ok(2,4) [of s command outcome] by (auto simp: defs)
  show "session_ok (set_task i Leaving (s\<lparr>ss_results := ss_results s @ [r]\<rparr>))"
    if "ss_tasks s ! i = Reporting r" "length (ss_results s) < results_capacity"
    using ok split(1) that by (auto simp: defs)
  show "session_ok (drop_task i s)" if "ss_tasks s ! i = Leaving"
    using ok split(1) that by (auto simp: defs)
qed

text \<open>
  The events written on a connection: outside the acknowledged numbers \<open>A\<close> none is written twice.
\<close>

definition sent_ok :: "string set \<Rightarrow> session \<Rightarrow> bool" where
  "sent_ok A s \<longleftrightarrow> distinct (filter (\<lambda>i. i \<notin> A) (events_of (ss_written s))) \<and>
     set (events_of (ss_written s)) - A \<subseteq> ss_sent s"

lemma sent_ok_mono: "sent_ok A s \<Longrightarrow> A \<subseteq> B \<Longrightarrow> sent_ok B s"
proof -
  assume "sent_ok A s" "A \<subseteq> B"
  moreover have "filter (\<lambda>i. i \<notin> B) xs = filter (\<lambda>i. i \<notin> B) (filter (\<lambda>i. i \<notin> A) xs)" for xs :: "string list"
    using \<open>A \<subseteq> B\<close> by (induction xs) auto
  ultimately show ?thesis unfolding sent_ok_def by (metis Diff_mono distinct_filter order.trans subset_refl)
qed

lemma sent_ok_new: "sent_ok A (new_session g)"
  by (simp add: sent_ok_def new_session_def)

lemma sent_ok_events: "send_events fault k events s = (r, t) \<Longrightarrow> sent_ok A s \<Longrightarrow> sent_ok A t"
proof (induction fault k events s rule: send_events.induct)
  case (2 fault k event events s)
  show ?case
  proof (cases "env_id event \<in> ss_sent s \<or> fault k \<noteq> None")
    case True
    with 2 show ?thesis by (auto split: if_splits option.splits)
  next
    case False
    let ?s = "s\<lparr>ss_written := ss_written s @ [EventFrame (event\<lparr>env_generation := ss_generation s\<rparr>)],
        ss_sent := insert (env_id event) (ss_sent s)\<rparr>"
    have "sent_ok A ?s" using 2(4) False by (auto simp: sent_ok_def)
    with 2(2,3) False show ?thesis by simp
  qed
qed simp

lemma sent_ok_pending:
  "send_pending_events e fault spool s = (r, t) \<Longrightarrow> sent_ok A s \<Longrightarrow> sent_ok A t"
  by (auto simp: send_pending_events_def split: option.splits sum.splits dest: sent_ok_events)

definition client_ok :: "string set \<Rightarrow> worker_client \<Rightarrow> bool" where
  "client_ok A c \<longleftrightarrow> (\<forall>s. wk_phase c = Online s \<longrightarrow> session_ok s \<and> sent_ok A s)"

lemma client_okI: "(\<And>s. wk_phase c = Online s \<Longrightarrow> session_ok s \<and> sent_ok A s) \<Longrightarrow> client_ok A c"
  by (simp add: client_ok_def)

lemma online_Some: "online c f = Some c' \<Longrightarrow> \<exists>s. wk_phase c = Online s \<and> f s = Some c'"
  by (auto simp: online_def split: link_phase.splits)

lemma in_loop_Some:
  "in_loop c f = Some c' \<Longrightarrow> \<exists>s. wk_phase c = Online s \<and> ss_blocked s = None \<and> f s = Some c'"
  by (auto simp: in_loop_def split: if_splits dest!: online_Some)

lemma task_step_Some: "task_step i s f c = Some c' \<Longrightarrow>
    i < length (ss_tasks s) \<and> (\<exists>t. f s (ss_tasks s ! i) = Some t \<and> c' = c\<lparr>wk_phase := Online t\<rparr>)"
  by (auto simp: task_step_def split: if_splits)

lemma client_ok_continue:
  "(\<And>t. result = (Inr (), t) \<Longrightarrow> session_ok t \<and> sent_ok A t) \<Longrightarrow> client_ok A (continue result c)"
  by (cases result; cases "fst result") (auto simp: client_ok_def continue_def)

lemma client_ok_connect: "client_ok A (connect cfg e c)"
proof -
  have "client_ok A (continue (send_pending_events io fault spool (new_session g)) b)" for io fault spool g b
    by (rule client_ok_continue) (auto intro: send_pending_session [OF _ session_ok_new]
        sent_ok_pending [OF _ sent_ok_new])
  then show ?thesis
    by (auto simp: connect_def Let_def split: sum.split prod.split intro!: client_okI)
qed

lemma sent_ok_same:
  "events_of (ss_written t) = events_of (ss_written s) \<Longrightarrow> ss_sent t = ss_sent s \<Longrightarrow> sent_ok A s \<Longrightarrow> sent_ok A t"
  by (simp add: sent_ok_def)

lemma session_ok_write:
  "session_ok s \<Longrightarrow> ss_blocked s = None \<Longrightarrow> ss_results s = r # rs \<Longrightarrow>
   session_ok (s\<lparr>ss_results := rs, ss_written := ss_written s @ [ResultFrame r]\<rparr>)"
  by (auto simp: session_ok_def unanswered_def held_results_def result_ok_def)

lemma client_ok_task:
  assumes ok: "client_ok A c"
    and step: "online c (\<lambda>s. task_step i s f c) = Some c'"
    and f: "\<And>s t. i < length (ss_tasks s) \<Longrightarrow> session_ok s \<Longrightarrow> f s (ss_tasks s ! i) = Some t \<Longrightarrow>
      session_ok t \<and> ss_written t = ss_written s \<and> ss_sent t = ss_sent s"
  shows "client_ok A c'"
proof -
  from online_Some [OF step] obtain s where s: "wk_phase c = Online s" "task_step i s f c = Some c'" by blast
  from task_step_Some [OF s(2)] obtain t where
    t: "i < length (ss_tasks s)" "f s (ss_tasks s ! i) = Some t" "c' = c\<lparr>wk_phase := Online t\<rparr>" by blast
  from ok s(1) have "session_ok s" "sent_ok A s" by (simp_all add: client_ok_def)
  with f [OF t(1) _ t(2)] t(3) show ?thesis by (simp add: client_ok_def sent_ok_def)
qed

lemma client_ok_receive:
  assumes "session_ok s" "sent_ok A s" "ss_blocked s = None" "wk_phase c = Online s"
  shows "client_ok (A \<union> ok_acks [Receive e v]) (receive e v s c)"
proof -
  let ?B = "A \<union> ok_acks [Receive e v]"
  have sent: "sent_ok ?B s" using sent_ok_mono [OF assms(2)] by blast
  show ?thesis
  proof (cases "ack_frame v")
    case True
    have "sent_ok ?B (s\<lparr>ss_sent := ss_sent s - {env_id v}\<rparr>)" using sent True by (auto simp: sent_ok_def)
    moreover have "session_ok (s\<lparr>ss_sent := ss_sent s - {env_id v}\<rparr>)"
      by (rule session_ok_cong [OF assms(1)]) simp_all
    ultimately show ?thesis using True
      by (intro client_okI) (auto simp: receive_def ack_frame_def split: option.splits prod.splits sum.splits)
  next
    case False
    have "sent_ok ?B (take_command v s)"
      by (rule sent_ok_same [OF _ _ sent]) (simp_all add: take_command_def Let_def)
    with session_ok_take [OF assms(1,3)] sent assms(1,4) False show ?thesis
      by (intro client_okI) (auto simp: receive_def ack_frame_def split: if_splits)
  qed
qed

lemma client_ok_step:
  assumes ok: "client_ok A c" and step: "worker_step cfg e c = Some c'"
  shows "client_ok (A \<union> ok_acks [e]) c'"
proof (cases e)
  case (Offer ev)
  with ok step show ?thesis by (auto simp: client_ok_def split: if_splits)
next
  case (Spool io)
  with ok step show ?thesis
    by (auto simp: client_ok_def collect_step_def split: if_splits option.splits prod.splits sum.splits)
next
  case (Dial d)
  with step show ?thesis by (auto simp: client_ok_connect split: link_phase.splits)
next
  case (Receive io v)
  with in_loop_Some step obtain s where s: "wk_phase c = Online s" "ss_blocked s = None" "c' = receive io v s c"
    by fastforce
  with ok have "session_ok s" "sent_ok A s" by (simp_all add: client_ok_def)
  from client_ok_receive [OF this s(2,1)] show ?thesis unfolding s(3) Receive .
next
  case (Lost err)
  with in_loop_Some step show ?thesis by (fastforce intro: client_okI)
next
  case (Write fault)
  with in_loop_Some step obtain s where s: "wk_phase c = Online s" "ss_blocked s = None"
    "(case ss_results s of [] \<Rightarrow> None | r # rs \<Rightarrow> Some (continue (failed fault,
       s\<lparr>ss_results := rs, ss_written := ss_written s @ [ResultFrame r]\<rparr>) c)) = Some c'" by fastforce
  then obtain r rs where r: "ss_results s = r # rs"
    "c' = continue (failed fault, s\<lparr>ss_results := rs, ss_written := ss_written s @ [ResultFrame r]\<rparr>) c"
    by (auto split: list.splits)
  have "session_ok s" "sent_ok A s" using ok s(1) by (simp_all add: client_ok_def)
  with session_ok_write [OF _ s(2) r(1)] show ?thesis unfolding r(2) Write
    by (intro client_ok_continue) (auto intro: sent_ok_same)
next
  case (Notified io fault)
  with in_loop_Some step obtain s where s: "wk_phase c = Online s"
    "c' = continue (send_pending_events io fault (wk_spool c) s) (c\<lparr>wk_notify := False\<rparr>)"
    by (fastforce split: if_splits)
  have "session_ok s" "sent_ok A s" using ok s(1) by (simp_all add: client_ok_def)
  then show ?thesis unfolding s(2) Notified
    by (intro client_ok_continue) (auto intro: send_pending_session sent_ok_pending)
next
  case (Beat fault)
  with in_loop_Some step obtain s where s: "wk_phase c = Online s" "c' = continue (failed fault,
      s\<lparr>ss_written := ss_written s @ [BeatFrame (empty_envelope\<lparr>env_version := Version,
        env_type := TypeHeartbeat, env_generation := ss_generation s\<rparr>)]\<rparr>) c"
    by fastforce
  have "session_ok s" "sent_ok A s" using ok s(1) by (simp_all add: client_ok_def)
  then show ?thesis unfolding s(2) Beat
    by (intro client_ok_continue) (auto intro: sent_ok_same session_ok_cong)
next
  case (Finish i outcome)
  have "client_ok A c'"
    by (rule client_ok_task [OF ok step [unfolded Finish, simplified]])
      (auto simp: session_ok_task split: task.splits, simp_all add: set_task_def)
  with Finish show ?thesis by simp
next
  case (Report i)
  have "client_ok A c'"
    by (rule client_ok_task [OF ok step [unfolded Report, simplified]])
      (auto simp: session_ok_task split: task.splits if_splits, simp_all add: set_task_def)
  with Report show ?thesis by simp
next
  case (Release i)
  have "client_ok A c'"
    by (rule client_ok_task [OF ok step [unfolded Release, simplified]])
      (auto simp: session_ok_task split: task.splits, simp_all add: drop_task_def)
  with Release show ?thesis by simp
next
  case Unblock
  with step obtain s r where s: "wk_phase c = Online s" "ss_blocked s = Some r"
    "length (ss_results s) < results_capacity"
    by (auto dest!: online_Some split: option.splits if_splits)
  with ok have "session_ok s" by (simp add: client_ok_def)
  with s show ?thesis by (simp add: session_ok_def)
qed (use ok step in \<open>auto simp: client_ok_def split: link_phase.splits\<close>)

lemma client_ok_run:
  "client_ok A c \<Longrightarrow> worker_run cfg es c = Some c' \<Longrightarrow> client_ok (A \<union> ok_acks es) c'"
proof (induction es arbitrary: A c)
  case (Cons e es)
  then obtain b where b: "worker_step cfg e c = Some b" "worker_run cfg es b = Some c'"
    by (auto split: option.splits)
  have "ok_acks (e # es) = ok_acks [e] \<union> ok_acks es" using ok_acks_append [of "[e]" es] by simp
  with Cons.IH [OF client_ok_step [OF Cons.prems(1) b(1)] b(2)] show ?case by (simp add: Un_assoc)
qed simp

text \<open>
  C9. Every command gets one result: at any time of a connection, the commands received are, counted
  by id and type, those answered and those still in the client - as a queued result, in a handler,
  or held by the blocked loop; at most 4 handlers run and at most 16 results wait; and a result has
  the generation of the connection, and an error exactly if its status says so.
\<close>

theorem commands_answered_once:
  assumes "worker_run cfg es (new_client_of token file spool) = Some c" "wk_phase c = Online s"
  shows "mset (map tag (ss_commands s)) = mset (map tag (results_of (ss_written s))) + unanswered s \<and>
    length (ss_tasks s) \<le> 4 \<and> length (ss_results s) \<le> 16 \<and>
    (\<forall>r \<in> set (results_of (ss_written s)). env_generation r = ss_generation s \<and>
       (env_status r = ''error'' \<longleftrightarrow> env_error r \<noteq> None))"
proof -
  have "client_ok {} (new_client_of token file spool)" by (simp add: client_ok_def new_client_of_def)
  from client_ok_run [OF this assms(1)] assms(2) have "session_ok s" by (simp add: client_ok_def)
  then show ?thesis
    by (simp add: session_ok_def held_results_def result_ok_def command_limit_def results_capacity_def)
qed

text \<open>
  An event is written at most once on a connection unless it was acknowledged: whatever fails,
  reconnects and is notified, among the events written on the current connection those whose number
  has never been acknowledged are pairwise different.
\<close>

theorem event_sent_once:
  assumes "worker_run cfg es (new_client_of token file spool) = Some c" "wk_phase c = Online s"
  shows "distinct (filter (\<lambda>i. i \<notin> ok_acks es) (events_of (ss_written s)))"
proof -
  have "client_ok {} (new_client_of token file spool)" by (simp add: client_ok_def new_client_of_def)
  from client_ok_run [OF this assms(1)] assms(2) show ?thesis by (simp add: client_ok_def sent_ok_def)
qed

subsection \<open>The loop can block\<close>

lemma blocked_step:
  assumes "session_ok s" "wk_phase c = Online s" "ss_blocked s = Some r" "worker_step cfg e c = Some c'"
  shows "\<exists>t. wk_phase c' = Online t \<and> ss_blocked t = Some r \<and> ss_written t = ss_written s"
proof -
  have full: "\<not> length (ss_results s) < results_capacity" using assms(1,3) by (simp add: session_ok_def)
  have loop: "in_loop c f = None" for f using assms(2,3) by (simp add: in_loop_def online_def)
  show ?thesis
  proof (cases e)
    case (Spool io)
    with assms show ?thesis
      by (auto simp: collect_step_def split: if_splits option.splits prod.splits sum.splits)
  next
    case (Finish i outcome)
    with assms show ?thesis
      by (auto simp: set_task_def split: task.splits dest!: online_Some task_step_Some)
  next
    case (Report i)
    with assms full show ?thesis by (auto split: task.splits dest!: online_Some task_step_Some)
  next
    case (Release i)
    with assms show ?thesis
      by (auto simp: drop_task_def split: task.splits dest!: online_Some task_step_Some)
  qed (use assms full loop in \<open>auto simp: online_def split: if_splits\<close>)
qed


subsection \<open>Credentials\<close>

lemma trim_space_newline:
  assumes "of_char (hd s) \<in> {33..127 :: nat}" "of_char (last s) \<in> {33..127 :: nat}" "s \<noteq> []"
  shows "trim_space (s @ [CHR 0x0A]) = s"
proof -
  obtain rest where white: "white_space = [CHR 0x09] # [CHR 0x0A] # rest"
    by (simp add: that white_space_def utf8_bytes_def char_of_eq_iff take_bit_eq_mod)
  have left: "trim_left white_space (s @ [CHR 0x0A]) = s @ [CHR 0x0A]"
    by (rule trim_left_id) (use assms white_heads in fastforce)
  have "trim_left (map rev white_space) (rev s) = rev s"
    by (rule trim_left_id) (use assms white_heads in \<open>fastforce simp: hd_rev image_image hd_map\<close>)
  moreover have "List.find (\<lambda>p. p \<noteq> [] \<and> CHR 0x0A # rev s \<noteq> [] \<and> has_prefix (CHR 0x0A # rev s) p)
      (map rev white_space) = Some [CHR 0x0A]"
    by (simp add: white has_prefix_iff)
  ultimately have "trim_left (map rev white_space) (CHR 0x0A # rev s) = rev s"
    by (subst trim_left.simps) simp
  with left show ?thesis by (simp add: trim_space_def)
qed

lemma new_worker_token:
  assumes "new_worker parse_url loopback e cfg file present = Inr (token, spool)"
  shows "token = (let credential = read_credential (cf_credential_file cfg) file in
    if credential \<noteq> [] then credential else cf_token cfg)"
  using assms by (auto simp: new_worker_def Let_def attempt_dests split: if_splits prod.splits)

text \<open>
  An enrolled worker stays enrolled: when a connection whose ready frame carries a credential
  gets as far as its loop, the client uses the credential from then on, and a process that is
  started later with the file it left uses the same credential, whatever token it is configured with.
\<close>

theorem credential_survives_restart:
  assumes "connect cfg e c = c'" "wk_phase c' = Online s" "read_ready (de_ready e) = Inr ready"
    and "ready_credential ready = credential" "credential \<noteq> []"
    and "of_char (hd credential) \<in> {33..127 :: nat}" "of_char (last credential) \<in> {33..127 :: nat}"
    and "new_worker parse_url loopback io (cfg\<lparr>cf_token := other\<rparr>) (wk_file c') present = Inr (token, spool)"
  shows "wk_token c' = credential \<and> token = credential"
proof -
  have "failed (de_dial e) = Inr ()" "failed (de_hello e) = Inr ()"
    using assms(1,2) by (auto simp: connect_def failed_def split: option.splits)
  then obtain content where w: "write_credential (de_file e) (cf_credential_file cfg) credential (wk_file c) = (Inr (), content)"
    "wk_file c' = content" "wk_token c' = credential"
    using assms(1-5) by (auto simp: connect_def Let_def continue_def disconnected_def split: sum.splits prod.splits if_splits)
  then have "cf_credential_file cfg \<noteq> []" "content = Some (credential @ [CHR 0x0A])"
    by (auto simp: write_credential_def split: sum.splits)
  then have "read_credential (cf_credential_file cfg) (wk_file c') = credential"
    using w(2) trim_space_newline [OF assms(6,7,5)] by (simp add: read_credential_def)
  with new_worker_token [OF assms(8)] assms(5) w(3) show ?thesis by (simp add: Let_def)
qed

subsection \<open>Worked examples\<close>

definition sample_config :: worker_config where
  "sample_config = \<lparr>cf_server = ''wss://say'', cf_platform = ''signal'', cf_version = ''1'', cf_token = ''tok'',
     cf_credential_file = ''cred'', cf_event_spool_dir = [], cf_events = False, cf_handler = True\<rparr>"

definition sample_ready :: envelope where
  "sample_ready = empty_envelope\<lparr>env_version := Version, env_type := TypeReady,
     env_payload := Some (encode_ready \<lparr>ready_account_id = ''acc-1'', ready_worker_id = ''w-1'',
       ready_credential = ''secret'', ready_generation = 1\<rparr>)\<rparr>"

definition sample_dial :: dial_env where
  "sample_dial = \<lparr>de_dial = None, de_hello = None, de_ready = Inr sample_ready, de_file = sample_io,
     de_spool = sample_io, de_write = (\<lambda>_. None)\<rparr>"

definition sample_command :: envelope where
  "sample_command = empty_envelope\<lparr>env_version := Version, env_id := ''cmd_1'', env_type := TypeSend\<rparr>"

lemma read_sample_ready:
  "read_ready (Inr sample_ready) = Inr \<lparr>ready_account_id = ''acc-1'', ready_worker_id = ''w-1'',
     ready_credential = ''secret'', ready_generation = 1\<rparr>"
  by (simp add: read_ready_def sample_ready_def empty_envelope_def validate_def Version_def TypeReady_def
      decode_payload_def encode_ready_def enc_def enc_omitempty_def decode_generation_def fold_key_simps)

lemma connect_sample:
  "connect sample_config sample_dial c = continue (send_pending_events sample_io (\<lambda>_. None) (wk_spool c)
     (new_session 1)) (c\<lparr>wk_file := Some (''secret'' @ [CHR 0x0A]), wk_token := ''secret''\<rparr>)"
  by (simp add: connect_def sample_dial_def failed_def read_sample_ready write_credential_def sample_config_def
      sample_io_def sys_def)

lemma sample_frame [simp]:
  "env_type sample_command = TypeSend" "env_id sample_command = ''cmd_1''" "TypeSend \<noteq> TypeEventAck"
  by (simp_all add: sample_command_def type_defs)

theorem commands_answered_once_witness:
  "\<exists>c s. worker_run sample_config [Dial sample_dial, Receive sample_io sample_command, Finish 0 (Inr (Inr JNull)),
       Report 0, Write None] (new_client_of ''tok'' None None) = Some c \<and> wk_phase c = Online s \<and>
     mset (map tag (results_of (ss_written s))) = {#(''cmd_1'', TypeSend)#}"
proof -
  obtain c s where c: "worker_run sample_config [Dial sample_dial, Receive sample_io sample_command,
      Finish 0 (Inr (Inr JNull)), Report 0, Write None] (new_client_of ''tok'' None None) = Some c"
    "wk_phase c = Online s" "ss_commands s = [sample_command]" "unanswered s = {#}"
    by (simp add: new_client_of_def connect_sample send_pending_events_def continue_def new_session_def in_loop_def
        online_def receive_def take_command_def Let_def command_limit_def task_step_def set_task_def
        results_capacity_def failed_def unanswered_def)
  from commands_answered_once [OF c(1,2)] c show ?thesis by (auto simp: tag_def)
qed

text \<open>Commands that arrive while all slots are taken fill the channel.\<close>

lemma flood_fills:
  assumes "wk_phase c = Online s" "ss_blocked s = None" "length (ss_tasks s) = command_limit"
    "length (ss_results s) + n \<le> results_capacity"
  shows "\<exists>c' t. worker_run cfg (replicate n (Receive sample_io sample_command)) c = Some c' \<and>
    wk_phase c' = Online t \<and> ss_blocked t = None \<and> ss_tasks t = ss_tasks s \<and>
    length (ss_results t) = length (ss_results s) + n"
  using assms
proof (induction n arbitrary: c s)
  case (Suc n)
  let ?t = "take_command sample_command s"
  have t: "ss_blocked ?t = None" "ss_tasks ?t = ss_tasks s" "length (ss_results ?t) = Suc (length (ss_results s))"
    using Suc.prems by (simp_all add: take_command_def Let_def)
  have "worker_step cfg (Receive sample_io sample_command) c = Some (c\<lparr>wk_phase := Online ?t\<rparr>)"
    using Suc.prems(1,2) by (simp add: in_loop_def online_def receive_def)
  with Suc.IH [of "c\<lparr>wk_phase := Online ?t\<rparr>" ?t] Suc.prems t show ?case by simp
qed simp


theorem offered_event_kept_witness:
  "\<exists>c' i d'. worker_run sample_config [Offer (sample_envelope []), Spool sample_io]
       (new_client_of ''tok'' None (Some sample_spool)) = Some c' \<and> wk_spool c' = Some d' \<and>
     (sample_envelope [])\<lparr>env_id := i\<rparr> \<in> set (spool_queue d')"
proof -
  let ?c = "new_client_of ''tok'' None (Some sample_spool)"
  obtain d' where d': "append_event sample_io (sample_envelope []) sample_spool = (Inr (), d')"
    using spool_append_pending_witness by blast
  then obtain c' where c': "worker_run sample_config [Offer (sample_envelope []), Spool sample_io] ?c = Some c'"
    "wk_hand c' = None"
    by (simp add: new_client_of_def collect_step_def)
  have "\<forall>ev. Offer ev \<in> set [Offer (sample_envelope []), Spool sample_io] \<longrightarrow> env_id ev = []" by simp
  from offered_event_kept [OF c'(1) _ _ sample_spool_ok _ this, of "sample_envelope []"] c' show ?thesis
    by (auto simp: new_client_of_def Cons_eq_append_conv)
qed

theorem event_sent_once_witness:
  "\<exists>c s. worker_run sample_config [Dial sample_dial] (new_client_of ''tok'' None (Some sample_spool)) = Some c \<and>
     wk_phase c = Online s \<and> distinct (events_of (ss_written s))"
proof -
  have "pending_events sample_io sample_spool = Inr (spool_queue sample_spool)"
    by (rule pending_events_queue [OF sample_spool_ok sample_io_ok])
  moreover have "\<exists>t. send_events (\<lambda>_. None) k events u = (Inr (), t)" for k events u
    by (induction "\<lambda>_ :: nat. None :: go_error option" k events u rule: send_events.induct) auto
  then obtain t where "send_events (\<lambda>_. None) 0 (spool_queue sample_spool) (new_session 1) = (Inr (), t)" by blast
  ultimately obtain c where c: "worker_run sample_config [Dial sample_dial]
      (new_client_of ''tok'' None (Some sample_spool)) = Some c" "wk_phase c = Online t"
    by (simp add: new_client_of_def connect_sample send_pending_events_def continue_def)
  from event_sent_once [OF c] c show ?thesis by auto
qed

theorem credential_survives_restart_witness:
  "\<exists>token spool. new_worker (\<lambda>_. Some (''wss'', ''say'', ''say'')) (\<lambda>_. False) sample_io
       (sample_config\<lparr>cf_token := ''stale''\<rparr>)
       (wk_file (connect sample_config sample_dial (new_client_of ''tok'' None None))) None = Inr (token, spool) \<and>
     token = ''secret''"
proof -
  let ?c = "connect sample_config sample_dial (new_client_of ''tok'' None None)"
  obtain s where s: "wk_phase ?c = Online s" "wk_file ?c = Some (''secret'' @ [CHR 0x0A])"
    by (simp add: connect_sample new_client_of_def send_pending_events_def continue_def)
  obtain token spool where new: "new_worker (\<lambda>_. Some (''wss'', ''say'', ''say'')) (\<lambda>_. False) sample_io
      (sample_config\<lparr>cf_token := ''stale''\<rparr>) (wk_file ?c) None = Inr (token, spool)"
    unfolding s(2)
    using trim_space_newline [of "''secret''"]
    by (simp add: new_worker_def sample_config_def Let_def read_credential_def)
  have "read_ready (de_ready sample_dial) = Inr \<lparr>ready_account_id = ''acc-1'', ready_worker_id = ''w-1'',
      ready_credential = ''secret'', ready_generation = 1\<rparr>"
    using read_sample_ready by (simp add: sample_dial_def)
  from credential_survives_restart [OF refl s(1) this _ _ _ _ new] new show ?thesis by auto
qed

end
