(* ===== verification/Delivery.thy ===== *)
theory Delivery
  imports SayApi WorkerClient
begin

section \<open>From the worker to the database\<close>

text \<open>
  \<^verbatim>\<open>internal/worker/client.go\<close> and \<^verbatim>\<open>internal/gateway/hub.go\<close>: the worker client and the gateway,
  joined by the frames in flight between them. Shown: the two sides agree on the handshake, and an
  event in the worker's spool leaves it only when its message is in the database, whatever fails on
  either side or between them.
\<close>

subsection \<open>The handshake\<close>

text \<open>
  C32. The two ends of the connection understand each other: the gateway reads from the client's
  hello frame exactly the token, the platform and the version of the client, and the client reads
  from the gateway's ready frame the account, the worker, the credential and the generation.
\<close>

theorem handshake_roundtrip:
  assumes "token \<noteq> []" "cf_platform cfg \<noteq> []" "cf_version cfg \<noteq> []"
  shows "read_hello (Some (hello_envelope cfg token)) =
      Inr \<lparr>hello_token = token, hello_platform = cf_platform cfg, hello_version = cf_version cfg\<rparr> \<and>
    read_ready (Inr (ready_envelope c)) = Inr \<lparr>ready_account_id = cn_account_id c,
      ready_worker_id = acc_worker_id (wa_account (cn_auth c)),
      ready_credential = wa_credential (cn_auth c), ready_generation = cn_generation c\<rparr>"
proof
  show "read_hello (Some (hello_envelope cfg token)) =
      Inr \<lparr>hello_token = token, hello_platform = cf_platform cfg, hello_version = cf_version cfg\<rparr>"
    using assms by (simp add: read_hello_def hello_envelope_def validate_def empty_envelope_def Version_def
        TypeHello_def decode_payload_def decode_encode_hello)
  have "decode_ready (encode_ready r) = Some r" for r
    using uint_bounded [of "ready_generation r"]
    by (simp add: encode_ready_def decode_generation_def enc_def enc_omitempty_def fold_key_simps)
  then show "read_ready (Inr (ready_envelope c)) = Inr \<lparr>ready_account_id = cn_account_id c,
      ready_worker_id = acc_worker_id (wa_account (cn_auth c)),
      ready_credential = wa_credential (cn_auth c), ready_generation = cn_generation c\<rparr>"
    by (simp add: read_ready_def ready_envelope_def Let_def validate_def empty_envelope_def Version_def
        TypeReady_def decode_payload_def cn_account_id_def cn_generation_def)
qed

theorem handshake_roundtrip_witness:
  "read_hello (Some (hello_envelope sample_config ''tok'')) =
     Inr \<lparr>hello_token = ''tok'', hello_platform = ''signal'', hello_version = ''1''\<rparr>"
  using handshake_roundtrip [of "''tok''" sample_config] by (simp add: sample_config_def)

subsection \<open>Frames in flight\<close>

text \<open>
  \<open>dl_up\<close> are the frames the client has written on the current connection and the gateway has not
  read, \<open>dl_down\<close> the acknowledgements the client has not read, each with the event it is for.
\<close>

record 'h delivery =
  dl_client :: worker_client
  dl_conn :: connection
  dl_site :: "'h db \<times> rt_hub"
  dl_up :: "frame list"
  dl_down :: "(envelope \<times> envelope) list"

datatype delivery_event =
    Work client_event
  | Accept connection
  | Handle env env bool
  | HandleOther env env bool connection envelope
  | Acknowledge io_env
  | Stores env db_call

fun frame_envelope :: "frame \<Rightarrow> envelope" where
  "frame_envelope (EventFrame v) = v"
| "frame_envelope (ResultFrame v) = v"
| "frame_envelope (BeatFrame v) = v"

text \<open>After a step of the client: what it has written is in flight; with the connection go its frames.\<close>

definition carry :: "worker_client \<Rightarrow> 'h delivery \<Rightarrow> 'h delivery" where
  "carry c' w =
     (case (wk_phase (dl_client w), wk_phase c') of
        (Online s, Online t) \<Rightarrow> w\<lparr>dl_client := c',
          dl_up := dl_up w @ drop (length (ss_written s)) (ss_written t)\<rparr>
      | (_, Online t) \<Rightarrow> w\<lparr>dl_client := c', dl_up := ss_written t, dl_down := []\<rparr>
      | (_, _) \<Rightarrow> w\<lparr>dl_client := c', dl_up := [], dl_down := []\<rparr>)"

abbreviation gateway_handles ::
  "(string \<Rightarrow> time option) \<Rightarrow> (string \<Rightarrow> 'h) \<Rightarrow> env \<Rightarrow> env \<Rightarrow> bool \<Rightarrow> envelope \<Rightarrow> connection \<Rightarrow>
   'h db \<times> rt_hub \<Rightarrow> connection \<times> 'h db \<times> rt_hub"
where
  "gateway_handles parse_time sha \<equiv> handle_frame (store_beside (postgres_store sha)) (Some (worker_event parse_time))"

text \<open>
  A step of the client, of the gateway on this connection, of the gateway on any other frame and
  connection (a late frame of a lost one, another worker), or of anything else on the database that
  keeps messages. The gateway's end may be replaced by another connection of the account at any time.
\<close>

fun delivery_step ::
  "(string \<Rightarrow> time option) \<Rightarrow> (string \<Rightarrow> 'h) \<Rightarrow> (string \<Rightarrow> 'k::linorder) \<Rightarrow> worker_config \<Rightarrow>
   delivery_event \<Rightarrow> 'h delivery \<Rightarrow> 'h delivery option"
where
  "delivery_step parse_time sha collate cfg (Work e) w =
     (if ok_acks [e] \<noteq> {} then None
      else map_option (\<lambda>c'. carry c' w) (worker_step cfg e (dl_client w)))"
| "delivery_step parse_time sha collate cfg (Accept c) w =
     (if cn_account_id c = cn_account_id (dl_conn w) then Some (w\<lparr>dl_conn := c\<rparr>) else None)"
| "delivery_step parse_time sha collate cfg (Handle e e' ok) w =
     (case dl_up w of
        [] \<Rightarrow> None
      | f # fs \<Rightarrow>
          (case gateway_handles parse_time sha e e' ok (frame_envelope f) (dl_conn w) (dl_site w) of
             (c, s) \<Rightarrow> Some (w\<lparr>dl_conn := c, dl_site := s, dl_up := fs,
               dl_down := dl_down w @ (if cn_written c = cn_written (dl_conn w) then []
                 else [(last (cn_written c), frame_envelope f)])\<rparr>)))"
| "delivery_step parse_time sha collate cfg (HandleOther e e' ok c v) w =
     Some (w\<lparr>dl_site := snd (gateway_handles parse_time sha e e' ok v c (dl_site w))\<rparr>)"
| "delivery_step parse_time sha collate cfg (Acknowledge io) w =
     (case dl_down w of
        [] \<Rightarrow> None
      | (k, v) # rest \<Rightarrow>
          map_option (\<lambda>c'. carry c' (w\<lparr>dl_down := rest\<rparr>)) (worker_step cfg (Receive io k) (dl_client w)))"
| "delivery_step parse_time sha collate cfg (Stores e c) w =
     (if keeps_messages c (fst (dl_site w))
      then Some (w\<lparr>dl_site := (run_db sha collate e c (fst (dl_site w)), snd (dl_site w))\<rparr>) else None)"

fun delivery_run ::
  "(string \<Rightarrow> time option) \<Rightarrow> (string \<Rightarrow> 'h) \<Rightarrow> (string \<Rightarrow> 'k::linorder) \<Rightarrow> worker_config \<Rightarrow>
   delivery_event list \<Rightarrow> 'h delivery \<Rightarrow> 'h delivery option"
where
  "delivery_run parse_time sha collate cfg [] w = Some w"
| "delivery_run parse_time sha collate cfg (e # es) w =
     (case delivery_step parse_time sha collate cfg e w of
        None \<Rightarrow> None
      | Some w' \<Rightarrow> delivery_run parse_time sha collate cfg es w')"

subsection \<open>The gateway\<close>

lemma handle_frame_keeps:
  assumes "P s" "\<And>t b g. P t \<Longrightarrow> P (snd (store_touch S e b g t))"
    and "\<And>t b g st x. P t \<Longrightarrow> P (snd (store_set_identity S e b g st x t))"
    and "\<And>t u. P t \<Longrightarrow> P (snd (handle_event f e' ok u c t))"
  shows "P (snd (handle_frame S f e e' ok v c s))"
  using assms by (simp add: handle_frame_def Let_def split_beta split: sum.split)

lemma gateway_stores:
  assumes "gateway_handles parse_time sha e e' ok v c s = (c', s')" "Ingest.stored a p q (fst s)"
  shows "Ingest.stored a p q (fst s')"
proof -
  have call: "Ingest.stored a p q (run_call (postgres_store sha) e0 k db)"
    if "Ingest.stored a p q db" "\<And>u b. k \<noteq> Delete u b" for e0 k db
    using stored_run [OF that(1), of "Account k" sha "id :: string \<Rightarrow> string" e0] that(2)
    by (cases k) (auto simp: keeps_messages_def)
  have touch: "Ingest.stored a p q (snd (store_touch (postgres_store sha) e0 b g db))"
    and identity: "Ingest.stored a p q (snd (store_set_identity (postgres_store sha) e0 b g st x db))"
    if "Ingest.stored a p q db" for e0 b g st x db
    using call [OF that, of "Touch b g" e0] call [OF that, of "SetIdentity b g st x" e0] by simp_all
  have ingest: "Ingest.stored a p q (fst (snd (worker_event parse_time e0 account u t)))"
    if "Ingest.stored a p q (fst t)" for e0 account u t
    using stored_ingest [OF that] that
    by (auto simp: worker_event_def IngestMessage_def split: sum.split prod.split) (metis snd_conv)+
  have event: "Ingest.stored a p q (fst (snd (handle_event (Some (worker_event parse_time)) e' ok u c t)))"
    if "Ingest.stored a p q (fst t)" for u t
    using ingest [OF that, of e' "wa_account (cn_auth c)" u]
    by (auto simp: handle_event_def split: prod.split sum.split)
  have "Ingest.stored a p q (fst (snd (gateway_handles parse_time sha e e' ok v c s)))"
    by (rule handle_frame_keeps [where P = "\<lambda>t. Ingest.stored a p q (fst t)"])
      (simp_all add: assms(2) touch identity event store_beside_def beside_def split_beta)
  with assms(1) show ?thesis by simp
qed

lemma gateway_acks_events:
  assumes "gateway_handles parse_time sha e e' ok v c s = (c', s')" "cn_written c' \<noteq> cn_written c"
  shows "env_id v \<noteq> [] \<and> env_status v = []"
proof -
  have "env_id v \<noteq> []" using acked_handled [OF assms] by blast
  moreover have "cn_written c' = cn_written c" if "env_id v \<noteq> []" "env_status v \<noteq> []"
    using assms(1) that by (auto simp: handle_frame_def split: if_splits prod.splits sum.splits)
  ultimately show ?thesis using assms(2) by blast
qed

subsection \<open>The client\<close>

lemma read_events_any:
  "read_events e d i names = Inr events \<Longrightarrow> io_ok e' \<Longrightarrow> read_events e' d i names = Inr events"
proof (induction names arbitrary: i events)
  case (Cons name names)
  then show ?case by (auto simp: attempt_dests io_ok_def sys_def)
qed simp

lemma pending_events_read:
  assumes "pending_events e d = Inr events" "spool_ok d"
  shows "events = spool_queue d"
proof -
  have "read_events e d 0 (event_names d) = Inr events"
    using assms(1) by (auto simp: pending_events_def attempt_dests)
  from read_events_any [OF this sample_io_ok] have "pending_events sample_io d = Inr events"
    using sample_io_ok by (simp add: pending_events_def check_ctx_def io_ok_def sys_def)
  with pending_events_queue [OF assms(2) sample_io_ok] show ?thesis by simp
qed

lemma distinct_queue_ids:
  assumes "spool_ok d" "v \<in> set (spool_queue d)" "w \<in> set (spool_queue d)" "env_id v = env_id w"
  shows "v = w"
proof -
  have "Some v = event_at d (env_id v @ ''.json'')" using set_spool_queue(1) [OF assms(1,2)] by (rule sym)
  also have "\<dots> = Some w" unfolding assms(4) by (rule set_spool_queue(1) [OF assms(1,3)])
  finally show ?thesis by (rule option.inject [THEN iffD1])
qed

text \<open>\<open>same_event w v\<close>: the frame \<open>v\<close> carries the event \<open>w\<close>.\<close>

definition same_event :: "envelope \<Rightarrow> envelope \<Rightarrow> bool" where
  "same_event w v \<longleftrightarrow> v = w\<lparr>env_generation := env_generation v\<rparr>"

lemma same_event_simps:
  "same_event w v \<Longrightarrow> env_id v = env_id w" "same_event w v \<Longrightarrow> env_type v = env_type w"
  "same_event w v \<Longrightarrow> env_payload v = env_payload w"
  unfolding same_event_def by (metis envelope.select_convs envelope.surjective envelope.update_convs(4))+

fun frame_ok :: "envelope list \<Rightarrow> frame \<Rightarrow> bool" where
  "frame_ok queue (EventFrame v) \<longleftrightarrow> (\<exists>w \<in> set queue. same_event w v)"
| "frame_ok queue (ResultFrame r) \<longleftrightarrow> env_status r \<noteq> []"
| "frame_ok queue (BeatFrame b) \<longleftrightarrow> env_id b = []"

text \<open>\<open>extends d s fs t\<close>: from session \<open>s\<close> to \<open>t\<close> exactly the frames \<open>fs\<close> were written.\<close>

definition extends :: "dir \<Rightarrow> session \<Rightarrow> frame list \<Rightarrow> session \<Rightarrow> bool" where
  "extends d s fs t \<longleftrightarrow> ss_written t = ss_written s @ fs \<and> ss_sent t = ss_sent s \<union> set (events_of fs) \<and>
     distinct (events_of fs) \<and> set (events_of fs) \<inter> ss_sent s = {} \<and>
     (\<forall>f \<in> set fs. frame_ok (spool_queue d) f)"

lemma extends_refl: "ss_written t = ss_written s \<Longrightarrow> ss_sent t = ss_sent s \<Longrightarrow> extends d s [] t"
  by (simp add: extends_def)

lemma send_events_extends:
  "send_events fault k events s = (r, t) \<Longrightarrow> set events \<subseteq> set (spool_queue d) \<Longrightarrow> \<exists>fs. extends d s fs t"
proof (induction fault k events s rule: send_events.induct)
  case (1 fault k s)
  then show ?case using extends_refl by fastforce
next
  case (2 fault k event events s)
  show ?case
  proof (cases "env_id event \<in> ss_sent s \<or> fault k \<noteq> None")
    case True
    with 2 show ?thesis by (auto split: if_splits option.splits intro!: exI [of _ "[]"] extends_refl)
  next
    case False
    let ?v = "event\<lparr>env_generation := ss_generation s\<rparr>"
    let ?s = "s\<lparr>ss_written := ss_written s @ [EventFrame ?v], ss_sent := insert (env_id event) (ss_sent s)\<rparr>"
    from 2(2) 2(3,4) False obtain fs where fs: "extends d ?s fs t" by auto
    have "same_event event ?v" by (simp add: same_event_def)
    with fs False 2(4) have "extends d s (EventFrame ?v # fs) t" by (auto simp: extends_def)
    then show ?thesis by blast
  qed
qed

lemma send_pending_extends:
  "send_pending_events e fault (Some d) s = (r, t) \<Longrightarrow> spool_ok d \<Longrightarrow> \<exists>fs. extends d s fs t"
  by (auto simp: send_pending_events_def split: sum.splits dest!: pending_events_read
      intro: send_events_extends extends_refl)

lemma extends_written:
  "ss_written t = ss_written s @ [f] \<Longrightarrow> ss_sent t = ss_sent s \<Longrightarrow> events_of [f] = [] \<Longrightarrow>
   frame_ok (spool_queue d) f \<Longrightarrow> extends d s [f] t"
  by (simp add: extends_def)

text \<open>A step of the client that is not an acknowledgement, when it leaves the client connected.\<close>

definition grows :: "dir \<Rightarrow> worker_client \<Rightarrow> session \<Rightarrow> bool" where
  "grows d c t \<longleftrightarrow> (\<exists>s fs. wk_phase c = Online s \<and> extends d s fs t) \<or>
     (\<exists>fs g. wk_phase c = Waiting \<and> extends d (new_session g) fs t)"

lemma growsI:
  "wk_phase c = Online s \<Longrightarrow> extends d s fs t \<Longrightarrow> grows d c t"
  "wk_phase c = Online s \<Longrightarrow> ss_written t = ss_written s \<Longrightarrow> ss_sent t = ss_sent s \<Longrightarrow> grows d c t"
  "wk_phase c = Waiting \<Longrightarrow> extends d (new_session g) fs t \<Longrightarrow> grows d c t"
  unfolding grows_def by (blast intro: extends_refl)+

lemma grows_updates [simp]:
  "wk_phase c = Online s \<Longrightarrow> grows d c s"
  "wk_phase c = Online s \<Longrightarrow> grows d c (s\<lparr>ss_tasks := ts\<rparr>)"
  "wk_phase c = Online s \<Longrightarrow> grows d c (s\<lparr>ss_results := rs, ss_tasks := ts\<rparr>)"
  "wk_phase c = Online s \<Longrightarrow> grows d c (s\<lparr>ss_blocked := b, ss_results := rs\<rparr>)"
  by (auto intro: growsI(2))

lemma worker_step_grows:
  assumes step: "worker_step cfg e c = Some c'" and c: "wk_spool c = Some d" "spool_ok d" "client_ok UNIV c"
    and ack: "ok_acks [e] = {}" and phase: "wk_phase c' = Online t"
  shows "grows d c t"
proof (cases e)
  case (Offer ev)
  with step phase show ?thesis by (auto split: if_splits intro: growsI(2))
next
  case (Spool io)
  with step phase show ?thesis
    by (auto simp: collect_step_def split: if_splits option.splits prod.splits sum.splits intro: growsI(2))
next
  case (Dial de)
  with step have w: "wk_phase c = Waiting" "c' = connect cfg de c" by (auto split: link_phase.splits)
  with phase obtain r g where "send_pending_events (de_spool de) (de_write de) (wk_spool c) (new_session g) = (r, t)"
    by (auto simp: connect_def Let_def continue_def split: sum.splits prod.splits if_splits)
  with send_pending_extends c(1,2) w(1) show ?thesis by (metis growsI(3))
next
  case (Receive io v)
  with in_loop_Some step obtain s where s: "wk_phase c = Online s" "c' = receive io v s c" by fastforce
  have "\<not> ack_frame v" using ack Receive by auto
  with s phase have "t = s \<or> t = take_command v s" by (auto simp: receive_def ack_frame_def split: if_splits)
  moreover have "ss_written (take_command v s) = ss_written s" "ss_sent (take_command v s) = ss_sent s"
    by (simp_all add: take_command_def Let_def)
  ultimately show ?thesis using s(1) by (blast intro: growsI(2))
next
  case (Lost err)
  with in_loop_Some step phase show ?thesis by fastforce
next
  case (Write fault)
  with in_loop_Some step obtain s where s: "wk_phase c = Online s"
    "(case ss_results s of [] \<Rightarrow> None | r # rs \<Rightarrow> Some (continue (failed fault,
       s\<lparr>ss_results := rs, ss_written := ss_written s @ [ResultFrame r]\<rparr>) c)) = Some c'" by fastforce
  then obtain r rs where r: "ss_results s = r # rs"
    "t = s\<lparr>ss_results := rs, ss_written := ss_written s @ [ResultFrame r]\<rparr>"
    using phase by (auto simp: continue_def split: list.splits sum.splits)
  have "session_ok s" using c(3) s(1) by (simp add: client_ok_def)
  then have "env_status r \<noteq> []" using r(1) by (auto simp: session_ok_def held_results_def result_ok_def)
  with r s(1) show ?thesis by (auto intro!: growsI(1) extends_written)
next
  case (Notified io fault)
  with in_loop_Some step obtain s where s: "wk_phase c = Online s"
    "c' = continue (send_pending_events io fault (wk_spool c) s) (c\<lparr>wk_notify := False\<rparr>)"
    by (fastforce split: if_splits)
  obtain r u where u: "send_pending_events io fault (wk_spool c) s = (r, u)" by force
  with s phase have "t = u" by (auto simp: continue_def split: sum.splits)
  with send_pending_extends [OF u [unfolded c(1)] c(2)] s(1) show ?thesis by (blast intro: growsI(1))
next
  case (Beat fault)
  with in_loop_Some step obtain s where s: "wk_phase c = Online s" "c' = continue (failed fault,
      s\<lparr>ss_written := ss_written s @ [BeatFrame (empty_envelope\<lparr>env_version := Version,
        env_type := TypeHeartbeat, env_generation := ss_generation s\<rparr>)]\<rparr>) c"
    by fastforce
  with phase show ?thesis
    by (auto simp: continue_def empty_envelope_def split: sum.splits intro!: growsI(1) extends_written)
next
  case (Finish i outcome)
  with step phase show ?thesis
    by (auto simp: set_task_def split: task.splits dest!: online_Some task_step_Some)
next
  case (Report i)
  with step phase show ?thesis
    by (auto simp: set_task_def split: task.splits if_splits dest!: online_Some task_step_Some)
next
  case (Release i)
  with step phase show ?thesis
    by (auto simp: drop_task_def split: task.splits dest!: online_Some task_step_Some)
next
  case Unblock
  with step phase show ?thesis
    by (auto split: option.splits if_splits dest!: online_Some intro: growsI(2))
qed (use step phase in \<open>auto split: link_phase.splits intro: growsI(2)\<close>)

subsection \<open>The invariant\<close>

text \<open>The message of an event is in the database.\<close>

definition saved :: "(string \<Rightarrow> time option) \<Rightarrow> string \<Rightarrow> envelope \<Rightarrow> 'h db \<Rightarrow> bool" where
  "saved parse_time account v db \<longleftrightarrow>
     (\<exists>m. decode_payload (decode_wire_message parse_time empty_wire_message) v = Inr m \<and>
        Ingest.stored account (wm_conversation_id m) (wm_provider_message_id m) db)"

definition flying :: "'h delivery \<Rightarrow> string list" where
  "flying w = map (\<lambda>(k, v). env_id v) (dl_down w) @ events_of (dl_up w)"

definition ack_ok :: "(string \<Rightarrow> time option) \<Rightarrow> string \<Rightarrow> envelope list \<Rightarrow> 'h db \<Rightarrow> envelope \<times> envelope \<Rightarrow> bool" where
  "ack_ok parse_time account queue db a \<longleftrightarrow>
     (case a of (k, v) \<Rightarrow> ack_frame k \<and> env_id k = env_id v \<and> (\<exists>w \<in> set queue. same_event w v) \<and>
        (env_type v = TypeMessageNew \<longrightarrow> saved parse_time account v db))"

definition delivery_ok :: "(string \<Rightarrow> time option) \<Rightarrow> string \<Rightarrow> dir \<Rightarrow> 'h delivery \<Rightarrow> bool" where
  "delivery_ok parse_time account d w \<longleftrightarrow>
     wk_spool (dl_client w) = Some d \<and> spool_ok d \<and> numberless (wk_hand (dl_client w)) \<and>
     client_ok UNIV (dl_client w) \<and> cn_account_id (dl_conn w) = account \<and>
     (\<forall>f \<in> set (dl_up w). frame_ok (spool_queue d) f) \<and>
     (\<forall>a \<in> set (dl_down w). ack_ok parse_time account (spool_queue d) (fst (dl_site w)) a) \<and>
     (case wk_phase (dl_client w) of
        Online s \<Rightarrow> distinct (flying w) \<and> set (flying w) \<subseteq> ss_sent s
      | _ \<Rightarrow> dl_up w = [] \<and> dl_down w = [])"

lemma saved_same: "same_event w v \<Longrightarrow> saved parse_time account v db \<longleftrightarrow> saved parse_time account w db"
proof -
  assume "same_event w v"
  from same_event_simps(2,3) [OF this] have "decode_payload f v = decode_payload f w" for f :: "json \<Rightarrow> wire_message option"
    by (auto simp: decode_payload_def split: option.splits)
  then show ?thesis by (simp add: saved_def)
qed

lemma frame_ok_mono: "frame_ok q f \<Longrightarrow> set q \<subseteq> set q' \<Longrightarrow> frame_ok q' f"
  by (cases f) auto

lemma ack_ok_mono:
  "ack_ok parse_time account q db a \<Longrightarrow> set q \<subseteq> set q' \<Longrightarrow>
   (\<And>v. saved parse_time account v db \<Longrightarrow> saved parse_time account v db') \<Longrightarrow>
   ack_ok parse_time account q' db' a"
  by (auto simp: ack_ok_def)

lemma saved_gateway:
  "gateway_handles parse_time sha e e' ok u c s = (c', s') \<Longrightarrow> saved parse_time account v (fst s) \<Longrightarrow>
   saved parse_time account v (fst s')"
  by (auto simp: saved_def dest: gateway_stores)

lemma saved_call:
  "keeps_messages c db \<Longrightarrow> saved parse_time account v db \<Longrightarrow>
   saved parse_time account v (run_db sha collate e c db)"
  by (auto simp: saved_def intro: stored_run)

lemma not_ack: "ok_acks [e] = {} \<Longrightarrow> e = Receive io v \<Longrightarrow> \<not> ack_frame v"
  by auto

lemma delivery_offline:
  "wk_spool c' = Some d' \<Longrightarrow> spool_ok d' \<Longrightarrow> numberless (wk_hand c') \<Longrightarrow> client_ok UNIV c' \<Longrightarrow>
   (\<And>t. wk_phase c' = Online t \<Longrightarrow> False) \<Longrightarrow> cn_account_id (dl_conn w) = account \<Longrightarrow>
   delivery_ok parse_time account d' (carry c' w)"
  by (cases "wk_phase c'") (auto simp: delivery_ok_def carry_def split: link_phase.split)

lemma delivery_online:
  "wk_spool (dl_client w) = Some d \<Longrightarrow> spool_ok d \<Longrightarrow> numberless (wk_hand (dl_client w)) \<Longrightarrow>
   client_ok UNIV (dl_client w) \<Longrightarrow> wk_phase (dl_client w) = Online t \<Longrightarrow> cn_account_id (dl_conn w) = account \<Longrightarrow>
   (\<And>f. f \<in> set (dl_up w) \<Longrightarrow> frame_ok (spool_queue d) f) \<Longrightarrow>
   (\<And>a. a \<in> set (dl_down w) \<Longrightarrow> ack_ok parse_time account (spool_queue d) (fst (dl_site w)) a) \<Longrightarrow>
   distinct (flying w) \<Longrightarrow> set (flying w) \<subseteq> ss_sent t \<Longrightarrow> delivery_ok parse_time account d w"
  by (simp add: delivery_ok_def)

text \<open>The client's own steps.\<close>

lemma delivery_work:
  assumes inv: "delivery_ok parse_time account d w"
    and step: "worker_step cfg e (dl_client w) = Some c'" "ok_acks [e] = {}"
    and fresh: "\<And>ev. e = Offer ev \<Longrightarrow> env_id ev = []"
  shows "\<exists>d'. delivery_ok parse_time account d' (carry c' w) \<and> set (spool_queue d) \<subseteq> set (spool_queue d') \<and>
    dl_site (carry c' w) = dl_site w"
proof -
  let ?c = "dl_client w"
  have c: "wk_spool ?c = Some d" "spool_ok d" "numberless (wk_hand ?c)" "client_ok UNIV ?c"
    using inv by (simp_all add: delivery_ok_def)
  obtain d' where d': "wk_spool c' = Some d'" "spool_ok d'" "numberless (wk_hand c')"
    "set (spool_queue d) \<subseteq> set (spool_queue d')"
    by (rule worker_step_kept [OF step(1) c(1-3) fresh]) (use step(2) in auto)
  have ok': "client_ok UNIV c'" using client_ok_step [OF c(4) step(1)] by simp
  have site: "dl_site (carry c' w) = dl_site w" "dl_conn (carry c' w) = dl_conn w" "dl_client (carry c' w) = c'"
    by (simp_all add: carry_def split: link_phase.split)
  have account: "cn_account_id (dl_conn w) = account" using inv by (simp add: delivery_ok_def)
  have frames: "\<forall>f \<in> set (dl_up w). frame_ok (spool_queue d') f"
    using inv by (auto simp: delivery_ok_def intro: frame_ok_mono [OF _ d'(4)])
  have acks: "\<forall>a \<in> set (dl_down w). ack_ok parse_time account (spool_queue d') (fst (dl_site w)) a"
    using inv by (auto simp: delivery_ok_def intro: ack_ok_mono [OF _ d'(4)])
  have "delivery_ok parse_time account d' (carry c' w)"
  proof (cases "wk_phase c'")
    case (Online t)
    from worker_step_grows [OF step(1) c(1,2,4) step(2) Online] show ?thesis
      unfolding grows_def
    proof (elim disjE exE conjE)
      fix s fs
      assume s: "wk_phase ?c = Online s" and ext: "extends d s fs t"
      have carry: "carry c' w = w\<lparr>dl_client := c', dl_up := dl_up w @ fs\<rparr>"
        using s ext Online by (simp add: carry_def extends_def)
      have new: "\<forall>f \<in> set fs. frame_ok (spool_queue d') f"
        using ext frame_ok_mono [OF _ d'(4)] by (simp add: extends_def)
      have fly: "flying (carry c' w) = flying w @ events_of fs" by (simp add: carry flying_def)
      have old: "distinct (flying w)" "set (flying w) \<subseteq> ss_sent s"
        using inv s by (simp_all add: delivery_ok_def)
      show ?thesis
      proof (rule delivery_online)
        show "distinct (flying (carry c' w))" "set (flying (carry c' w)) \<subseteq> ss_sent t"
          using old ext unfolding fly extends_def by auto
        show "frame_ok (spool_queue d') f" if "f \<in> set (dl_up (carry c' w))" for f
          using that frames new by (auto simp: carry)
      qed (use d' ok' Online acks account in \<open>simp_all add: carry\<close>)
    next
      fix fs g
      assume s: "wk_phase ?c = Waiting" and ext: "extends d (new_session g) fs t"
      then have carry: "carry c' w = w\<lparr>dl_client := c', dl_up := fs, dl_down := []\<rparr>"
        using Online by (simp add: carry_def extends_def new_session_def)
      have new: "\<forall>f \<in> set fs. frame_ok (spool_queue d') f"
        using ext frame_ok_mono [OF _ d'(4)] by (simp add: extends_def)
      show ?thesis
        by (rule delivery_online)
          (use d' ok' Online account new ext in \<open>auto simp: carry flying_def extends_def new_session_def\<close>)
    qed
  qed (use delivery_offline [OF d'(1-3) ok'] account in auto)
  with site(1) d'(4) show ?thesis by blast
qed

lemma event_id_of: "EventFrame u \<in> set fs \<Longrightarrow> env_id u \<in> set (events_of fs)"
  by (induction fs rule: events_of.induct) auto

text \<open>The client reads an acknowledgement.\<close>

lemma delivery_acknowledge:
  assumes inv: "delivery_ok parse_time account d w" and down: "dl_down w = (k, v) # rest"
    and step: "worker_step cfg (Receive io k) (dl_client w) = Some c'"
  shows "\<exists>d'. delivery_ok parse_time account d' (carry c' (w\<lparr>dl_down := rest\<rparr>)) \<and>
    set (spool_queue d') \<subseteq> set (spool_queue d) \<and>
    (\<forall>u \<in> set (spool_queue d) - set (spool_queue d'). env_id u = env_id v)"
proof -
  let ?c = "dl_client w"
  have c: "wk_spool ?c = Some d" "spool_ok d" "numberless (wk_hand ?c)" "client_ok UNIV ?c"
    using inv by (simp_all add: delivery_ok_def)
  have k: "ack_frame k" "env_id k = env_id v" using inv down by (auto simp: delivery_ok_def ack_ok_def)
  from in_loop_Some step obtain s where s: "wk_phase ?c = Online s" "c' = receive io k s ?c" by fastforce
  obtain r d' where ack: "ack_event io (env_id k) d = (r, d')" by force
  from spool.ack_law [OF c(2) ack] have d': "spool_ok d'"
    "spool_queue d' \<in> {spool_queue d, filter (\<lambda>event. env_id event \<noteq> env_id v) (spool_queue d)}"
    by (simp_all add: k(2))
  have ok': "client_ok UNIV c'" using client_ok_step [OF c(4) step] by simp
  have fly: "distinct (flying w)" "set (flying w) \<subseteq> ss_sent s" using inv s(1) by (simp_all add: delivery_ok_def)
  have frames: "frame_ok (spool_queue d') f" if "f \<in> set (dl_up w)" for f
  proof -
    have f: "frame_ok (spool_queue d) f" using inv that by (simp add: delivery_ok_def)
    show ?thesis
    proof (cases f)
      case (EventFrame u)
      with f obtain x where x: "x \<in> set (spool_queue d)" "same_event x u" by auto
      have "env_id u \<in> set (events_of (dl_up w))" using event_id_of that EventFrame by simp
      then have "env_id x \<noteq> env_id v"
        using fly(1) down same_event_simps(1) [OF x(2)] by (auto simp: flying_def)
      with d'(2) x EventFrame show ?thesis by auto
    qed (use f in simp_all)
  qed
  have acks: "ack_ok parse_time account (spool_queue d') (fst (dl_site w)) (k', u)" if "(k', u) \<in> set rest" for k' u
  proof -
    have a: "ack_ok parse_time account (spool_queue d) (fst (dl_site w)) (k', u)"
      using inv that down by (simp add: delivery_ok_def)
    then obtain x where x: "x \<in> set (spool_queue d)" "same_event x u" by (auto simp: ack_ok_def)
    have "env_id u \<noteq> env_id v" using fly(1) down that by (force simp: flying_def)
    then have "x \<in> set (spool_queue d')" using d'(2) x(1) same_event_simps(1) [OF x(2)] by auto
    with a x(2) show ?thesis by (auto simp: ack_ok_def)
  qed
  have queue: "set (spool_queue d') \<subseteq> set (spool_queue d)"
    "\<forall>u \<in> set (spool_queue d) - set (spool_queue d'). env_id u = env_id v" using d'(2) by auto
  have spool': "wk_spool c' = Some d'" "wk_hand c' = wk_hand ?c"
    using s(2) ack k(1) c(1) by (auto simp: receive_def ack_frame_def split: sum.splits)
  have "delivery_ok parse_time account d' (carry c' (w\<lparr>dl_down := rest\<rparr>))"
  proof (cases r)
    case (Inl err)
    then have "wk_phase c' = Online t \<Longrightarrow> False" for t
      using s ack k(1) c(1) by (auto simp: receive_def ack_frame_def)
    with d'(1) ok' spool' c(3) inv show ?thesis
      by (intro delivery_offline) (simp_all add: delivery_ok_def)
  next
    case (Inr u)
    then have t: "wk_phase c' = Online (s\<lparr>ss_sent := ss_sent s - {env_id v}\<rparr>)"
      using s ack k c(1) by (simp add: receive_def ack_frame_def)
    then have carry: "carry c' (w\<lparr>dl_down := rest\<rparr>) = w\<lparr>dl_client := c', dl_down := rest\<rparr>"
      using s(1) by (simp add: carry_def)
    have fly': "flying w = env_id v # flying (carry c' (w\<lparr>dl_down := rest\<rparr>))"
      by (simp add: flying_def carry down)
    show ?thesis
    proof (rule delivery_online)
      show "distinct (flying (carry c' (w\<lparr>dl_down := rest\<rparr>)))"
        "set (flying (carry c' (w\<lparr>dl_down := rest\<rparr>))) \<subseteq> ss_sent (s\<lparr>ss_sent := ss_sent s - {env_id v}\<rparr>)"
        using fly unfolding fly' by auto
      show "ack_ok parse_time account (spool_queue d') (fst (dl_site (carry c' (w\<lparr>dl_down := rest\<rparr>)))) a"
        if "a \<in> set (dl_down (carry c' (w\<lparr>dl_down := rest\<rparr>)))" for a
        using that acks [of "fst a" "snd a"] by (simp add: carry)
    qed (use inv d'(1) ok' spool' c(3) frames t in \<open>simp_all add: carry delivery_ok_def\<close>)
  qed
  with queue show ?thesis by blast
qed

text \<open>The gateway reads a frame of the current connection.\<close>

lemma gateway_keeps_auth:
  "gateway_handles parse_time sha e e' ok v c s = (c', s') \<Longrightarrow> cn_auth c' = cn_auth c"
  by (frule handle_frame_conn) (auto simp: deliver_def split: option.splits)

lemma delivery_handle:
  assumes inv: "delivery_ok parse_time account d w" and up: "dl_up w = f # fs"
    and run: "gateway_handles parse_time sha e e' ok (frame_envelope f) (dl_conn w) (dl_site w) = (c, s)"
  shows "delivery_ok parse_time account d (w\<lparr>dl_conn := c, dl_site := s, dl_up := fs,
    dl_down := dl_down w @ (if cn_written c = cn_written (dl_conn w) then []
      else [(last (cn_written c), frame_envelope f)])\<rparr>)"
proof -
  obtain t where t: "wk_phase (dl_client w) = Online t"
    using inv up by (cases "wk_phase (dl_client w)") (simp_all add: delivery_ok_def)
  then have fly: "distinct (flying w)" "set (flying w) \<subseteq> ss_sent t" using inv by (simp_all add: delivery_ok_def)
  have account: "cn_account_id c = account" "cn_account_id (dl_conn w) = account"
    using inv gateway_keeps_auth [OF run] by (simp_all add: delivery_ok_def cn_account_id_def)
  have acks: "ack_ok parse_time account (spool_queue d) (fst s) a" if "a \<in> set (dl_down w)" for a
    using inv that by (auto simp: delivery_ok_def intro: ack_ok_mono saved_gateway [OF run])
  have f: "frame_ok (spool_queue d) f" using inv up by (simp add: delivery_ok_def)
  let ?a = "(last (cn_written c), frame_envelope f)"
  have new: "ack_ok parse_time account (spool_queue d) (fst s) ?a \<and> events_of (f # fs) = env_id (frame_envelope f) # events_of fs"
    if changed: "cn_written c \<noteq> cn_written (dl_conn w)"
  proof -
    from gateway_acks_events [OF run changed] f obtain v where v: "f = EventFrame v" by (cases f) auto
    have "last (cn_written c) = ack_envelope (dl_conn w) v" "env_id v \<noteq> []"
      using acked_handled [OF run changed] v by simp_all
    moreover have "saved parse_time account v (fst s)" if "env_type v = TypeMessageNew"
      using acked_stored [OF run changed] that v account(2) by (simp add: saved_def)
    ultimately show ?thesis using v f
      by (simp add: ack_ok_def ack_frame_def ack_envelope_def empty_envelope_def)
  qed
  have sub: "events_of (f # fs) = events_of [f] @ events_of fs" by (cases f) simp_all
  let ?w = "w\<lparr>dl_conn := c, dl_site := s, dl_up := fs, dl_down := dl_down w @
    (if cn_written c = cn_written (dl_conn w) then [] else [?a])\<rparr>"
  have fly': "\<exists>xs. flying w = map (\<lambda>(k, v). env_id v) (dl_down w) @ xs @ events_of fs \<and>
    flying ?w = map (\<lambda>(k, v). env_id v) (dl_down w) @ ys @ events_of fs \<and> ys \<in> {[], xs}"
    if "ys = (if cn_written c = cn_written (dl_conn w) then [] else [env_id (frame_envelope f)])" for ys
    using new sub that by (intro exI [of _ "events_of [f]"]) (auto simp: flying_def up)
  from fly' [OF refl] obtain xs ys where *: "flying w = map (\<lambda>(k, v). env_id v) (dl_down w) @ xs @ events_of fs"
    "flying ?w = map (\<lambda>(k, v). env_id v) (dl_down w) @ ys @ events_of fs" "ys \<in> {[], xs}" by blast
  show ?thesis
  proof (rule delivery_online)
    show "distinct (flying ?w)" "set (flying ?w) \<subseteq> ss_sent t"
      using fly *(3) unfolding *(1,2) by auto
    show "ack_ok parse_time account (spool_queue d) (fst (dl_site ?w)) a" if "a \<in> set (dl_down ?w)" for a
      using that acks new by (simp split: if_splits) blast
  qed (use inv t account(1) up in \<open>simp_all add: delivery_ok_def\<close>)
qed

lemma delivery_others:
  assumes "delivery_ok parse_time account d w"
    and "\<And>v. saved parse_time account v (fst (dl_site w)) \<Longrightarrow> saved parse_time account v (fst s)"
  shows "delivery_ok parse_time account d (w\<lparr>dl_site := s\<rparr>)"
  using assms by (auto simp: delivery_ok_def flying_def intro: ack_ok_mono split: link_phase.splits)

subsection \<open>An event leaves the spool only for the database\<close>

text \<open>From \<open>w\<close> to \<open>w'\<close> nothing that was saved is lost, and every event is kept or saved.\<close>

definition keeps ::
  "(string \<Rightarrow> time option) \<Rightarrow> string \<Rightarrow> dir \<Rightarrow> 'h delivery \<Rightarrow> dir \<Rightarrow> 'h delivery \<Rightarrow> bool"
where
  "keeps parse_time account d w d' w' \<longleftrightarrow>
     (\<forall>v. saved parse_time account v (fst (dl_site w)) \<longrightarrow> saved parse_time account v (fst (dl_site w'))) \<and>
     (\<forall>v \<in> set (spool_queue d). env_type v = TypeMessageNew \<longrightarrow>
        v \<in> set (spool_queue d') \<or> saved parse_time account v (fst (dl_site w')))"

lemma keeps_refl: "keeps parse_time account d w d w"
  by (simp add: keeps_def)

lemma keeps_trans:
  "keeps parse_time account d w d1 w1 \<Longrightarrow> keeps parse_time account d1 w1 d2 w2 \<Longrightarrow>
   keeps parse_time account d w d2 w2"
  by (simp add: keeps_def) blast

lemma keepsI:
  "dl_site w' = dl_site w \<Longrightarrow> set (spool_queue d) \<subseteq> set (spool_queue d') \<Longrightarrow> keeps parse_time account d w d' w'"
  "(\<And>v. saved parse_time account v (fst (dl_site w)) \<Longrightarrow> saved parse_time account v (fst (dl_site w'))) \<Longrightarrow>
   keeps parse_time account d w d w'"
  by (auto simp: keeps_def)

lemma delivery_step_keeps:
  assumes step: "delivery_step parse_time sha collate cfg e w = Some w'" and inv: "delivery_ok parse_time account d w"
    and fresh: "\<forall>ev. e = Work (Offer ev) \<longrightarrow> env_id ev = []"
  shows "\<exists>d'. delivery_ok parse_time account d' w' \<and> keeps parse_time account d w d' w'"
proof (cases e)
  case (Work ce)
  with step obtain c' where c': "ok_acks [ce] = {}" "worker_step cfg ce (dl_client w) = Some c'" "w' = carry c' w"
    by (auto split: if_splits)
  have "\<And>ev. ce = Offer ev \<Longrightarrow> env_id ev = []" using fresh Work by simp
  from delivery_work [OF inv c'(2,1) this] show ?thesis unfolding c'(3) by (blast intro: keepsI(1))
next
  case (Accept c)
  with step have "w' = w\<lparr>dl_conn := c\<rparr>" "cn_account_id c = cn_account_id (dl_conn w)" by (auto split: if_splits)
  with inv have "delivery_ok parse_time account d w'"
    by (auto simp: delivery_ok_def flying_def split: link_phase.splits)
  moreover have "keeps parse_time account d w d w'" using \<open>w' = _\<close> by (intro keepsI(1)) simp_all
  ultimately show ?thesis by blast
next
  case (Handle e0 e1 ok)
  with step obtain f fs c s where run: "dl_up w = f # fs"
    "gateway_handles parse_time sha e0 e1 ok (frame_envelope f) (dl_conn w) (dl_site w) = (c, s)"
    "w' = w\<lparr>dl_conn := c, dl_site := s, dl_up := fs, dl_down := dl_down w @
      (if cn_written c = cn_written (dl_conn w) then [] else [(last (cn_written c), frame_envelope f)])\<rparr>"
    by (auto split: list.splits prod.splits)
  have "keeps parse_time account d w d w'" using saved_gateway [OF run(2)] by (intro keepsI(2)) (simp add: run(3))
  with delivery_handle [OF inv run(1,2)] show ?thesis unfolding run(3) by blast
next
  case (HandleOther e0 e1 ok c v)
  obtain c' s where run: "gateway_handles parse_time sha e0 e1 ok v c (dl_site w) = (c', s)" by (rule prod.exhaust)
  with step HandleOther have w': "w' = w\<lparr>dl_site := s\<rparr>" by simp
  have "keeps parse_time account d w d w'" using saved_gateway [OF run] by (intro keepsI(2)) (simp add: w')
  with delivery_others [OF inv saved_gateway [OF run]] show ?thesis unfolding w' by blast
next
  case (Acknowledge io)
  with step obtain k v rest c' where run: "dl_down w = (k, v) # rest"
    "worker_step cfg (Receive io k) (dl_client w) = Some c'" "w' = carry c' (w\<lparr>dl_down := rest\<rparr>)"
    by (auto split: list.splits prod.splits)
  from delivery_acknowledge [OF inv run(1,2)] run(3) obtain d' where d': "delivery_ok parse_time account d' w'"
    "set (spool_queue d') \<subseteq> set (spool_queue d)"
    "\<forall>u \<in> set (spool_queue d) - set (spool_queue d'). env_id u = env_id v" by blast
  have site: "dl_site w' = dl_site w" unfolding run(3) by (simp add: carry_def split: link_phase.split)
  from inv run(1) obtain x where x: "x \<in> set (spool_queue d)" "same_event x v"
    "env_type v = TypeMessageNew \<longrightarrow> saved parse_time account v (fst (dl_site w))"
    by (auto simp: delivery_ok_def ack_ok_def)
  have d: "spool_ok d" using inv by (simp add: delivery_ok_def)
  have "u \<in> set (spool_queue d') \<or> saved parse_time account u (fst (dl_site w'))"
    if "u \<in> set (spool_queue d)" "env_type u = TypeMessageNew" for u
  proof (rule disjCI)
    assume no: "\<not> saved parse_time account u (fst (dl_site w'))"
    show "u \<in> set (spool_queue d')"
    proof (rule ccontr)
      assume "u \<notin> set (spool_queue d')"
      with d'(3) that have "env_id u = env_id x" using same_event_simps(1) [OF x(2)] by auto
      with distinct_queue_ids [OF d that(1) x(1)] have "u = x" .
      with x(2,3) that(2) no site show False
        using same_event_simps(2) [OF x(2)] by (simp add: saved_same [OF x(2)])
    qed
  qed
  with site have "keeps parse_time account d w d' w'" by (simp add: keeps_def)
  with d'(1) show ?thesis by blast
next
  case (Stores e0 c)
  with step have w': "w' = w\<lparr>dl_site := (run_db sha collate e0 c (fst (dl_site w)), snd (dl_site w))\<rparr>"
    "keeps_messages c (fst (dl_site w))" by (auto split: if_splits)
  have "keeps parse_time account d w d w'" by (intro keepsI(2)) (simp add: w'(1) saved_call [OF w'(2)])
  moreover have "delivery_ok parse_time account d w'"
    unfolding w'(1) by (rule delivery_others [OF inv]) (simp add: saved_call [OF w'(2)])
  ultimately show ?thesis by blast
qed

lemma delivery_run_keeps:
  assumes "delivery_run parse_time sha collate cfg es w = Some w'" "delivery_ok parse_time account d w"
    and "\<forall>ev. Work (Offer ev) \<in> set es \<longrightarrow> env_id ev = []"
  shows "\<exists>d'. delivery_ok parse_time account d' w' \<and> keeps parse_time account d w d' w'"
  using assms
proof (induction es arbitrary: w d)
  case (Cons e es)
  from Cons.prems(1) obtain w1 where w1: "delivery_step parse_time sha collate cfg e w = Some w1"
    "delivery_run parse_time sha collate cfg es w1 = Some w'" by (auto split: option.splits)
  have "\<forall>ev. e = Work (Offer ev) \<longrightarrow> env_id ev = []" using Cons.prems(3) by (blast intro: list.set_intros)
  from delivery_step_keeps [OF w1(1) Cons.prems(2) this] obtain d1 where d1: "delivery_ok parse_time account d1 w1"
    "keeps parse_time account d w d1 w1" by (elim exE conjE)
  have "\<forall>ev. Work (Offer ev) \<in> set es \<longrightarrow> env_id ev = []" using Cons.prems(3) by (blast intro: list.set_intros)
  from Cons.IH [OF w1(2) d1(1) this] obtain d2 where d2: "delivery_ok parse_time account d2 w'"
    "keeps parse_time account d1 w1 d2 w'" by (elim exE conjE)
  from d2(1) keeps_trans [OF d1(2) d2(2)] show ?case by (intro exI conjI)
qed (auto intro: keeps_refl)

text \<open>
  C1. A message reaches the database: once a message event is in the worker's spool, then after any
  further run - lost connections and frames, failing system calls and database calls, commands,
  retries, other gateways, other programs on the database that neither prune nor delete - it is
  still in the spool, or a message under its provider's ids is stored for the worker's account.
\<close>

theorem message_survives:
  assumes "delivery_run parse_time sha collate cfg es1 w = Some w1"
    and "delivery_run parse_time sha collate cfg es2 w1 = Some w2"
    and "wk_spool (dl_client w) = Some d" "spool_ok d" "wk_hand (dl_client w) = None"
    and "wk_phase (dl_client w) = Waiting" "dl_up w = []" "dl_down w = []"
    and "\<forall>ev. Work (Offer ev) \<in> set (es1 @ es2) \<longrightarrow> env_id ev = []"
    and "wk_spool (dl_client w1) = Some d1" "v \<in> set (spool_queue d1)" "env_type v = TypeMessageNew"
  shows "(\<exists>d2. wk_spool (dl_client w2) = Some d2 \<and> v \<in> set (spool_queue d2)) \<or>
    saved parse_time (cn_account_id (dl_conn w)) v (fst (dl_site w2))"
proof -
  have start: "delivery_ok parse_time (cn_account_id (dl_conn w)) d w"
    using assms(3-8) by (simp add: delivery_ok_def numberless_def client_ok_def)
  have fresh: "\<forall>ev. Work (Offer ev) \<in> set es1 \<longrightarrow> env_id ev = []"
    "\<forall>ev. Work (Offer ev) \<in> set es2 \<longrightarrow> env_id ev = []" using assms(9) by auto
  from delivery_run_keeps [OF assms(1) start fresh(1)] assms(10)
  have "delivery_ok parse_time (cn_account_id (dl_conn w)) d1 w1" by (auto simp: delivery_ok_def)
  from delivery_run_keeps [OF assms(2) this fresh(2)] assms(11,12) show ?thesis
    by (auto simp: delivery_ok_def keeps_def)
qed

text \<open>A message that travels all the way.\<close>

definition sample_start :: "string delivery" where
  "sample_start = \<lparr>dl_client = new_client_of ''tok'' None (Some []), dl_conn = sample_conn sample_owner,
     dl_site = (sample_db, new_rt_hub), dl_up = [], dl_down = []\<rparr>"

abbreviation sample_offer :: envelope where
  "sample_offer \<equiv> sample_delivery\<lparr>env_id := []\<rparr>"

abbreviation sample_travel :: "delivery_event list" where
  "sample_travel \<equiv> [Work (Dial sample_dial), Handle (sample_env minute) (sample_env minute) True, Acknowledge sample_io]"

lemma handle_sample_delivery:
  assumes "i \<noteq> []"
  shows "\<exists>c s. gateway_handles (\<lambda>_. Some minute) id (sample_env minute) (sample_env minute) True
      (sample_delivery\<lparr>env_id := i, env_generation := 1\<rparr>) (sample_conn sample_owner) (sample_db, new_rt_hub) = (c, s) \<and>
    cn_written c = cn_written (sample_conn sample_owner) @
      [ack_envelope (sample_conn sample_owner) (sample_delivery\<lparr>env_id := i\<rparr>)]"
proof -
  let ?f = "worker_event (\<lambda>_. Some minute) :: (string db \<times> rt_hub) event_handler"
  let ?c = "sample_conn sample_owner"
  obtain r db1 where r: "ingest_message (sample_env minute) sample_owner sample_message True sample_db =
      (Inr (r, True), db1)" using sample_ingest by blast
  have account: "wa_account (cn_auth ?c) = sample_owner" "cn_generation ?c = 1"
    by (simp_all add: sample_conn_def Let_def write_json_def cn_generation_def scan_account_def sample_account_def)
  have "decode_payload (decode_wire_message (\<lambda>_. Some minute) empty_wire_message)
      (sample_delivery\<lparr>env_id := i, env_generation := 1\<rparr>) = Inr sample_message"
    using decode_sample_delivery [of 1] by (auto simp: decode_payload_def split: option.splits)
  with r have f: "?f (sample_env minute) sample_owner (sample_delivery\<lparr>env_id := i, env_generation := 1\<rparr>)
      (sample_db, new_rt_hub) = (Inr (), db1, new_rt_hub)"
    by (simp add: worker_event_def sample_delivery_def IngestMessage_def)
  show ?thesis
    using f account assms
    by (simp add: handle_frame_def handle_event_def sample_delivery_def validate_def empty_envelope_def
        type_defs Version_def Let_def ack_envelope_def write_json_def)
qed

theorem message_survives_witness:
  "\<exists>w1 w2 d1 v. delivery_run (\<lambda>_. Some minute) id (id :: string \<Rightarrow> string) sample_config
       [Work (Offer sample_offer), Work (Spool sample_io)] sample_start = Some w1 \<and>
     delivery_run (\<lambda>_. Some minute) id (id :: string \<Rightarrow> string) sample_config sample_travel w1 = Some w2 \<and>
     wk_spool (dl_client w1) = Some d1 \<and> spool_queue d1 = [v] \<and>
     saved (\<lambda>_. Some minute) ''acc-1'' v (fst (dl_site w2))"
proof -
  let ?run = "delivery_run (\<lambda>_. Some minute) id (id :: string \<Rightarrow> string) sample_config"
  let ?es = "[Work (Offer sample_offer), Work (Spool sample_io)]"
  have ok: "spool_ok []" "spool_queue [] = []" "max_sequence (map fst ([] :: dir)) 0 = 0"
    by (simp_all add: spool_ok_def spool_queue_def event_names_def)
  have offer: "env_id sample_offer = []" by simp
  define i where "i = append_id sample_io []"
  let ?v = "sample_delivery\<lparr>env_id := i\<rparr>"
  obtain d1 where d1: "append_event sample_io sample_offer [] = (Inr (), d1)"
    "pending_events sample_io d1 = Inr [?v]"
    using spool_append_pending [OF ok(1) offer sample_io_ok sample_io_ok] ok by (auto simp: i_def)
  have queue: "spool_ok d1" "spool_queue d1 = [?v]"
    using append_event_queue [OF ok(1) offer d1(1)] pending_events_queue [OF _ sample_io_ok, of d1] d1(2) by auto
  have i: "i \<noteq> []" by (simp add: i_def append_id_def event_id_def)
  let ?c1 = "(new_client_of ''tok'' None (Some d1))\<lparr>wk_notify := True\<rparr>"
  have w1: "?run ?es sample_start = Some (sample_start\<lparr>dl_client := ?c1\<rparr>)"
    by (simp add: sample_start_def new_client_of_def collect_step_def d1(1) carry_def)
  let ?s = "(new_session 1)\<lparr>ss_written := [EventFrame (?v\<lparr>env_generation := 1\<rparr>)], ss_sent := {i}\<rparr>"
  let ?c2 = "?c1\<lparr>wk_file := Some (''secret'' @ [CHR 0x0A]), wk_token := ''secret'', wk_phase := Online ?s\<rparr>"
  have dial: "worker_step sample_config (Dial sample_dial) ?c1 = Some ?c2"
    by (simp add: new_client_of_def connect_sample send_pending_events_def d1(2) continue_def new_session_def)
  obtain c s where handle: "gateway_handles (\<lambda>_. Some minute) id (sample_env minute) (sample_env minute) True
      (?v\<lparr>env_generation := 1\<rparr>) (sample_conn sample_owner) (sample_db, new_rt_hub) = (c, s)"
    "cn_written c = cn_written (sample_conn sample_owner) @ [ack_envelope (sample_conn sample_owner) ?v]"
    using handle_sample_delivery [OF i] by auto
  obtain r d2 where ack: "ack_event sample_io i d1 = (r, d2)" by force
  have "r = Inr ()"
    using ack_event_queue(4) [OF queue(1) ack sample_io_ok i base_no_slash [OF i]] 
    by (simp add: i_def append_id_def event_id_no_slash [OF hex_encode_no_slash])
  then have empty: "spool_queue d2 = []" using ack_event_queue(3) [OF queue(1) ack] queue(2) by simp
  let ?c3 = "?c2\<lparr>wk_spool := Some d2, wk_phase := Online (?s\<lparr>ss_sent := {}\<rparr>)\<rparr>"
  have "worker_step sample_config (Receive sample_io (ack_envelope (sample_conn sample_owner) ?v)) ?c2 = Some ?c3"
    using ack \<open>r = Inr ()\<close> i
    by (simp add: in_loop_def online_def receive_def ack_envelope_def empty_envelope_def new_client_of_def new_session_def)
  then obtain w2 where w2: "?run sample_travel (sample_start\<lparr>dl_client := ?c1\<rparr>) = Some w2"
    "wk_spool (dl_client w2) = Some d2"
    using dial handle by (simp add: sample_start_def carry_def new_client_of_def new_session_def)
  have fresh: "\<forall>ev. Work (Offer ev) \<in> set (?es @ sample_travel) \<longrightarrow> env_id ev = []" by simp
  have type: "env_type ?v = TypeMessageNew" by (simp add: sample_delivery_def)
  have v: "?v \<in> set (spool_queue d1)" by (simp add: queue(2))
  have "saved (\<lambda>_. Some minute) (cn_account_id (dl_conn sample_start)) ?v (fst (dl_site w2))"
    using message_survives [OF w1 w2(1) _ ok(1) _ _ _ _ fresh _ v type] w2(2) empty
    by (simp add: sample_start_def new_client_of_def)
  then show ?thesis using w1 w2(1) queue(2)
    by (auto simp: sample_start_def new_client_of_def sample_conn_def Let_def write_json_def cn_account_id_def
        scan_account_def sample_account_def)
qed

end
