(* ===== verification/SignalCli.thy ===== *)
theory SignalCli
  imports Protocol
begin

section \<open>The signal-cli client\<close>

text \<open>
  \<^verbatim>\<open>internal/signalcli/rpc.go\<close>: calls and notifications over one JSON-RPC connection. \<open>rpc_step\<close> is one
  step of the callers, of the read loop, or of the consumer of the notifications. Shown: a call returns
  the result of a message that carried its own id and nobody else's, no call is left waiting when the
  connection has ended and none leaves anything behind, and notifications are passed on in order until
  the connection is given up.
\<close>

subsection \<open>Decimal numbers\<close>

text \<open>\<^verbatim>\<open>%d\<close>.\<close>

fun digits :: "nat \<Rightarrow> string" where
  "digits n = (if n < 10 then [char_of (48 + n)] else digits (n div 10) @ [char_of (48 + n mod 10)])"

declare digits.simps [simp del]

definition format_int :: "int \<Rightarrow> string" where
  "format_int n = (if n < 0 then CHR ''-'' # digits (nat (- n)) else digits (nat n))"

definition digits_value :: "string \<Rightarrow> nat" where
  "digits_value = foldl (\<lambda>n c. 10 * n + (of_char c - 48)) 0"

lemma of_char_digit: "n < 10 \<Longrightarrow> of_char (char_of (48 + n :: nat) :: char) = 48 + n"
  by (simp add: take_bit_eq_mod)

lemma digits_value [simp]: "digits_value (digits n) = n"
proof (induction n rule: digits.induct)
  case (1 n)
  then show ?case
    by (subst digits.simps) (auto simp: digits_value_def of_char_digit)
qed

lemma digits_inj [simp]: "digits m = digits n \<longleftrightarrow> m = n"
  by (metis digits_value)

lemma digits_no_minus: "CHR ''-'' \<notin> set (digits n)"
proof (induction n rule: digits.induct)
  case (1 n)
  have no: "CHR ''-'' \<noteq> char_of (48 + k :: nat)" if "k < 10" for k
  proof
    assume "CHR ''-'' = char_of (48 + k)"
    then have "48 + k = (of_char CHR ''-'' :: nat)" using of_char_digit [OF that] by metis
    then show False by simp
  qed
  have "n mod 10 < 10" by simp
  with 1 no [of n] no [of "n mod 10"] show ?case by (subst digits.simps) auto
qed

lemma digits_not_empty [simp]: "digits n \<noteq> []"
  by (subst digits.simps) simp

lemma format_int_inj [simp]: "format_int m = format_int n \<longleftrightarrow> m = n"
proof -
  have "CHR ''-'' # digits a \<noteq> digits b" for a b
    using digits_no_minus [of b] by (metis list.set_intros(1))
  then show ?thesis by (auto simp: format_int_def) (metis eq_nat_nat_iff linorder_not_less)+
qed

lemma format_int_not_empty [simp]: "format_int n \<noteq> []"
  by (simp add: format_int_def)

subsection \<open>Messages\<close>

record rpc_message =
  rm_id :: "json option"
  rm_method :: string
  rm_params :: "json option"
  rm_result :: "json option"
  rm_error :: "(int \<times> string) option"

text \<open>
  Struct fields of other types than \<open>string\<close>: a raw field keeps the last member's value, \<open>null\<close>
  included; a 64-bit integer is a number in range.
\<close>

fun decode_raw :: "string \<Rightarrow> json option \<Rightarrow> (string \<times> json) list \<Rightarrow> json option" where
  "decode_raw name v [] = v"
| "decode_raw name v ((k, j) # ms) =
     decode_raw name (if fold_key k = fold_key name then Some j else v) ms"

fun decode_int :: "string \<Rightarrow> int \<Rightarrow> (string \<times> json) list \<Rightarrow> int option" where
  "decode_int name v [] = Some v"
| "decode_int name v ((k, j) # ms) =
     (if fold_key k = fold_key name then
        (case j of
           JNum n \<Rightarrow> if - (2 ^ 63) \<le> n \<and> n < 2 ^ 63 then decode_int name n ms else None
         | JNull \<Rightarrow> decode_int name v ms
         | _ \<Rightarrow> None)
      else decode_int name v ms)"

text \<open>A pointer to a struct: \<open>null\<close> clears it, an object is decoded into what it points to.\<close>

fun decode_pointer ::
  "('a \<Rightarrow> (string \<times> json) list \<Rightarrow> 'a option) \<Rightarrow> 'a \<Rightarrow> string \<Rightarrow> 'a option \<Rightarrow> (string \<times> json) list \<Rightarrow>
   'a option option"
where
  "decode_pointer f zero name p [] = Some p"
| "decode_pointer f zero name p ((k, j) # ms) =
     (if fold_key k = fold_key name then
        (case j of
           JObj members \<Rightarrow> Option.bind (f (case p of None \<Rightarrow> zero | Some v \<Rightarrow> v) members) (\<lambda>v.
             decode_pointer f zero name (Some v) ms)
         | JNull \<Rightarrow> decode_pointer f zero name None ms
         | _ \<Rightarrow> None)
      else decode_pointer f zero name p ms)"

definition decode_rpc_error :: "int \<times> string \<Rightarrow> (string \<times> json) list \<Rightarrow> (int \<times> string) option" where
  "decode_rpc_error err ms =
     Option.bind (decode_int ''code'' (fst err) ms) (\<lambda>code.
     Option.bind (decode_string ''message'' (snd err) ms) (\<lambda>message.
     Some (code, message)))"

fun decode_rpc_message :: "json \<Rightarrow> rpc_message option" where
  "decode_rpc_message (JObj ms) =
     Option.bind (decode_string ''jsonrpc'' [] ms) (\<lambda>_.
     Option.bind (decode_string ''method'' [] ms) (\<lambda>method.
     Option.bind (decode_pointer decode_rpc_error (0, []) ''error'' None ms) (\<lambda>err.
     Some \<lparr>rm_id = decode_raw ''id'' None ms, rm_method = method,
       rm_params = decode_raw ''params'' None ms, rm_result = decode_raw ''result'' None ms,
       rm_error = err\<rparr>)))"
| "decode_rpc_message JNull = Some \<lparr>rm_id = None, rm_method = [], rm_params = None, rm_result = None,
     rm_error = None\<rparr>"
| "decode_rpc_message _ = None"

text \<open>\<^verbatim>\<open>json.Unmarshal(message.ID, &id)\<close> into a string.\<close>

definition message_id :: "rpc_message \<Rightarrow> string option" where
  "message_id m =
     (case rm_id m of
        Some (JStr s) \<Rightarrow> Some s
      | Some JNull \<Rightarrow> Some []
      | _ \<Rightarrow> None)"

definition is_notification :: "rpc_message \<Rightarrow> bool" where
  "is_notification m \<longleftrightarrow> rm_method m \<noteq> [] \<and> rm_id m = None"

subsection \<open>State\<close>

text \<open>
  A call is registered, waits for one of three things, and on its way out takes its entry out of
  \<open>pending\<close>. \<open>ca_reply\<close> is its channel of capacity one. A result is an error, or the value the
  response brought, if it brought one; decoding it into the caller's type is \<open>call_value\<close>.
\<close>

type_synonym rpc_result = "go_error + json option"

datatype call_phase = Prepared | Awaiting | Returning rpc_result | Returned rpc_result

record rpc_call =
  ca_id :: string
  ca_method :: string
  ca_params :: json
  ca_reply :: "rpc_message option"
  ca_phase :: call_phase

record rpc_client =
  rc_next :: "64 word"
  rc_pending :: "string \<rightharpoonup> nat"
  rc_calls :: "rpc_call list"
  rc_written :: "rpc_message list"
  rc_notifications :: "(string \<times> json option) list"
  rc_taken :: "(string \<times> json option) list"
  rc_done :: bool
  rc_read_err :: "go_error option"

definition new_rpc_client :: rpc_client where
  "new_rpc_client = \<lparr>rc_next = 0, rc_pending = Map.empty, rc_calls = [], rc_written = [],
     rc_notifications = [], rc_taken = [], rc_done = False, rc_read_err = None\<rparr>"

subsection \<open>Calls\<close>

definition ErrEOF :: go_error where "ErrEOF = Sentinel ''io.EOF''"

definition ErrOverflow :: go_error where
  "ErrOverflow = NewError ''signal-cli notification buffer overflow''"

definition connection_error :: "rpc_client \<Rightarrow> go_error" where
  "connection_error c =
     (case rc_read_err c of Some err \<Rightarrow> err | None \<Rightarrow> NewError ''signal-cli connection closed'')"

definition rpc_error :: "int \<times> string \<Rightarrow> go_error" where
  "rpc_error err = NewError (''signal-cli JSON-RPC '' @ format_int (fst err) @ '': '' @ snd err)"

text \<open>\<open>Call\<close> up to its write: the id, the marshalled parameters, the entry in \<open>pending\<close>.\<close>

definition begin_call :: "string \<Rightarrow> go_error + json \<Rightarrow> rpc_client \<Rightarrow> rpc_client" where
  "begin_call method params c =
     (let n = rc_next c + 1;
          i = digits (unat n);
          call = \<lparr>ca_id = i, ca_method = method, ca_params = JNull, ca_reply = None, ca_phase = Prepared\<rparr>;
          c = c\<lparr>rc_next := n\<rparr>
      in case params of
        Inl err \<Rightarrow> c\<lparr>rc_calls := rc_calls c @
          [call\<lparr>ca_phase := Returned (Inl (Wrapped (''marshal '' @ method @ '' params'') err))\<rparr>]\<rparr>
      | Inr raw \<Rightarrow> c\<lparr>rc_pending := (rc_pending c)(i \<mapsto> length (rc_calls c)),
          rc_calls := rc_calls c @ [call\<lparr>ca_params := raw\<rparr>]\<rparr>)"

definition rpc_request :: "rpc_call \<Rightarrow> rpc_message" where
  "rpc_request call = \<lparr>rm_id = Some (JStr (ca_id call)), rm_method = ca_method call,
     rm_params = Some (ca_params call), rm_result = None, rm_error = None\<rparr>"

definition reply_result :: "rpc_message \<Rightarrow> rpc_result" where
  "reply_result m =
     (case rm_error m of
        Some err \<Rightarrow> Inl (rpc_error err)
      | None \<Rightarrow> Inr (if rm_result m = Some JNull then None else rm_result m))"

text \<open>The caller's variable after the call: \<open>zero\<close> unless a value was decoded into it.\<close>

definition call_value :: "string \<Rightarrow> (json \<Rightarrow> 'a option) \<Rightarrow> 'a \<Rightarrow> rpc_result \<Rightarrow> go_error + 'a" where
  "call_value method decoder zero r =
     attempt r (\<lambda>v. case v of
        None \<Rightarrow> Inr zero
      | Some j \<Rightarrow>
          (case decoder j of
             None \<Rightarrow> Inl (Wrapped (''decode '' @ method @ '' result'') (NewError ''json''))
           | Some x \<Rightarrow> Inr x))"

subsection \<open>Steps\<close>

text \<open>
  \<open>Begin\<close>, \<open>Send\<close> (with the error of the write), \<open>GiveUp\<close> (the context's error), \<open>Down\<close>, \<open>Take\<close> and
  \<open>Forget\<close> (the deferred delete) are steps of \<open>Call\<close>, \<open>Read\<close> of \<open>readLoop\<close>, \<open>Consume\<close> of the receiver
  of \<open>Notifications()\<close>.
\<close>

datatype rpc_event =
    Begin string "go_error + json"
  | Send nat "go_error option"
  | GiveUp nat go_error
  | Down nat
  | Take nat
  | Forget nat
  | Read "go_error + json"
  | Consume

definition in_call :: "nat \<Rightarrow> (rpc_call \<Rightarrow> rpc_client option) \<Rightarrow> rpc_client \<Rightarrow> rpc_client option" where
  "in_call i f c = (if i < length (rc_calls c) then f (rc_calls c ! i) else None)"

definition set_call :: "nat \<Rightarrow> rpc_call \<Rightarrow> rpc_client \<Rightarrow> rpc_client" where
  "set_call i call c = c\<lparr>rc_calls := (rc_calls c)[i := call]\<rparr>"

definition stop_reading :: "go_error option \<Rightarrow> rpc_client \<Rightarrow> rpc_client" where
  "stop_reading err c = c\<lparr>rc_done := True, rc_read_err := (case err of None \<Rightarrow> rc_read_err c | Some _ \<Rightarrow> err)\<rparr>"

text \<open>The capacity of \<open>notifications\<close>.\<close>

definition notifications_capacity :: nat where "notifications_capacity = 64"

definition take_message :: "rpc_message \<Rightarrow> rpc_client \<Rightarrow> rpc_client" where
  "take_message m c =
     (if is_notification m then
        if length (rc_notifications c) < notifications_capacity then
          c\<lparr>rc_notifications := rc_notifications c @ [(rm_method m, rm_params m)]\<rparr>
        else stop_reading (Some ErrOverflow) c
      else case Option.bind (message_id m) (rc_pending c) of
        None \<Rightarrow> c
      | Some i \<Rightarrow>
          let call = rc_calls c ! i in
          if ca_reply call = None then set_call i (call\<lparr>ca_reply := Some m\<rparr>) c else c)"

fun rpc_step :: "rpc_event \<Rightarrow> rpc_client \<Rightarrow> rpc_client option" where
  "rpc_step (Begin method params) c = Some (begin_call method params c)"
| "rpc_step (Send i fault) c = in_call i (\<lambda>call.
     if ca_phase call = Prepared then
       Some (case fault of
         Some err \<Rightarrow> set_call i (call\<lparr>ca_phase :=
           Returning (Inl (Wrapped (''write '' @ ca_method call @ '' request'') err))\<rparr>) c
       | None \<Rightarrow> (set_call i (call\<lparr>ca_phase := Awaiting\<rparr>) c)\<lparr>rc_written := rc_written c @ [rpc_request call]\<rparr>)
     else None) c"
| "rpc_step (GiveUp i err) c = in_call i (\<lambda>call.
     if ca_phase call = Awaiting then Some (set_call i (call\<lparr>ca_phase := Returning (Inl err)\<rparr>) c) else None) c"
| "rpc_step (Down i) c = in_call i (\<lambda>call.
     if ca_phase call = Awaiting \<and> rc_done c then
       Some (set_call i (call\<lparr>ca_phase := Returning (Inl (connection_error c))\<rparr>) c)
     else None) c"
| "rpc_step (Take i) c = in_call i (\<lambda>call.
     case (ca_phase call, ca_reply call) of
       (Awaiting, Some m) \<Rightarrow>
         Some (set_call i (call\<lparr>ca_reply := None, ca_phase := Returning (reply_result m)\<rparr>) c)
     | _ \<Rightarrow> None) c"
| "rpc_step (Forget i) c = in_call i (\<lambda>call.
     case ca_phase call of
       Returning r \<Rightarrow>
         Some ((set_call i (call\<lparr>ca_phase := Returned r\<rparr>) c)
           \<lparr>rc_pending := (rc_pending c)(ca_id call := None)\<rparr>)
     | _ \<Rightarrow> None) c"
| "rpc_step (Read input) c =
     (if rc_done c then None
      else Some (case input of
        Inl err \<Rightarrow> stop_reading (if errors_is err ErrEOF then None else Some err) c
      | Inr j \<Rightarrow>
          (case decode_rpc_message j of
             None \<Rightarrow> stop_reading (Some (NewError ''json'')) c
           | Some m \<Rightarrow> take_message m c)))"
| "rpc_step Consume c =
     (case rc_notifications c of
        [] \<Rightarrow> None
      | n # ns \<Rightarrow> Some (c\<lparr>rc_notifications := ns, rc_taken := rc_taken c @ [n]\<rparr>))"

fun rpc_run :: "rpc_event list \<Rightarrow> rpc_client \<Rightarrow> rpc_client option" where
  "rpc_run [] c = Some c"
| "rpc_run (e # es) c = (case rpc_step e c of None \<Rightarrow> None | Some c' \<Rightarrow> rpc_run es c')"

subsection \<open>Every call and the messages\<close>

fun begun :: "rpc_event list \<Rightarrow> nat" where
  "begun [] = 0"
| "begun (Begin method params # es) = Suc (begun es)"
| "begun (_ # es) = begun es"

lemma begun_append [simp]: "begun (xs @ ys) = begun xs + begun ys"
  by (induction xs rule: begun.induct) auto

text \<open>The message \<open>m\<close> was read after call \<open>i\<close> had begun, and it carries the id \<open>k\<close>.\<close>

definition answered :: "rpc_event list \<Rightarrow> nat \<Rightarrow> string \<Rightarrow> rpc_message \<Rightarrow> bool" where
  "answered es i k m \<longleftrightarrow> message_id m = Some k \<and> \<not> is_notification m \<and>
     (\<exists>es1 j es2. es = es1 @ Read (Inr j) # es2 \<and> i < begun es1 \<and> decode_rpc_message j = Some m)"

lemma answered_more: "answered es i k m \<Longrightarrow> answered (es @ es') i k m"
  unfolding answered_def by fastforce

fun call_result :: "call_phase \<Rightarrow> rpc_result option" where
  "call_result (Returning r) = Some r"
| "call_result (Returned r) = Some r"
| "call_result _ = None"

definition call_id :: "nat \<Rightarrow> string" where
  "call_id i = digits (unat (of_nat (Suc i) :: 64 word))"

lemma call_id_inj: "i < 2 ^ 64 - 1 \<Longrightarrow> j < 2 ^ 64 - 1 \<Longrightarrow> call_id i = call_id j \<longleftrightarrow> i = j"
  by (simp add: call_id_def unsigned_of_nat take_bit_nat_eq_self del: of_nat_Suc)

definition call_ok :: "rpc_event list \<Rightarrow> nat \<Rightarrow> rpc_call \<Rightarrow> bool" where
  "call_ok es i call \<longleftrightarrow> ca_id call = call_id i \<and>
     (\<forall>m. ca_reply call = Some m \<longrightarrow> answered es i (call_id i) m) \<and>
     (\<forall>v. call_result (ca_phase call) = Some (Inr v) \<longrightarrow>
        (\<exists>m. answered es i (call_id i) m \<and> reply_result m = Inr v))"

definition finished :: "rpc_call \<Rightarrow> bool" where
  "finished call \<longleftrightarrow> (\<exists>r. ca_phase call = Returned r)"

text \<open>\<open>pending\<close> holds exactly the calls that are under way, as long as the ids have not wrapped around.\<close>

definition pending_ok :: "rpc_client \<Rightarrow> bool" where
  "pending_ok c \<longleftrightarrow>
     (\<forall>k i. rc_pending c k = Some i \<longrightarrow>
        i < length (rc_calls c) \<and> ca_id (rc_calls c ! i) = k \<and> \<not> finished (rc_calls c ! i)) \<and>
     (length (rc_calls c) < 2 ^ 64 \<longrightarrow> (\<forall>i < length (rc_calls c). \<not> finished (rc_calls c ! i) \<longrightarrow>
        rc_pending c (ca_id (rc_calls c ! i)) = Some i))"

definition rpc_inv :: "rpc_event list \<Rightarrow> rpc_client \<Rightarrow> bool" where
  "rpc_inv es c \<longleftrightarrow> length (rc_calls c) = begun es \<and> rc_next c = of_nat (begun es) \<and>
     (\<forall>i < length (rc_calls c). call_ok es i (rc_calls c ! i)) \<and> pending_ok c"

lemma rpc_inv_new: "rpc_inv [] new_rpc_client"
  by (simp add: rpc_inv_def pending_ok_def new_rpc_client_def)

lemma call_ok_more: "call_ok es i call \<Longrightarrow> call_ok (es @ es') i call"
  using answered_more unfolding call_ok_def by metis

lemma pending_ok_cong:
  "pending_ok c \<Longrightarrow> rc_pending c' = rc_pending c \<Longrightarrow> length (rc_calls c') = length (rc_calls c) \<Longrightarrow>
   (\<And>i. i < length (rc_calls c) \<Longrightarrow> ca_id (rc_calls c' ! i) = ca_id (rc_calls c ! i) \<and>
      finished (rc_calls c' ! i) = finished (rc_calls c ! i)) \<Longrightarrow> pending_ok c'"
  by (simp add: pending_ok_def)

lemma rpc_invD:
  "rpc_inv es c \<Longrightarrow> i < length (rc_calls c) \<Longrightarrow> call_ok (es @ es') i (rc_calls c ! i)"
  by (simp add: rpc_inv_def call_ok_more)

lemma rpc_inv_same:
  assumes inv: "rpc_inv es c" and e: "begun [e] = 0"
    and c': "rc_calls c' = rc_calls c" "rc_pending c' = rc_pending c" "rc_next c' = rc_next c"
  shows "rpc_inv (es @ [e]) c'"
proof -
  have "pending_ok c'" by (rule pending_ok_cong [of c]) (use inv in \<open>simp_all add: rpc_inv_def c'\<close>)
  with inv e show ?thesis by (simp add: rpc_inv_def c' call_ok_more)
qed

text \<open>A step that changes one call and leaves \<open>pending\<close> alone.\<close>

lemma calls_ok_update:
  assumes "rpc_inv es c" "begun [e] = 0" "call_ok (es @ [e]) i call" "i < length (rc_calls c)"
  shows "\<forall>j < length (rc_calls c). call_ok (es @ [e]) j ((rc_calls c)[i := call] ! j)"
  using assms(3,4) rpc_invD [OF assms(1)] by (auto simp: nth_list_update)

lemma rpc_inv_call:
  assumes inv: "rpc_inv es c" and e: "begun [e] = 0" and i: "i < length (rc_calls c)"
    and call: "call_ok (es @ [e]) i call" "finished call \<longleftrightarrow> finished (rc_calls c ! i)"
    and c': "rc_calls c' = (rc_calls c)[i := call]" "rc_pending c' = rc_pending c" "rc_next c' = rc_next c"
  shows "rpc_inv (es @ [e]) c'"
proof -
  have same: "ca_id call = ca_id (rc_calls c ! i)"
    using rpc_invD [OF inv i, of "[e]"] call(1) by (simp add: call_ok_def)
  have "pending_ok c'"
    by (rule pending_ok_cong [of c]) (use inv i in \<open>auto simp: rpc_inv_def c' nth_list_update same call(2)\<close>)
  with inv e calls_ok_update [OF inv e call(1) i] show ?thesis by (simp add: rpc_inv_def c')
qed

lemma rpc_inv_begin:
  assumes inv: "rpc_inv es c"
  shows "rpc_inv (es @ [Begin method params]) (begin_call method params c)"
proof -
  let ?c = "begin_call method params c" and ?n = "length (rc_calls c)"
  define call where "call = last (rc_calls ?c)"
  have next_id: "rc_next c + 1 = of_nat (Suc ?n)" using inv by (simp add: rpc_inv_def)
  have call: "rc_calls ?c = rc_calls c @ [call]" "ca_id call = call_id ?n"
    "ca_reply call = None" "call_result (ca_phase call) \<noteq> Some (Inr v)" "rc_next ?c = of_nat (Suc ?n)"
    "finished call \<longrightarrow> rc_pending ?c = rc_pending c"
    "\<not> finished call \<longrightarrow> rc_pending ?c = (rc_pending c)(ca_id call \<mapsto> ?n)" for v
    unfolding call_def begin_call_def next_id
    by (cases params; simp add: Let_def finished_def call_id_def del: of_nat_Suc)+
  have ok: "call_ok (es @ [Begin method params]) i (rc_calls ?c ! i)" if "i < length (rc_calls ?c)" for i
    using that rpc_invD [OF inv, of i "[Begin method params]"] call(1-4)
    by (auto simp: nth_append call_ok_def less_Suc_eq)
  have p: "pending_ok c" using inv by (simp add: rpc_inv_def)
  have ids: "ca_id (rc_calls c ! i) \<noteq> ca_id call" if "i < ?n" "Suc ?n < 2 ^ 64" for i
    using rpc_invD [OF inv that(1), of "[]"] that call(2) call_id_inj [of i ?n] by (simp add: call_ok_def)
  have "pending_ok ?c"
    using p ids call(1,6,7) unfolding pending_ok_def
    by (auto simp: nth_append less_Suc_eq split: if_splits)
  with inv ok call(1,5) show ?thesis by (simp add: rpc_inv_def)
qed

lemma rpc_inv_forget:
  assumes inv: "rpc_inv es c" and i: "i < length (rc_calls c)" and r: "ca_phase (rc_calls c ! i) = Returning r"
  shows "rpc_inv (es @ [Forget i]) ((set_call i ((rc_calls c ! i)\<lparr>ca_phase := Returned r\<rparr>) c)
    \<lparr>rc_pending := (rc_pending c)(ca_id (rc_calls c ! i) := None)\<rparr>)"
proof -
  let ?call = "(rc_calls c ! i)\<lparr>ca_phase := Returned r\<rparr>"
  have "call_ok (es @ [Forget i]) i ?call" using rpc_invD [OF inv i, of "[Forget i]"] r by (simp add: call_ok_def)
  from calls_ok_update [OF inv _ this i] have calls:
    "\<forall>j < length (rc_calls c). call_ok (es @ [Forget i]) j ((rc_calls c)[i := ?call] ! j)" by simp
  have ids: "ca_id (rc_calls c ! j) \<noteq> ca_id (rc_calls c ! i)"
    if "j < length (rc_calls c)" "j \<noteq> i" "length (rc_calls c) < 2 ^ 64" for j
    using rpc_invD [OF inv that(1), of "[]"] rpc_invD [OF inv i, of "[]"] that i call_id_inj [of j i]
    by (simp add: call_ok_def)
  have p: "pending_ok c" using inv by (simp add: rpc_inv_def)
  have "pending_ok ((set_call i ?call c)\<lparr>rc_pending := (rc_pending c)(ca_id (rc_calls c ! i) := None)\<rparr>)"
    using p ids i unfolding pending_ok_def
    by (auto simp: set_call_def nth_list_update finished_def split: if_splits)
  with inv calls show ?thesis by (simp add: rpc_inv_def set_call_def)
qed

lemma rpc_inv_read:
  assumes inv: "rpc_inv es c" and j: "decode_rpc_message j = Some m"
  shows "rpc_inv (es @ [Read (Inr j)]) (take_message m c)"
proof (cases "\<not> is_notification m \<and> (\<exists>i. Option.bind (message_id m) (rc_pending c) = Some i \<and>
    ca_reply (rc_calls c ! i) = None)")
  case True
  then obtain k i where m: "\<not> is_notification m" "message_id m = Some k" "rc_pending c k = Some i"
    "ca_reply (rc_calls c ! i) = None" by (auto simp: bind_eq_Some_conv)
  then have i: "i < length (rc_calls c)" "ca_id (rc_calls c ! i) = k"
    using inv by (auto simp: rpc_inv_def pending_ok_def)
  have "answered (es @ [Read (Inr j)]) i k m"
    unfolding answered_def using m(1,2) j i(1) inv by (auto simp: rpc_inv_def)
  then have "call_ok (es @ [Read (Inr j)]) i ((rc_calls c ! i)\<lparr>ca_reply := Some m\<rparr>)"
    using rpc_invD [OF inv i(1), of "[Read (Inr j)]"] i(2) by (simp add: call_ok_def)
  with rpc_inv_call [OF inv _ i(1)] m show ?thesis
    by (simp add: take_message_def set_call_def finished_def)
next
  case False
  then have "rc_calls (take_message m c) = rc_calls c" "rc_pending (take_message m c) = rc_pending c"
    "rc_next (take_message m c) = rc_next c"
    by (auto simp: take_message_def stop_reading_def Let_def split: option.splits)
  with rpc_inv_same [OF inv] show ?thesis by simp
qed

lemma in_call_Some:
  "in_call i f c = Some c' \<longleftrightarrow> i < length (rc_calls c) \<and> f (rc_calls c ! i) = Some c'"
  by (simp add: in_call_def)

lemma rpc_inv_step:
  assumes inv: "rpc_inv es c" and step: "rpc_step e c = Some c'"
  shows "rpc_inv (es @ [e]) c'"
proof (cases e)
  case (Begin name params)
  with step rpc_inv_begin [OF inv, of name params] show ?thesis by simp
next
  case (Forget i)
  with step obtain r where "i < length (rc_calls c)" "ca_phase (rc_calls c ! i) = Returning r"
    "c' = (set_call i ((rc_calls c ! i)\<lparr>ca_phase := Returned r\<rparr>) c)
      \<lparr>rc_pending := (rc_pending c)(ca_id (rc_calls c ! i) := None)\<rparr>"
    by (auto simp: in_call_Some split: call_phase.splits)
  with Forget rpc_inv_forget [OF inv, of i r] show ?thesis by simp
next
  case (Read input)
  then show ?thesis
  proof (cases "\<exists>j m. input = Inr j \<and> decode_rpc_message j = Some m")
    case True
    with Read step rpc_inv_read [OF inv] show ?thesis by (auto split: if_splits)
  next
    case False
    with Read step have "rc_calls c' = rc_calls c" "rc_pending c' = rc_pending c" "rc_next c' = rc_next c"
      by (auto simp: stop_reading_def split: if_splits sum.splits option.splits)
    with Read rpc_inv_same [OF inv] show ?thesis by simp
  qed
next
  case Consume
  with step rpc_inv_same [OF inv] show ?thesis by (auto split: list.splits)
next
  case (Send i fault)
  with step have i: "i < length (rc_calls c)" "ca_phase (rc_calls c ! i) = Prepared"
    by (auto simp: in_call_Some split: if_splits)
  let ?call = "case fault of None \<Rightarrow> (rc_calls c ! i)\<lparr>ca_phase := Awaiting\<rparr>
    | Some err \<Rightarrow> (rc_calls c ! i)\<lparr>ca_phase :=
        Returning (Inl (Wrapped (''write '' @ ca_method (rc_calls c ! i) @ '' request'') err))\<rparr>"
  have "call_ok (es @ [e]) i ?call"
    using rpc_invD [OF inv i(1), of "[e]"] by (simp add: call_ok_def split: option.split)
  from rpc_inv_call [OF inv _ i(1) this, of c'] step Send i(2) show ?thesis
    by (auto simp: in_call_Some set_call_def finished_def split: option.splits)
next
  case (Take i)
  with step obtain m where i: "i < length (rc_calls c)" "ca_phase (rc_calls c ! i) = Awaiting"
    "ca_reply (rc_calls c ! i) = Some m"
    "c' = set_call i ((rc_calls c ! i)\<lparr>ca_reply := None, ca_phase := Returning (reply_result m)\<rparr>) c"
    by (auto simp: in_call_Some split: call_phase.splits option.splits)
  then have "call_ok (es @ [e]) i ((rc_calls c ! i)\<lparr>ca_reply := None, ca_phase := Returning (reply_result m)\<rparr>)"
    using rpc_invD [OF inv i(1), of "[e]"] by (auto simp: call_ok_def)
  with rpc_inv_call [OF inv _ i(1) this] i Take show ?thesis by (simp add: set_call_def finished_def)
next
  case (GiveUp i err)
  with step have i: "i < length (rc_calls c)" "ca_phase (rc_calls c ! i) = Awaiting"
    by (auto simp: in_call_Some split: if_splits)
  have "call_ok (es @ [e]) i ((rc_calls c ! i)\<lparr>ca_phase := Returning (Inl err)\<rparr>)"
    using rpc_invD [OF inv i(1), of "[e]"] by (simp add: call_ok_def)
  from rpc_inv_call [OF inv _ i(1) this, of c'] step GiveUp i(2) show ?thesis
    by (auto simp: in_call_Some set_call_def finished_def)
next
  case (Down i)
  with step have i: "i < length (rc_calls c)" "ca_phase (rc_calls c ! i) = Awaiting" "rc_done c"
    by (auto simp: in_call_Some split: if_splits)
  have "call_ok (es @ [e]) i ((rc_calls c ! i)\<lparr>ca_phase := Returning (Inl (connection_error c))\<rparr>)"
    using rpc_invD [OF inv i(1), of "[e]"] by (simp add: call_ok_def)
  from rpc_inv_call [OF inv _ i(1) this, of c'] step Down i(2,3) show ?thesis
    by (auto simp: in_call_Some set_call_def finished_def)
qed

lemma rpc_run_induct:
  assumes "rpc_run es c = Some c'" "P [] c"
    and "\<And>xs e a b. P xs a \<Longrightarrow> rpc_step e a = Some b \<Longrightarrow> P (xs @ [e]) b"
  shows "P es c'"
proof -
  have "P (xs @ es) c'" if "P xs c" for xs
    using assms(1) that
  proof (induction es arbitrary: xs c)
    case (Cons e es)
    from Cons.prems(1) obtain b where b: "rpc_step e c = Some b" "rpc_run es b = Some c'"
      by (auto split: option.splits)
    from Cons.IH [OF b(2) assms(3) [OF Cons.prems(2) b(1)]] show ?case by simp
  qed simp
  from this [of "[]"] assms(2) show ?thesis by simp
qed

lemma rpc_run_inv: "rpc_run es new_rpc_client = Some c \<Longrightarrow> rpc_inv es c"
  by (rule rpc_run_induct [where P = rpc_inv]) (auto intro: rpc_inv_new rpc_inv_step)

text \<open>
  C21. Replies are not mixed up: whatever the daemon sends and however the calls interleave, the value
  a call returns comes from a message that was read after the call had begun and that carries the id
  of exactly this call - no other call has it, up to \<open>2 ^ 64\<close> calls.
\<close>

theorem replies_correlated:
  assumes "rpc_run es new_rpc_client = Some c" "i < length (rc_calls c)"
    and "call_result (ca_phase (rc_calls c ! i)) = Some (Inr v)"
  shows "(\<exists>es1 j es2 m. es = es1 @ Read (Inr j) # es2 \<and> i < begun es1 \<and> decode_rpc_message j = Some m \<and>
      message_id m = Some (ca_id (rc_calls c ! i)) \<and> reply_result m = Inr v) \<and>
    (\<forall>k < length (rc_calls c). k \<noteq> i \<and> length (rc_calls c) < 2 ^ 64 \<longrightarrow>
      ca_id (rc_calls c ! k) \<noteq> ca_id (rc_calls c ! i))"
proof -
  note inv = rpc_run_inv [OF assms(1)]
  have ids: "ca_id (rc_calls c ! k) = call_id k" if "k < length (rc_calls c)" for k
    using rpc_invD [OF inv that, of "[]"] by (simp add: call_ok_def)
  from rpc_invD [OF inv assms(2), of "[]"] assms(3) obtain m where
    "answered es i (call_id i) m" "reply_result m = Inr v" by (auto simp: call_ok_def)
  then have "\<exists>es1 j es2 m. es = es1 @ Read (Inr j) # es2 \<and> i < begun es1 \<and> decode_rpc_message j = Some m \<and>
      message_id m = Some (ca_id (rc_calls c ! i)) \<and> reply_result m = Inr v"
    unfolding answered_def ids [OF assms(2)] by blast
  moreover have "ca_id (rc_calls c ! k) \<noteq> ca_id (rc_calls c ! i)"
    if "k < length (rc_calls c)" "k \<noteq> i" "length (rc_calls c) < 2 ^ 64" for k
    using that ids assms(2) call_id_inj [of k i] by simp
  ultimately show ?thesis by blast
qed

text \<open>
  A reply arrives, and nothing stays behind: while calls are under way, a message with the id of a
  waiting call makes that call return what the message says, without touching another call; and when
  every call has returned, the table of pending calls is empty.
\<close>

theorem reply_delivered:
  assumes "rpc_run es new_rpc_client = Some c" "length (rc_calls c) < 2 ^ 64"
  shows "(i < length (rc_calls c) \<and> \<not> rc_done c \<and> ca_phase (rc_calls c ! i) = Awaiting \<and>
      ca_reply (rc_calls c ! i) = None \<and> decode_rpc_message j = Some m \<and> \<not> is_notification m \<and>
      message_id m = Some (ca_id (rc_calls c ! i)) \<longrightarrow>
      (\<exists>c'. rpc_run [Read (Inr j), Take i, Forget i] c = Some c' \<and>
        ca_phase (rc_calls c' ! i) = Returned (reply_result m) \<and>
        (\<forall>k. k \<noteq> i \<longrightarrow> rc_calls c' ! k = rc_calls c ! k))) \<and>
    ((\<forall>call \<in> set (rc_calls c). finished call) \<longrightarrow> rc_pending c = Map.empty)"
proof -
  have p: "pending_ok c" using rpc_run_inv [OF assms(1)] by (simp add: rpc_inv_def)
  have "rc_pending c (ca_id (rc_calls c ! i)) = Some i"
    if "i < length (rc_calls c)" "ca_phase (rc_calls c ! i) = Awaiting"
    using p that assms(2) by (simp add: pending_ok_def finished_def)
  moreover have "rc_pending c = Map.empty" if "\<forall>call \<in> set (rc_calls c). finished call"
    using p that by (auto simp: pending_ok_def fun_eq_iff) (metis nth_mem option.exhaust)
  ultimately show ?thesis
    by (auto simp: in_call_def take_message_def set_call_def)
qed

text \<open>
  No call hangs on a dead connection: once the read loop has ended, every call that has not
  returned returns by its own steps alone.
\<close>

theorem call_never_stuck:
  assumes "rpc_run es new_rpc_client = Some c" "rc_done c" "i < length (rc_calls c)"
  shows "\<exists>moves c'. set moves \<subseteq> {Send i None, Down i, Forget i} \<and> rpc_run moves c = Some c' \<and>
    finished (rc_calls c' ! i)"
proof -
  have forget: "\<exists>c'. rpc_run [Forget i] a = Some c' \<and> finished (rc_calls c' ! i)"
    if "i < length (rc_calls a)" "ca_phase (rc_calls a ! i) = Returning r" for a r
    using that by (simp add: in_call_def set_call_def finished_def)
  have down: "\<exists>c'. rpc_run [Down i, Forget i] a = Some c' \<and> finished (rc_calls c' ! i)"
    if "i < length (rc_calls a)" "ca_phase (rc_calls a ! i) = Awaiting" "rc_done a" for a
    using that by (simp add: in_call_def set_call_def finished_def)
  show ?thesis
  proof (cases "ca_phase (rc_calls c ! i)")
    case Prepared
    then obtain b where "rpc_step (Send i None) c = Some b" "i < length (rc_calls b)"
      "ca_phase (rc_calls b ! i) = Awaiting" "rc_done b"
      using assms(2,3) by (simp add: in_call_def set_call_def)
    with down [of b] show ?thesis by (intro exI [of _ "[Send i None, Down i, Forget i]"]) auto
  next
    case Awaiting
    with down [of c] assms(2,3) show ?thesis by (intro exI [of _ "[Down i, Forget i]"]) auto
  next
    case (Returning r)
    with forget [of c] assms(3) show ?thesis by (intro exI [of _ "[Forget i]"]) auto
  next
    case (Returned r)
    then show ?thesis by (intro exI [of _ "[]"]) (simp add: finished_def)
  qed
qed

subsection \<open>Notifications\<close>

fun notices :: "rpc_event list \<Rightarrow> (string \<times> json option) list" where
  "notices [] = []"
| "notices (Read (Inr j) # es) =
     (case decode_rpc_message j of
        Some m \<Rightarrow> if is_notification m then (rm_method m, rm_params m) # notices es else notices es
      | None \<Rightarrow> notices es)"
| "notices (_ # es) = notices es"

lemma notices_append [simp]: "notices (xs @ ys) = notices xs @ notices ys"
  by (induction xs rule: notices.induct) (auto split: option.split)

definition notices_ok :: "rpc_event list \<Rightarrow> rpc_client \<Rightarrow> bool" where
  "notices_ok es c \<longleftrightarrow> length (rc_notifications c) \<le> notifications_capacity \<and>
     (notices es = rc_taken c @ rc_notifications c \<or>
      rc_done c \<and> rc_read_err c = Some ErrOverflow \<and>
      (\<exists>n. notices es = rc_taken c @ rc_notifications c @ [n]))"

lemma notices_ok_same:
  "notices_ok es c \<Longrightarrow> notices [e] = [] \<Longrightarrow> rc_notifications c' = rc_notifications c \<Longrightarrow> rc_taken c' = rc_taken c \<Longrightarrow>
   rc_done c' = rc_done c \<Longrightarrow> rc_read_err c' = rc_read_err c \<Longrightarrow> notices_ok (es @ [e]) c'"
  by (simp add: notices_ok_def)

lemma notices_ok_step:
  assumes ok: "notices_ok es c" and step: "rpc_step e c = Some c'"
  shows "notices_ok (es @ [e]) c'"
proof (cases e)
  case (Begin name params)
  with step show ?thesis
    by (intro notices_ok_same [OF ok]) (auto simp: begin_call_def Let_def split: sum.splits)
next
  case (Read input)
  with step ok have unread: "\<not> rc_done c" "notices es = rc_taken c @ rc_notifications c"
    "length (rc_notifications c) \<le> notifications_capacity"
    by (auto simp: notices_ok_def split: if_splits)
  show ?thesis
  proof (cases "\<exists>j m. input = Inr j \<and> decode_rpc_message j = Some m")
    case True
    then obtain j m where m: "input = Inr j" "decode_rpc_message j = Some m" by blast
    with Read step unread(1) have c': "c' = take_message m c" by simp
    show ?thesis
      using unread m Read unfolding c' notices_ok_def
      by (auto simp: take_message_def stop_reading_def set_call_def Let_def split: option.split)
  next
    case False
    with Read step unread show ?thesis
      by (cases input) (auto simp: notices_ok_def stop_reading_def split: option.splits)
  qed
next
  case Consume
  with step ok show ?thesis by (auto simp: notices_ok_def split: list.splits)
qed (use step in \<open>auto simp: in_call_Some set_call_def intro!: notices_ok_same [OF ok]
  split: if_splits option.splits call_phase.splits\<close>)

lemma notices_ok_new: "notices_ok [] new_rpc_client"
  by (simp add: notices_ok_def new_rpc_client_def)

text \<open>
  No notification is lost in silence: the consumer gets the notifications in the order in which
  they were read, at most 64 wait for it, and the only one that may be missing is one that found the
  buffer full - and then the connection is given up with the overflow error.
\<close>

theorem notifications_in_order:
  assumes "rpc_run es new_rpc_client = Some c"
  shows "length (rc_notifications c) \<le> notifications_capacity \<and>
    (notices es = rc_taken c @ rc_notifications c \<or>
     rc_done c \<and> connection_error c = ErrOverflow \<and> (\<exists>n. notices es = rc_taken c @ rc_notifications c @ [n]))"
proof -
  have "notices_ok es c"
    by (rule rpc_run_induct [OF assms, where P = notices_ok])
      (rule notices_ok_new, erule notices_ok_step, assumption)
  then show ?thesis by (auto simp: notices_ok_def connection_error_def)
qed

subsection \<open>Examples\<close>

definition sample_reply :: json where
  "sample_reply = JObj [(''jsonrpc'', JStr ''2.0''), (''id'', JStr (digits 1)), (''result'', JNum 7)]"

definition sample_notice :: json where
  "sample_notice = JObj [(''jsonrpc'', JStr ''2.0''), (''method'', JStr ''receive''), (''params'', JObj [])]"

lemma decode_samples:
  "decode_rpc_message sample_reply = Some \<lparr>rm_id = Some (JStr (digits 1)), rm_method = [], rm_params = None,
     rm_result = Some (JNum 7), rm_error = None\<rparr>"
  "decode_rpc_message sample_notice = Some \<lparr>rm_id = None, rm_method = ''receive'', rm_params = Some (JObj []),
     rm_result = None, rm_error = None\<rparr>"
  by (simp_all add: sample_reply_def sample_notice_def fold_key_simps)

lemmas rpc_simps = in_call_def set_call_def begin_call_def take_message_def is_notification_def message_id_def
  reply_result_def new_rpc_client_def decode_samples notifications_capacity_def Let_def

theorem replies_correlated_witness:
  "\<exists>c. rpc_run [Begin ''version'' (Inr JNull), Send 0 None, Read (Inr sample_reply), Take 0, Forget 0]
       new_rpc_client = Some c \<and> call_result (ca_phase (rc_calls c ! 0)) = Some (Inr (Some (JNum 7))) \<and>
     (\<exists>m. message_id m = Some (ca_id (rc_calls c ! 0)) \<and> reply_result m = Inr (Some (JNum 7)))"
proof -
  obtain c where c: "rpc_run [Begin ''version'' (Inr JNull), Send 0 None, Read (Inr sample_reply), Take 0, Forget 0]
       new_rpc_client = Some c" "call_result (ca_phase (rc_calls c ! 0)) = Some (Inr (Some (JNum 7)))"
    "0 < length (rc_calls c)"
    by (simp add: rpc_simps)
  from replies_correlated [OF c(1,3,2)] c show ?thesis by blast
qed

theorem reply_delivered_witness:
  "\<exists>c c'. rpc_run [Begin ''version'' (Inr JNull), Send 0 None] new_rpc_client = Some c \<and>
     rpc_run [Read (Inr sample_reply), Take 0, Forget 0] c = Some c' \<and>
     ca_phase (rc_calls c' ! 0) = Returned (Inr (Some (JNum 7)))"
proof -
  obtain c where c: "rpc_run [Begin ''version'' (Inr JNull), Send 0 None] new_rpc_client = Some c"
    "length (rc_calls c) = 1" "\<not> rc_done c" "ca_phase (rc_calls c ! 0) = Awaiting" "ca_reply (rc_calls c ! 0) = None"
    "ca_id (rc_calls c ! 0) = digits 1"
    by (simp add: rpc_simps)
  let ?m = "\<lparr>rm_id = Some (JStr (digits 1)), rm_method = [], rm_params = None, rm_result = Some (JNum 7),
    rm_error = None\<rparr> :: rpc_message"
  have "length (rc_calls c) < 2 ^ 64" by (simp add: c(2))
  from reply_delivered [OF c(1) this, of 0 sample_reply ?m] obtain c' where
    "rpc_run [Read (Inr sample_reply), Take 0, Forget 0] c = Some c'"
    "ca_phase (rc_calls c' ! 0) = Returned (reply_result ?m)"
    using c(2-) decode_samples(1) by (auto simp: message_id_def is_notification_def simp del: rpc_run.simps)
  with c(1) show ?thesis by (auto simp: reply_result_def simp del: rpc_run.simps)
qed

theorem call_never_stuck_witness:
  "\<exists>c moves c'. rpc_run [Begin ''version'' (Inr JNull), Send 0 None, Read (Inl ErrEOF)] new_rpc_client = Some c \<and>
     rpc_run moves c = Some c' \<and> finished (rc_calls c' ! 0)"
proof -
  obtain c where c: "rpc_run [Begin ''version'' (Inr JNull), Send 0 None, Read (Inl ErrEOF)] new_rpc_client = Some c"
    "rc_done c" "0 < length (rc_calls c)"
    by (simp add: rpc_simps stop_reading_def)
  from call_never_stuck [OF c] c(1) show ?thesis by blast
qed

theorem notifications_in_order_witness:
  "\<exists>c. rpc_run [Read (Inr sample_notice), Consume, Read (Inr sample_notice)] new_rpc_client = Some c \<and>
     rc_taken c @ rc_notifications c = [(''receive'', Some (JObj [])), (''receive'', Some (JObj []))]"
proof -
  obtain c where c: "rpc_run [Read (Inr sample_notice), Consume, Read (Inr sample_notice)] new_rpc_client = Some c"
    "\<not> rc_done c"
    by (simp add: rpc_simps)
  from notifications_in_order [OF c(1)] c show ?thesis by (auto simp: rpc_simps)
qed

end
