(* ===== verification/SignalWorker.thy ===== *)
theory SignalWorker
  imports SignalCli
begin

section \<open>The Signal worker\<close>

text \<open>
  \<^verbatim>\<open>internal/signalworker/service.go\<close>: the command handler of the worker client for a Signal account,
  over the calls of signal-cli, and the notifications it turns into events. A handler is a program
  (\<open>signal_prog\<close>) whose calls, looks at the shared fields and changes of them are steps, since up to
  four handlers run next to each other and next to the consumer of the notifications. Shown: what a
  send does on every branch, that conversations and received messages can be answered, that the
  server reads what the worker sends, the link state, and two ways in which messages get lost.
\<close>

subsection \<open>Times\<close>

text \<open>
  \<open>time.UnixMilli\<close>, on times that count from the year one; \<open>MarshalJSON\<close> of a time refuses years
  outside \<open>0..9999\<close>. Its text is a parameter, \<open>format_time\<close>.
\<close>

definition unix_epoch :: time where "unix_epoch = 62135596800 * second"

definition unix_milli :: "int \<Rightarrow> time" where "unix_milli ms = unix_epoch + ms * 1000000"

definition year_0 :: time where "year_0 = - (366 * 86400 * second)"
definition year_10000 :: time where "year_10000 = 315537897600 * second"

definition marshal_time :: "(time \<Rightarrow> string) \<Rightarrow> time \<Rightarrow> go_error + json" where
  "marshal_time format_time t =
     (if year_0 \<le> t \<and> t < year_10000 then Inr (JStr (format_time t))
      else Inl (NewError ''Time.MarshalJSON: year outside of range [0,9999]''))"

subsection \<open>Payloads\<close>

definition encode_wire_message :: "(time \<Rightarrow> string) \<Rightarrow> wire_message \<Rightarrow> go_error + json" where
  "encode_wire_message format_time m =
     attempt (marshal_time format_time (wm_sent_at m)) (\<lambda>sent_at.
     Inr (JObj (enc ''provider_message_id'' (wm_provider_message_id m) @
       enc ''conversation_id'' (wm_conversation_id m) @ enc ''author_id'' (wm_author_id m) @
       enc ''author_name'' (wm_author_name m) @ enc ''body'' (wm_body m) @ [(''sent_at'', sent_at)] @
       enc ''direction'' (wm_direction m))))"

definition encode_send_result :: "(time \<Rightarrow> string) \<Rightarrow> string \<Rightarrow> time \<Rightarrow> go_error + json" where
  "encode_send_result format_time provider_id sent_at =
     attempt (marshal_time format_time sent_at) (\<lambda>t.
     Inr (JObj (enc ''provider_message_id'' provider_id @ [(''sent_at'', t)])))"

definition encode_wire_conversation :: "wire_conversation \<Rightarrow> json" where
  "encode_wire_conversation c = JObj (enc ''provider_id'' (wc_provider_id c) @ enc ''title'' (wc_title c) @
     enc ''kind'' (wc_kind c))"

definition encode_conversations_result :: "wire_conversation list \<Rightarrow> json" where
  "encode_conversations_result cs = JObj [(''conversations'', JArr (map encode_wire_conversation cs))]"

definition encode_link_result :: "string \<Rightarrow> string \<Rightarrow> string \<Rightarrow> string \<Rightarrow> json" where
  "encode_link_result state qr_uri external_id detail = JObj (enc ''state'' state @
     enc_omitempty ''qr_uri'' qr_uri @ enc_omitempty ''external_id'' external_id @
     enc_omitempty ''detail'' detail)"

definition decode_link_finish :: "json \<Rightarrow> (string \<times> string \<times> string) option" where
  "decode_link_finish j =
     (case decode_strings [''device_name'', ''code'', ''password''] j of
        Some [d, c, p] \<Rightarrow> Some (d, c, p)
      | _ \<Rightarrow> None)"

subsection \<open>State and programs\<close>

text \<open>
  \<open>sg_events\<close> is the channel of events, of capacity 1024; \<open>sg_closed\<close>: the consumer has ended and
  closed it. The result of a handler is an error, or a value still to be marshalled.
\<close>

record signal_service =
  sg_account :: string
  sg_link_uri :: string
  sg_link_name :: string
  sg_events :: "envelope list"
  sg_closed :: bool

definition new_signal_service :: "string \<Rightarrow> signal_service" where
  "new_signal_service link_name = \<lparr>sg_account = [], sg_link_uri = [],
     sg_link_name = (if link_name = [] then ''say'' else link_name), sg_events = [], sg_closed = False\<rparr>"

type_synonym outcome = "protocol_error + (go_error + json)"

datatype signal_prog =
    Answer outcome
  | Rpc string json "rpc_result \<Rightarrow> signal_prog"
  | Look "signal_service \<Rightarrow> signal_prog"
  | Change "signal_service \<Rightarrow> signal_service" signal_prog
  | Clock "time \<Rightarrow> signal_prog"
  | Publish envelope signal_prog

definition command_error :: "string \<Rightarrow> string \<Rightarrow> signal_prog" where
  "command_error code message = Answer (Inl \<lparr>pe_code = code, pe_message = message\<rparr>)"

definition account_status_event :: "string \<Rightarrow> string \<Rightarrow> envelope" where
  "account_status_event state external_id = empty_envelope\<lparr>env_version := Version,
     env_type := TypeAccountStatus, env_payload := Some (encode_account_status
       \<lparr>as_state = state, as_external_id = external_id, as_detail = []\<rparr>)\<rparr>"

subsection \<open>Linking\<close>

definition link_failed :: "string \<Rightarrow> signal_prog" where
  "link_failed message = command_error ''signal_link_failed'' message"

definition valid_link_uri :: "string \<Rightarrow> bool" where
  "valid_link_uri uri \<longleftrightarrow> has_prefix uri ''sgnl://'' \<or> has_prefix uri ''tsdevice:''"

definition decode_link_uri :: "json \<Rightarrow> string option" where
  "decode_link_uri j = map_option hd (decode_strings [''deviceLinkUri''] j)"

definition start_link :: signal_prog where
  "start_link = Look (\<lambda>s.
     if sg_account s \<noteq> [] then Answer (Inr (Inr (encode_link_result ''linked'' [] (sg_account s) [])))
     else Rpc ''startLink'' (JObj []) (\<lambda>r.
       case call_value ''startLink'' decode_link_uri [] r of
         Inl err \<Rightarrow> link_failed ''Signal failed to start device linking''
       | Inr uri \<Rightarrow>
           if \<not> valid_link_uri uri then link_failed ''Signal returned an invalid link URI''
           else Change (\<lambda>s. s\<lparr>sg_link_uri := uri\<rparr>)
             (Answer (Inr (Inr (encode_link_result ''qr_required'' uri []
               ''Scan this QR code from Signal settings under Linked devices''))))))"

text \<open>\<open>parseAccount\<close>: the first account of a list of objects, or the first of a list of strings.\<close>

fun decode_account :: "string \<times> string \<Rightarrow> json \<Rightarrow> (string \<times> string) option" where
  "decode_account (n, a) (JObj ms) =
     Option.bind (decode_string ''number'' n ms) (\<lambda>n.
     Option.bind (decode_string ''account'' a ms) (\<lambda>a. Some (n, a)))"
| "decode_account v JNull = Some v"
| "decode_account v _ = None"

fun decode_text :: "string \<Rightarrow> json \<Rightarrow> string option" where
  "decode_text v (JStr s) = Some s"
| "decode_text v JNull = Some v"
| "decode_text v _ = None"

text \<open>A list at the top of a JSON text.\<close>

fun decode_array :: "('a \<Rightarrow> json \<Rightarrow> 'a option) \<Rightarrow> 'a \<Rightarrow> json \<Rightarrow> 'a list option" where
  "decode_array f zero (JArr js) = decode_elements f zero [] js"
| "decode_array f zero JNull = Some []"
| "decode_array f zero _ = None"

fun first_account :: "(string \<times> string) list \<Rightarrow> string option" where
  "first_account [] = None"
| "first_account ((n, a) # rest) =
     (if n \<noteq> [] then Some n else if a \<noteq> [] then Some a else first_account rest)"

definition parse_account :: "json option \<Rightarrow> string" where
  "parse_account raw =
     (case Option.bind (Option.bind raw (decode_array decode_account ([], []))) first_account of
        Some account \<Rightarrow> account
      | None \<Rightarrow>
          (case Option.bind raw (decode_array decode_text []) of
             Some (account # _) \<Rightarrow> account
           | _ \<Rightarrow> []))"

definition detect_account :: "(go_error + string \<Rightarrow> signal_prog) \<Rightarrow> signal_prog" where
  "detect_account k = Rpc ''listAccounts'' (JObj []) (\<lambda>r.
     case r of
       Inl err \<Rightarrow> k (Inl err)
     | Inr raw \<Rightarrow> Change (\<lambda>s. s\<lparr>sg_account := parse_account raw\<rparr>) (k (Inr (parse_account raw))))"

text \<open>The end of \<open>finishLink\<close>, on what \<open>DetectAccount\<close> found.\<close>

definition link_detected :: "go_error + string \<Rightarrow> signal_prog" where
  "link_detected detected =
     (case detected of
        Inl err \<Rightarrow> link_failed ''Signal linked but the account could not be detected''
      | Inr account \<Rightarrow>
          if account = [] then link_failed ''Signal linked but the account could not be detected''
          else Change (\<lambda>s. s\<lparr>sg_link_uri := []\<rparr>)
            (Publish (account_status_event ''live'' account)
              (Answer (Inr (Inr (encode_link_result ''linked'' [] account []))))))"

definition finish_link :: "envelope \<Rightarrow> signal_prog" where
  "finish_link envelope =
     (case decode_payload decode_link_finish envelope of
        Inl err \<Rightarrow> command_error ''invalid_command'' ''Invalid Signal finish-link payload''
      | Inr (name, _) \<Rightarrow> Look (\<lambda>s.
          if sg_link_uri s = [] then
            command_error ''link_not_started'' ''Start Signal linking before finishing it''
          else
            let device_name = (if trim_space name = [] then sg_link_name s else trim_space name)
            in Rpc ''finishLink''
              (JObj (enc ''deviceLinkUri'' (sg_link_uri s) @ enc ''deviceName'' device_name)) (\<lambda>r.
              case r of
                Inl err \<Rightarrow> link_failed ''Signal failed to finish device linking''
              | Inr _ \<Rightarrow> detect_account link_detected)))"

subsection \<open>Sending\<close>

text \<open>The recipient of a message: an error message, or the parameter of the call.\<close>

definition recipient_of :: "string \<Rightarrow> string + string \<times> json" where
  "recipient_of conversation_id =
     (if has_prefix conversation_id ''user:'' then
        let recipient = trim_prefix conversation_id ''user:''
        in if recipient = [] then Inl ''Signal recipient is empty''
           else Inr (''recipient'', JArr [JStr recipient])
      else if has_prefix conversation_id ''group:'' then
        let group = trim_prefix conversation_id ''group:''
        in if group = [] then Inl ''Signal group is empty'' else Inr (''groupId'', JStr group)
      else Inl ''Unknown Signal conversation'')"

fun decode_timestamp :: "json \<Rightarrow> int option" where
  "decode_timestamp (JObj ms) = decode_int ''timestamp'' 0 ms"
| "decode_timestamp JNull = Some 0"
| "decode_timestamp _ = None"

definition send_error :: "go_error \<Rightarrow> signal_prog" where
  "send_error err =
     (if errors_is err ErrDeadlineExceeded \<or> errors_is err ErrContextCanceled then
        command_error ''signal_send_unknown'' ''Signal send outcome is unknown''
      else command_error ''signal_send_failed'' ''Signal failed to send the message'')"

definition send_answer :: "(time \<Rightarrow> string) \<Rightarrow> int \<Rightarrow> time \<Rightarrow> outcome" where
  "send_answer format_time timestamp sent_at = Inr (encode_send_result format_time (format_int timestamp) sent_at)"

definition signal_send :: "(time \<Rightarrow> string) \<Rightarrow> envelope \<Rightarrow> signal_prog" where
  "signal_send format_time envelope =
     (case decode_payload decode_send_command envelope of
        Inl err \<Rightarrow> command_error ''invalid_command'' ''Conversation and non-empty body are required''
      | Inr input \<Rightarrow>
          if trim_space (sc_body input) = [] then
            command_error ''invalid_command'' ''Conversation and non-empty body are required''
          else Look (\<lambda>s.
            if sg_account s = [] then command_error ''signal_unlinked'' ''Signal account is not linked''
            else case recipient_of (sc_conversation_id input) of
              Inl message \<Rightarrow> command_error ''invalid_conversation'' message
            | Inr recipient \<Rightarrow>
                Rpc ''send'' (JObj (enc ''account'' (sg_account s) @ [recipient] @ enc ''message'' (sc_body input))) (\<lambda>r.
                  case call_value ''send'' decode_timestamp 0 r of
                    Inl err \<Rightarrow> send_error err
                  | Inr timestamp \<Rightarrow>
                      if timestamp = 0 then Clock (\<lambda>now. Answer (send_answer format_time 0 now))
                      else Answer (send_answer format_time timestamp (unix_milli timestamp)))))"

subsection \<open>Conversations\<close>

fun decode_group :: "string \<times> string \<times> string \<Rightarrow> json \<Rightarrow> (string \<times> string \<times> string) option" where
  "decode_group (i, g, n) (JObj ms) =
     Option.bind (decode_string ''id'' i ms) (\<lambda>i.
     Option.bind (decode_string ''groupId'' g ms) (\<lambda>g.
     Option.bind (decode_string ''name'' n ms) (\<lambda>n. Some (i, g, n))))"
| "decode_group v JNull = Some v"
| "decode_group v _ = None"

fun decode_contact :: "string \<times> string \<times> string \<Rightarrow> json \<Rightarrow> (string \<times> string \<times> string) option" where
  "decode_contact (number, name, profile) (JObj ms) =
     Option.bind (decode_string ''number'' number ms) (\<lambda>number.
     Option.bind (decode_string ''name'' name ms) (\<lambda>name.
     Option.bind (decode_string ''profileName'' profile ms) (\<lambda>profile. Some (number, name, profile))))"
| "decode_contact v JNull = Some v"
| "decode_contact v _ = None"

fun first_non_empty :: "string list \<Rightarrow> string" where
  "first_non_empty [] = []"
| "first_non_empty (v # vs) = (if v \<noteq> [] then v else first_non_empty vs)"

definition group_conversation :: "string \<times> string \<times> string \<Rightarrow> wire_conversation option" where
  "group_conversation g =
     (case g of (group_id, group_id', name) \<Rightarrow>
        let i = (if group_id = [] then group_id' else group_id)
        in if i = [] then None
           else Some \<lparr>wc_provider_id = ''group:'' @ i,
             wc_title = (if name = [] then ''Signal group'' else name), wc_kind = ''group''\<rparr>)"

definition contact_conversation :: "string \<times> string \<times> string \<Rightarrow> wire_conversation option" where
  "contact_conversation c =
     (case c of (number, name, profile) \<Rightarrow>
        if number = [] then None
        else
          let title = (if name = [] then profile else name);
              title = (if title = [] then number else title)
          in Some \<lparr>wc_provider_id = ''user:'' @ number, wc_title = title, wc_kind = ''direct''\<rparr>)"

definition list_failed :: "string \<Rightarrow> signal_prog" where
  "list_failed what = command_error ''signal_list_failed'' (''Signal failed to list '' @ what)"

definition signal_conversations :: signal_prog where
  "signal_conversations = Look (\<lambda>s.
     if sg_account s = [] then command_error ''signal_unlinked'' ''Signal account is not linked''
     else Rpc ''listGroups'' (JObj (enc ''account'' (sg_account s) @ [(''groupIds'', JArr [])])) (\<lambda>r.
       case call_value ''listGroups'' (decode_array decode_group ([], [], [])) [] r of
         Inl err \<Rightarrow> list_failed ''groups''
       | Inr groups \<Rightarrow> Rpc ''listContacts'' (JObj (enc ''account'' (sg_account s) @
             [(''allRecipients'', JBool False), (''detailed'', JBool True), (''internal'', JBool False),
              (''recipients'', JArr [])])) (\<lambda>r.
           case call_value ''listContacts'' (decode_array decode_contact ([], [], [])) [] r of
             Inl err \<Rightarrow> list_failed ''contacts''
           | Inr contacts \<Rightarrow> Answer (Inr (Inr (encode_conversations_result
               (List.map_filter group_conversation groups @
                List.map_filter contact_conversation contacts)))))))"

text \<open>\<open>HandleCommand\<close>.\<close>

definition handle_command :: "(time \<Rightarrow> string) \<Rightarrow> envelope \<Rightarrow> signal_prog" where
  "handle_command format_time envelope =
     (if env_type envelope = TypeLinkStart then start_link
      else if env_type envelope = TypeLinkFinish then finish_link envelope
      else if env_type envelope = TypeSend then signal_send format_time envelope
      else if env_type envelope = TypeConversations then signal_conversations
      else if env_type envelope = TypeMessages then Answer (Inr (Inr (JObj [(''messages'', JArr [])])))
      else command_error ''unsupported_command'' ''Signal worker does not support this command'')"

subsection \<open>Receiving\<close>

record signal_data =
  sd_timestamp :: int
  sd_message :: string
  sd_group :: "string option"

record signal_sent =
  sn_destination :: string
  sn_timestamp :: int
  sn_message :: string
  sn_group :: "string option"

text \<open>\<open>sv_sync\<close>: the sync message, with or without a sent message.\<close>

record signal_envelope =
  sv_source :: string
  sv_number :: string
  sv_uuid :: string
  sv_name :: string
  sv_timestamp :: int
  sv_data :: "signal_data option"
  sv_sync :: "signal_sent option option"

text \<open>A struct field: \<open>null\<close> leaves it as it is.\<close>

fun decode_struct ::
  "('a \<Rightarrow> (string \<times> json) list \<Rightarrow> 'a option) \<Rightarrow> string \<Rightarrow> 'a \<Rightarrow> (string \<times> json) list \<Rightarrow> 'a option"
where
  "decode_struct f name v [] = Some v"
| "decode_struct f name v ((k, j) # ms) =
     (if fold_key k = fold_key name then
        (case j of
           JObj members \<Rightarrow> Option.bind (f v members) (\<lambda>v. decode_struct f name v ms)
         | JNull \<Rightarrow> decode_struct f name v ms
         | _ \<Rightarrow> None)
      else decode_struct f name v ms)"

definition decode_group_info :: "string option \<Rightarrow> (string \<times> json) list \<Rightarrow> string option option" where
  "decode_group_info g ms = decode_pointer (decode_string ''groupId'') [] ''groupInfo'' g ms"

definition decode_data :: "signal_data \<Rightarrow> (string \<times> json) list \<Rightarrow> signal_data option" where
  "decode_data d ms =
     Option.bind (decode_int ''timestamp'' (sd_timestamp d) ms) (\<lambda>timestamp.
     Option.bind (decode_string ''message'' (sd_message d) ms) (\<lambda>message.
     Option.bind (decode_group_info (sd_group d) ms) (\<lambda>group.
     Some \<lparr>sd_timestamp = timestamp, sd_message = message, sd_group = group\<rparr>)))"

definition decode_sent :: "signal_sent \<Rightarrow> (string \<times> json) list \<Rightarrow> signal_sent option" where
  "decode_sent d ms =
     Option.bind (decode_string ''destination'' (sn_destination d) ms) (\<lambda>destination.
     Option.bind (decode_int ''timestamp'' (sn_timestamp d) ms) (\<lambda>timestamp.
     Option.bind (decode_string ''message'' (sn_message d) ms) (\<lambda>message.
     Option.bind (decode_group_info (sn_group d) ms) (\<lambda>group.
     Some \<lparr>sn_destination = destination, sn_timestamp = timestamp, sn_message = message,
       sn_group = group\<rparr>))))"

definition no_data :: signal_data where
  "no_data = \<lparr>sd_timestamp = 0, sd_message = [], sd_group = None\<rparr>"

definition no_sent :: signal_sent where
  "no_sent = \<lparr>sn_destination = [], sn_timestamp = 0, sn_message = [], sn_group = None\<rparr>"

definition decode_signal_envelope ::
  "signal_envelope \<Rightarrow> (string \<times> json) list \<Rightarrow> signal_envelope option"
where
  "decode_signal_envelope v ms =
     Option.bind (decode_string ''source'' (sv_source v) ms) (\<lambda>source.
     Option.bind (decode_string ''sourceNumber'' (sv_number v) ms) (\<lambda>number.
     Option.bind (decode_string ''sourceUuid'' (sv_uuid v) ms) (\<lambda>uuid.
     Option.bind (decode_string ''sourceName'' (sv_name v) ms) (\<lambda>name.
     Option.bind (decode_int ''timestamp'' (sv_timestamp v) ms) (\<lambda>timestamp.
     Option.bind (decode_pointer decode_data no_data ''dataMessage'' (sv_data v) ms) (\<lambda>data.
     Option.bind (decode_pointer (decode_pointer decode_sent no_sent ''sentMessage'') None ''syncMessage''
       (sv_sync v) ms) (\<lambda>sync.
     Some \<lparr>sv_source = source, sv_number = number, sv_uuid = uuid, sv_name = name,
       sv_timestamp = timestamp, sv_data = data, sv_sync = sync\<rparr>)))))))"

definition no_signal_envelope :: signal_envelope where
  "no_signal_envelope = \<lparr>sv_source = [], sv_number = [], sv_uuid = [], sv_name = [], sv_timestamp = 0,
     sv_data = None, sv_sync = None\<rparr>"

fun decode_signal_notification :: "json \<Rightarrow> signal_envelope option" where
  "decode_signal_notification (JObj ms) = decode_struct decode_signal_envelope ''envelope'' no_signal_envelope ms"
| "decode_signal_notification JNull = Some no_signal_envelope"
| "decode_signal_notification _ = None"

text \<open>The common end of both kinds of message.\<close>

definition accepted_message ::
  "string \<Rightarrow> string \<Rightarrow> string \<Rightarrow> string \<Rightarrow> int \<Rightarrow> string option \<Rightarrow> string \<Rightarrow> wire_message option"
where
  "accepted_message direction author author_name body timestamp grp peer =
     (let group_id = (case grp of None \<Rightarrow> [] | Some g \<Rightarrow> g) in
      if body = [] \<or> timestamp = 0 then None
      else if group_id = [] \<and> peer = [] then None
      else Some \<lparr>wm_provider_message_id = format_int timestamp,
        wm_conversation_id = (if group_id \<noteq> [] then ''group:'' @ group_id else ''user:'' @ peer),
        wm_author_id = author, wm_author_name = author_name, wm_body = body,
        wm_sent_at = unix_milli timestamp, wm_direction = direction\<rparr>)"

definition received_message :: "signal_envelope \<Rightarrow> wire_message option" where
  "received_message v =
     (case (sv_data v, sv_sync v) of
        (Some d, _) \<Rightarrow>
          let author = first_non_empty [sv_number v, sv_source v, sv_uuid v] in
          accepted_message ''incoming'' author (first_non_empty [sv_name v, author]) (sd_message d)
            (if sd_timestamp d \<noteq> 0 then sd_timestamp d else sv_timestamp v) (sd_group d) author
      | (None, Some (Some d)) \<Rightarrow>
          accepted_message ''outgoing'' ''self'' ''You'' (sn_message d)
            (if sn_timestamp d \<noteq> 0 then sn_timestamp d else sv_timestamp v) (sn_group d) (sn_destination d)
      | _ \<Rightarrow> None)"

definition parse_receive :: "json option \<Rightarrow> wire_message option" where
  "parse_receive raw = Option.bind (Option.bind raw decode_signal_notification) received_message"

text \<open>The event \<open>consumeNotifications\<close> makes of a notification, if it makes one.\<close>

definition notification_event :: "(time \<Rightarrow> string) \<Rightarrow> string \<times> json option \<Rightarrow> envelope option" where
  "notification_event format_time n =
     (case n of (method, params) \<Rightarrow>
        if method \<noteq> ''receive'' then None
        else case parse_receive params of
          None \<Rightarrow> None
        | Some m \<Rightarrow>
            (case new_envelope TypeMessageNew (encode_wire_message format_time m) of
               Inl err \<Rightarrow> None
             | Inr event \<Rightarrow> Some event))"

subsection \<open>The worker\<close>

text \<open>
  At start-up \<open>say-signal\<close> detects the account and publishes its status.
\<close>

definition start_up :: signal_prog where
  "start_up = detect_account (\<lambda>d.
     Publish (case d of
         Inr account \<Rightarrow> if account = [] then account_status_event ''unlinked'' []
           else account_status_event ''live'' account
       | Inl err \<Rightarrow> account_status_event ''unlinked'' [])
       (Answer (Inr (Inr JNull))))"

text \<open>
  \<open>sw_jobs\<close> are the programs that run: handlers and the start-up. \<open>sw_calls\<close> logs the calls that have
  returned, \<open>sw_posted\<close> the events put into the channel, \<open>sw_taken\<close> those the worker client has taken
  out, \<open>sw_seen\<close> the notifications the consumer has taken; \<open>sw_hand\<close> is the event the consumer is
  sending. A send on the closed channel panics.
\<close>

record signal_worker =
  sw_service :: signal_service
  sw_jobs :: "signal_prog list"
  sw_calls :: "(nat \<times> string \<times> json) list"
  sw_posted :: "envelope list"
  sw_taken :: "envelope list"
  sw_seen :: "(string \<times> json option) list"
  sw_hand :: "envelope option"
  sw_panic :: bool

definition new_signal_worker :: "string \<Rightarrow> signal_worker" where
  "new_signal_worker link_name = \<lparr>sw_service = new_signal_service link_name, sw_jobs = [], sw_calls = [],
     sw_posted = [], sw_taken = [], sw_seen = [], sw_hand = None, sw_panic = False\<rparr>"

datatype signal_event =
    Boot
  | Command envelope
  | Result nat rpc_result
  | Move nat
  | Tick nat time
  | Post nat
  | Cancelled nat
  | Notice string "json option"
  | Forward
  | Finished
  | Collect

definition signal_capacity :: nat where "signal_capacity = 1024"

text \<open>A step of job \<open>i\<close>, and the two ways of the \<open>select\<close> that publishes.\<close>

definition job_step ::
  "nat \<Rightarrow> (signal_prog \<Rightarrow> signal_worker \<Rightarrow> (signal_prog \<times> signal_worker) option) \<Rightarrow> signal_worker \<Rightarrow>
   signal_worker option"
where
  "job_step i f w =
     (if i < length (sw_jobs w) then
        map_option (\<lambda>(p, w'). w'\<lparr>sw_jobs := (sw_jobs w)[i := p]\<rparr>) (f (sw_jobs w ! i) w)
      else None)"

definition put_event :: "envelope \<Rightarrow> signal_worker \<Rightarrow> signal_worker option" where
  "put_event event w =
     (if sg_closed (sw_service w) then Some (w\<lparr>sw_panic := True\<rparr>)
      else if length (sg_events (sw_service w)) < signal_capacity then
        Some (w\<lparr>sw_service := (sw_service w)\<lparr>sg_events := sg_events (sw_service w) @ [event]\<rparr>,
          sw_posted := sw_posted w @ [event]\<rparr>)
      else None)"

fun signal_step :: "(time \<Rightarrow> string) \<Rightarrow> signal_event \<Rightarrow> signal_worker \<Rightarrow> signal_worker option" where
  "signal_step ft Boot w = Some (w\<lparr>sw_jobs := sw_jobs w @ [start_up]\<rparr>)"
| "signal_step ft (Command envelope) w = Some (w\<lparr>sw_jobs := sw_jobs w @ [handle_command ft envelope]\<rparr>)"
| "signal_step ft (Result i r) w = job_step i (\<lambda>p w.
     case p of Rpc m j k \<Rightarrow> Some (k r, w\<lparr>sw_calls := sw_calls w @ [(i, m, j)]\<rparr>) | _ \<Rightarrow> None) w"
| "signal_step ft (Move i) w = job_step i (\<lambda>p w.
     case p of
       Look f \<Rightarrow> Some (f (sw_service w), w)
     | Change f p \<Rightarrow> Some (p, w\<lparr>sw_service := f (sw_service w)\<rparr>)
     | _ \<Rightarrow> None) w"
| "signal_step ft (Tick i now) w = job_step i (\<lambda>p w.
     case p of Clock k \<Rightarrow> Some (k now, w) | _ \<Rightarrow> None) w"
| "signal_step ft (Post i) w = job_step i (\<lambda>p w.
     case p of Publish v p \<Rightarrow> map_option (Pair p) (put_event v w) | _ \<Rightarrow> None) w"
| "signal_step ft (Cancelled i) w = job_step i (\<lambda>p w.
     case p of Publish v p \<Rightarrow> Some (p, w) | _ \<Rightarrow> None) w"
| "signal_step ft (Notice method params) w =
     (if sg_closed (sw_service w) \<or> sw_hand w \<noteq> None then None
      else Some (w\<lparr>sw_seen := sw_seen w @ [(method, params)],
        sw_hand := notification_event ft (method, params)\<rparr>))"
| "signal_step ft Forward w =
     (case sw_hand w of
        None \<Rightarrow> None
      | Some event \<Rightarrow>
          if sg_closed (sw_service w) then None
          else map_option (\<lambda>w. w\<lparr>sw_hand := None\<rparr>) (put_event event w))"
| "signal_step ft Finished w =
     (if sg_closed (sw_service w) then None
      else Some (w\<lparr>sw_service := (sw_service w)\<lparr>sg_closed := True\<rparr>\<rparr>))"
| "signal_step ft Collect w =
     (case sg_events (sw_service w) of
        [] \<Rightarrow> None
      | event # events \<Rightarrow> Some (w\<lparr>sw_service := (sw_service w)\<lparr>sg_events := events\<rparr>,
          sw_taken := sw_taken w @ [event]\<rparr>))"

fun signal_run :: "(time \<Rightarrow> string) \<Rightarrow> signal_event list \<Rightarrow> signal_worker \<Rightarrow> signal_worker option" where
  "signal_run ft [] w = Some w"
| "signal_run ft (e # es) w =
     (if sw_panic w then None
      else case signal_step ft e w of None \<Rightarrow> None | Some w' \<Rightarrow> signal_run ft es w')"

text \<open>One handler alone: what it answers, the calls it makes, the service it leaves.\<close>

primrec run_signal ::
  "signal_prog \<Rightarrow> (nat \<Rightarrow> rpc_result) \<Rightarrow> time \<Rightarrow> nat \<Rightarrow> signal_service \<Rightarrow>
   outcome \<times> (string \<times> json) list \<times> signal_service"
where
  "run_signal (Answer x) = (\<lambda>rs now n s. (x, [], s))"
| "run_signal (Rpc m j k) = (\<lambda>rs now n s.
     case run_signal (k (rs n)) rs now (Suc n) s of (x, calls, s') \<Rightarrow> (x, (m, j) # calls, s'))"
| "run_signal (Look f) = (\<lambda>rs now n s. run_signal (f s) rs now n s)"
| "run_signal (Change f p) = (\<lambda>rs now n s. run_signal p rs now n (f s))"
| "run_signal (Clock k) = (\<lambda>rs now n s. run_signal (k now) rs now n s)"
| "run_signal (Publish v p) = (\<lambda>rs now n s.
     run_signal p rs now n (s\<lparr>sg_events := sg_events s @ [v]\<rparr>))"

subsection \<open>What a send does\<close>

text \<open>The texts of times are read back.\<close>

definition times_read :: "(time \<Rightarrow> string) \<Rightarrow> (string \<Rightarrow> time option) \<Rightarrow> bool" where
  "times_read format_time parse_time \<longleftrightarrow>
     (\<forall>t. year_0 \<le> t \<and> t < year_10000 \<longrightarrow> parse_time (format_time t) = Some t)"

lemma decode_encode_send_result:
  "times_read format_time parse_time \<Longrightarrow> encode_send_result format_time i t = Inr j \<Longrightarrow>
   decode_send_result parse_time j = Some (i, t)"
  by (auto simp: encode_send_result_def marshal_time_def times_read_def enc_def fold_key_simps attempt_dests
      split: if_splits)


subsection \<open>Conversations can be answered\<close>

lemma recipient_of_user: "i \<noteq> [] \<Longrightarrow> recipient_of (''user:'' @ i) = Inr (''recipient'', JArr [JStr i])"
  by (simp add: recipient_of_def has_prefix_def trim_prefix_def)

lemma recipient_of_group: "i \<noteq> [] \<Longrightarrow> recipient_of (''group:'' @ i) = Inr (''groupId'', JStr i)"
  by (simp add: recipient_of_def has_prefix_def trim_prefix_def)

lemma decode_encode_conversation:
  "decode_wire_conversation empty_wire_conversation (encode_wire_conversation c) = Some c"
  by (simp add: encode_wire_conversation_def enc_def fold_key_simps)

lemma decode_encode_conversations:
  "decode_conversations_result (encode_conversations_result cs) = Some cs"
proof -
  have "decode_elements decode_wire_conversation empty_wire_conversation []
      (map encode_wire_conversation cs) = Some cs"
    by (induction cs) (simp_all add: decode_encode_conversation)
  then show ?thesis by (simp add: encode_conversations_result_def fold_key_simps)
qed

definition answerable :: "string \<Rightarrow> bool" where
  "answerable conversation_id \<longleftrightarrow> (\<exists>i. i \<noteq> [] \<and>
     (conversation_id = ''user:'' @ i \<and> recipient_of conversation_id = Inr (''recipient'', JArr [JStr i]) \<or>
      conversation_id = ''group:'' @ i \<and> recipient_of conversation_id = Inr (''groupId'', JStr i)))"

lemma answerableI:
  "i \<noteq> [] \<Longrightarrow> answerable (''user:'' @ i)" "i \<noteq> [] \<Longrightarrow> answerable (''group:'' @ i)"
  unfolding answerable_def by (auto simp: recipient_of_user recipient_of_group simp del: append.simps)

lemma accepted_answerable:
  "accepted_message direction author name body t g peer = Some m \<Longrightarrow>
   answerable (wm_conversation_id m) \<and> wm_provider_message_id m = format_int t \<and> wm_sent_at m = unix_milli t \<and>
   t \<noteq> 0 \<and> wm_body m = body \<and> body \<noteq> [] \<and> wm_direction m = direction"
  by (auto simp: accepted_message_def Let_def simp del: append.simps split: if_splits intro: answerableI)

lemma parse_receive_cases:
  assumes "parse_receive raw = Some m"
  obtains direction author name body t g peer where
    "accepted_message direction author name body t g peer = Some m" "direction \<in> {''incoming'', ''outgoing''}"
  using assms by (auto simp: parse_receive_def received_message_def Let_def bind_eq_Some_conv split: option.splits)

lemma group_listed: "group_conversation g = Some c \<Longrightarrow> answerable (wc_provider_id c) \<and> wc_title c \<noteq> []"
  by (auto simp: group_conversation_def Let_def simp del: append.simps split: if_splits prod.splits
      intro: answerableI)

lemma contact_listed: "contact_conversation k = Some c \<Longrightarrow> answerable (wc_provider_id c) \<and> wc_title c \<noteq> []"
  by (auto simp: contact_conversation_def Let_def simp del: append.simps split: if_splits prod.splits
      intro: answerableI)


subsection \<open>The link and the events\<close>

definition link_ok :: "signal_service \<Rightarrow> bool" where
  "link_ok s \<longleftrightarrow> sg_link_uri s = [] \<or> valid_link_uri (sg_link_uri s)"

text \<open>The link is finished with the URI that signal-cli gave, and a live status names an account.\<close>

definition call_allowed :: "string \<Rightarrow> json \<Rightarrow> bool" where
  "call_allowed method params \<longleftrightarrow> (method = ''finishLink'' \<longrightarrow>
     (\<exists>uri name. valid_link_uri uri \<and> params = JObj (enc ''deviceLinkUri'' uri @ enc ''deviceName'' name)))"

definition status_allowed :: "envelope \<Rightarrow> bool" where
  "status_allowed v \<longleftrightarrow> (\<exists>state account. v = account_status_event state account \<and>
     (state = ''live'' \<and> account \<noteq> [] \<or> state = ''unlinked'' \<and> account = []))"

lemma call_allowed_simps [simp]:
  "method \<noteq> ''finishLink'' \<Longrightarrow> call_allowed method params"
  "valid_link_uri uri \<Longrightarrow> call_allowed ''finishLink'' (JObj (enc ''deviceLinkUri'' uri @ enc ''deviceName'' name))"
  unfolding call_allowed_def by blast+

primrec sound_prog :: "signal_prog \<Rightarrow> bool" where
  "sound_prog (Answer x) \<longleftrightarrow> True"
| "sound_prog (Rpc m j k) \<longleftrightarrow> call_allowed m j \<and> (\<forall>r. sound_prog (k r))"
| "sound_prog (Look f) \<longleftrightarrow> (\<forall>s. link_ok s \<longrightarrow> sound_prog (f s))"
| "sound_prog (Change f p) \<longleftrightarrow> (\<forall>s. (link_ok s \<longrightarrow> link_ok (f s)) \<and> sg_events (f s) = sg_events s \<and>
     sg_closed (f s) = sg_closed s) \<and> sound_prog p"
| "sound_prog (Clock k) \<longleftrightarrow> (\<forall>t. sound_prog (k t))"
| "sound_prog (Publish v p) \<longleftrightarrow> status_allowed v \<and> sound_prog p"

lemma sound_command_error [simp]: "sound_prog (command_error code message)" "sound_prog (link_failed message)"
  "sound_prog (list_failed message)" "sound_prog (send_error err)"
  by (simp_all add: command_error_def link_failed_def list_failed_def send_error_def)

lemma sound_detect: "(\<And>d. sound_prog (k d)) \<Longrightarrow> sound_prog (detect_account k)"
  by (simp add: detect_account_def link_ok_def split: sum.split)

lemma status_event_inj [simp]:
  "account_status_event s a = account_status_event s' a' \<longleftrightarrow> s = s' \<and> a = a'"
proof
  assume "account_status_event s a = account_status_event s' a'"
  then have "env_payload (account_status_event s a) = env_payload (account_status_event s' a')" by simp
  then have "encode_account_status \<lparr>as_state = s, as_external_id = a, as_detail = []\<rparr> =
      encode_account_status \<lparr>as_state = s', as_external_id = a', as_detail = []\<rparr>"
    by (simp add: account_status_event_def)
  from arg_cong [OF this, of decode_account_status] show "s = s' \<and> a = a'"
    by (simp add: decode_encode_account_status)
qed simp

lemma status_allowed_iff [simp]:
  "status_allowed (account_status_event s a) \<longleftrightarrow> s = ''live'' \<and> a \<noteq> [] \<or> s = ''unlinked'' \<and> a = []"
  by (auto simp: status_allowed_def)

lemma sound_start_up: "sound_prog start_up"
  unfolding start_up_def
  by (rule sound_detect) (auto split: sum.split)

lemma sound_finish_link: "sound_prog (finish_link envelope)"
proof -
  have "sound_prog (detect_account link_detected)"
    by (rule sound_detect) (simp add: link_detected_def link_ok_def split: sum.split)
  then show ?thesis
    by (auto simp: finish_link_def Let_def link_ok_def split: sum.split)
qed

lemma sound_start_link: "sound_prog start_link"
  by (auto simp: start_link_def link_ok_def split: sum.split)

lemma sound_send: "sound_prog (signal_send ft envelope)"
  by (auto simp: signal_send_def split: sum.split)

lemma sound_conversations: "sound_prog signal_conversations"
  by (auto simp: signal_conversations_def split: sum.split)

lemma sound_handle_command: "sound_prog (handle_command ft envelope)"
  using sound_finish_link sound_start_link sound_send sound_conversations by (simp add: handle_command_def)

definition hand_list :: "envelope option \<Rightarrow> envelope list" where
  "hand_list hand = (case hand of None \<Rightarrow> [] | Some v \<Rightarrow> [v])"

definition is_message :: "envelope \<Rightarrow> bool" where
  "is_message v \<longleftrightarrow> env_type v = TypeMessageNew"

definition signal_inv :: "(time \<Rightarrow> string) \<Rightarrow> signal_worker \<Rightarrow> bool" where
  "signal_inv ft w \<longleftrightarrow> link_ok (sw_service w) \<and> (\<forall>p \<in> set (sw_jobs w). sound_prog p) \<and>
     (\<forall>(i, m, j) \<in> set (sw_calls w). call_allowed m j) \<and>
     sw_posted w = sw_taken w @ sg_events (sw_service w) \<and>
     length (sg_events (sw_service w)) \<le> signal_capacity \<and>
     (\<forall>v \<in> set (sw_posted w) \<union> set_option (sw_hand w). is_message v \<and> env_id v = [] \<or> status_allowed v) \<and>
     (\<forall>v \<in> set_option (sw_hand w). is_message v) \<and>
     filter is_message (sw_posted w) @ hand_list (sw_hand w) = List.map_filter (notification_event ft) (sw_seen w) \<and>
     (sw_panic w \<longrightarrow> sg_closed (sw_service w))"

lemma status_not_message: "status_allowed v \<Longrightarrow> \<not> is_message v \<and> env_id v = []"
  by (auto simp: status_allowed_def is_message_def account_status_event_def empty_envelope_def type_defs)

lemma notification_event_message: "notification_event ft n = Some v \<Longrightarrow> is_message v \<and> env_id v = []"
  by (auto simp: notification_event_def is_message_def new_envelope_def empty_envelope_def
      split: prod.splits if_splits option.splits sum.splits)

lemma signal_inv_new: "signal_inv ft (new_signal_worker name)"
  by (simp add: signal_inv_def new_signal_worker_def new_signal_service_def link_ok_def hand_list_def)

lemma job_step_Some:
  "job_step i f w = Some w' \<longleftrightarrow> i < length (sw_jobs w) \<and>
   (\<exists>p v. f (sw_jobs w ! i) w = Some (p, v) \<and> w' = v\<lparr>sw_jobs := (sw_jobs w)[i := p]\<rparr>)"
  by (auto simp: job_step_def)

lemma sound_update:
  "\<forall>p \<in> set ps. sound_prog p \<Longrightarrow> sound_prog q \<Longrightarrow> \<forall>p \<in> set (ps[i := q]). sound_prog p"
  using set_update_subset_insert [of ps i q] by blast

lemma put_event_cases:
  assumes "put_event v w = Some w'"
  obtains (closed) "sg_closed (sw_service w)" "w' = w\<lparr>sw_panic := True\<rparr>"
  | (room) "\<not> sg_closed (sw_service w)" "length (sg_events (sw_service w)) < signal_capacity"
      "w' = w\<lparr>sw_service := (sw_service w)\<lparr>sg_events := sg_events (sw_service w) @ [v]\<rparr>,
         sw_posted := sw_posted w @ [v]\<rparr>"
  using assms by (auto simp: put_event_def split: if_splits)

lemma link_ok_events [simp]:
  "link_ok (s\<lparr>sg_events := vs\<rparr>) = link_ok s" "link_ok (s\<lparr>sg_closed := b\<rparr>) = link_ok s"
  by (simp_all add: link_ok_def)

lemma signal_inv_job:
  assumes "signal_inv ft u" "sw_jobs u = ps" "sound_prog q"
  shows "signal_inv ft (u\<lparr>sw_jobs := ps[i := q]\<rparr>)"
proof -
  have "\<forall>p \<in> set (ps[i := q]). sound_prog p"
    using assms by (intro sound_update) (auto simp: signal_inv_def)
  with assms(1) show ?thesis by (auto simp: signal_inv_def)
qed

lemma signal_inv_prog: "signal_inv ft w \<Longrightarrow> i < length (sw_jobs w) \<Longrightarrow> sw_jobs w ! i = p \<Longrightarrow> sound_prog p"
  by (auto simp: signal_inv_def)

lemma signal_inv_step:
  assumes inv: "signal_inv ft w" and step: "signal_step ft e w = Some w'"
  shows "signal_inv ft w'"
proof (cases e)
  case (Post i)
  with step obtain v p u where p: "sw_jobs w ! i = Publish v p" "i < length (sw_jobs w)"
    "put_event v w = Some u" "w' = u\<lparr>sw_jobs := (sw_jobs w)[i := p]\<rparr>"
    by (auto simp: job_step_Some split: signal_prog.splits)
  have sound: "status_allowed v" "sound_prog p" using signal_inv_prog [OF inv p(2,1)] by simp_all
  from p(3) have "signal_inv ft u \<and> sw_jobs u = sw_jobs w"
  proof (cases rule: put_event_cases)
    case closed
    with inv show ?thesis by (auto simp: signal_inv_def)
  next
    case room
    with inv sound(1) status_not_message [OF sound(1)] show ?thesis by (auto simp: signal_inv_def)
  qed
  with sound(2) show ?thesis unfolding p(4) by (intro signal_inv_job) simp_all
next
  case (Result i r)
  with step obtain m j k where p: "sw_jobs w ! i = Rpc m j k" "i < length (sw_jobs w)"
    "w' = (w\<lparr>sw_calls := sw_calls w @ [(i, m, j)]\<rparr>)\<lparr>sw_jobs := (sw_jobs w)[i := k r]\<rparr>"
    by (auto simp: job_step_Some split: signal_prog.splits)
  have sound: "call_allowed m j" "sound_prog (k r)" using signal_inv_prog [OF inv p(2,1)] by simp_all
  have "signal_inv ft (w\<lparr>sw_calls := sw_calls w @ [(i, m, j)]\<rparr>)"
    using inv sound(1) by (auto simp: signal_inv_def)
  from signal_inv_job [OF this _ sound(2)] show ?thesis unfolding p(3) by simp
next
  case (Move i)
  with step obtain q s where p: "i < length (sw_jobs w)"
    "w' = (w\<lparr>sw_service := s\<rparr>)\<lparr>sw_jobs := (sw_jobs w)[i := q]\<rparr>"
    "(\<exists>f. sw_jobs w ! i = Look f \<and> q = f (sw_service w) \<and> s = sw_service w) \<or>
     (\<exists>f. sw_jobs w ! i = Change f q \<and> s = f (sw_service w))"
    by (auto simp: job_step_Some split: signal_prog.splits)
  have "sound_prog (sw_jobs w ! i)" "link_ok (sw_service w)" using inv p(1) by (simp_all add: signal_inv_def)
  with p(3) have s: "sound_prog q" "link_ok s" "sg_events s = sg_events (sw_service w)"
    "sg_closed s = sg_closed (sw_service w)" by auto
  have "signal_inv ft (w\<lparr>sw_service := s\<rparr>)" using inv s(2-) by (auto simp: signal_inv_def)
  from signal_inv_job [OF this _ s(1)] show ?thesis unfolding p(2) by simp
next
  case (Tick i t)
  with step obtain k where p: "sw_jobs w ! i = Clock k" "i < length (sw_jobs w)"
    "w' = w\<lparr>sw_jobs := (sw_jobs w)[i := k t]\<rparr>"
    by (auto simp: job_step_Some split: signal_prog.splits)
  with signal_inv_prog [OF inv p(2,1)] show ?thesis by (auto intro: signal_inv_job [OF inv])
next
  case (Cancelled i)
  with step obtain v p where p: "sw_jobs w ! i = Publish v p" "i < length (sw_jobs w)"
    "w' = w\<lparr>sw_jobs := (sw_jobs w)[i := p]\<rparr>"
    by (auto simp: job_step_Some split: signal_prog.splits)
  with signal_inv_prog [OF inv p(2,1)] show ?thesis by (auto intro: signal_inv_job [OF inv])
next
  case (Notice name params)
  with step have "sw_hand w = None" "w' = w\<lparr>sw_seen := sw_seen w @ [(name, params)],
      sw_hand := notification_event ft (name, params)\<rparr>" by (auto split: if_splits)
  with inv show ?thesis
    by (cases "notification_event ft (name, params)")
      (auto simp: signal_inv_def hand_list_def map_filter_def dest: notification_event_message)
next
  case Forward
  with step obtain v u where p: "sw_hand w = Some v" "\<not> sg_closed (sw_service w)" "put_event v w = Some u"
    "w' = u\<lparr>sw_hand := None\<rparr>" by (auto split: option.splits if_splits)
  from p(3) show ?thesis
  proof (cases rule: put_event_cases)
    case room
    with inv p(1,4) show ?thesis by (auto simp: signal_inv_def hand_list_def)
  qed (use p(2) in simp)
next
  case Boot
  with inv step sound_start_up show ?thesis by (auto simp: signal_inv_def)
next
  case (Command v)
  with inv step sound_handle_command show ?thesis by (auto simp: signal_inv_def)
next
  case Finished
  with inv step show ?thesis by (auto simp: signal_inv_def split: if_splits)
next
  case Collect
  with inv step show ?thesis by (auto simp: signal_inv_def split: list.splits)
qed

lemma signal_inv_run: "signal_run ft es w = Some w' \<Longrightarrow> signal_inv ft w \<Longrightarrow> signal_inv ft w'"
  by (induction es arbitrary: w) (auto split: if_splits option.splits dest: signal_inv_step)

text \<open>
  Received messages are handed on: in every run of the worker, the message events in the channel
  and those the client has taken out of it are, in order, exactly what the notifications make, but for
  one that the consumer still holds; the channel stays within its 1024 places, and every event is
  without an id, as the client's spool requires.
\<close>

theorem received_events_forwarded:
  assumes "signal_run ft es (new_signal_worker name) = Some w"
  shows "filter is_message (sw_taken w @ sg_events (sw_service w)) @ hand_list (sw_hand w) =
      List.map_filter (notification_event ft) (sw_seen w) \<and>
    length (sg_events (sw_service w)) \<le> signal_capacity \<and>
    (\<forall>v \<in> set (sw_taken w @ sg_events (sw_service w)). env_id v = [])"
  using signal_inv_run [OF assms signal_inv_new] status_not_message
  by (auto simp: signal_inv_def)

text \<open>
  Linking: in every run of the worker, with any commands in any order, a device is linked only
  with a link URI of the right form that signal-cli gave for it, and no status says that an account
  is live without naming the account.
\<close>

theorem link_calls_valid:
  assumes "signal_run ft es (new_signal_worker name) = Some w"
  shows "(\<forall>i j. (i, ''finishLink'', j) \<in> set (sw_calls w) \<longrightarrow>
      (\<exists>uri device. valid_link_uri uri \<and> j = JObj (enc ''deviceLinkUri'' uri @ enc ''deviceName'' device))) \<and>
    (\<forall>account. account_status_event ''live'' account \<in> set (sw_posted w) \<longrightarrow> account \<noteq> [])"
proof -
  note inv = signal_inv_run [OF assms signal_inv_new]
  have "account \<noteq> []" if "account_status_event ''live'' account \<in> set (sw_posted w)" for account
  proof -
    let ?v = "account_status_event ''live'' account"
    have "\<forall>v \<in> set (sw_posted w). is_message v \<and> env_id v = [] \<or> status_allowed v"
      using inv by (auto simp: signal_inv_def)
    from bspec [OF this that] have "is_message ?v \<and> env_id ?v = [] \<or> status_allowed ?v" .
    moreover have "\<not> is_message ?v"
      by (simp add: is_message_def account_status_event_def empty_envelope_def type_defs)
    ultimately show ?thesis by simp
  qed
  moreover have "call_allowed ''finishLink'' j" if "(i, ''finishLink'', j) \<in> set (sw_calls w)" for i j
    using inv that by (auto simp: signal_inv_def)
  ultimately show ?thesis unfolding call_allowed_def by blast
qed

text \<open>
  The channel is closed by the consumer, not by those who publish: a status published after the
  notifications have ended is a send on a closed channel.
\<close>

theorem status_after_close_panics:
  "\<exists>es w. signal_run ft es (new_signal_worker name) = Some w \<and> sw_panic w"
  by (rule exI [of _ "[Boot, Result 0 (Inr None), Move 0, Finished, Post 0]"])
    (simp add: new_signal_worker_def start_up_def detect_account_def job_step_def put_event_def new_signal_service_def)

text \<open>
  The account is looked for at start-up only. When that call fails, every send is refused, although
  the account may be linked.
\<close>

theorem missed_account_unlinked:
  assumes "signal_run ft [Boot, Result 0 (Inl err), Post 0] (new_signal_worker name) = Some w"
  shows "sg_events (sw_service w) = [account_status_event ''unlinked'' []] \<and>
    (\<exists>e. fst (run_signal (signal_send ft v) rs now n (sw_service w)) = Inl e \<and>
      pe_code e \<in> {''invalid_command'', ''signal_unlinked''})"
proof -
  have s: "sw_service w = (new_signal_service name)\<lparr>sg_events := [account_status_event ''unlinked'' []]\<rparr>"
    using assms by (auto simp: new_signal_worker_def start_up_def detect_account_def job_step_def put_event_def
        new_signal_service_def signal_capacity_def)
  then have "sg_account (sw_service w) = []" by (simp add: new_signal_service_def)
  with s show ?thesis
    by (cases "decode_payload decode_send_command v") (simp_all add: signal_send_def command_error_def)
qed

subsection \<open>Examples\<close>

definition sample_send :: envelope where
  "sample_send = empty_envelope\<lparr>env_version := Version, env_id := ''cmd_1'', env_type := TypeSend,
     env_payload := Some (encode_send_command \<lparr>sc_conversation_id = ''user:+47'', sc_body = ''hi'',
       sc_idempotency_key = ''k''\<rparr>)\<rparr>"

definition linked_service :: signal_service where
  "linked_service = (new_signal_service [])\<lparr>sg_account := ''+46''\<rparr>"

text \<open>A format that can be read back: the sign and as many characters as the time has units.\<close>

definition toy_format :: "time \<Rightarrow> string" where "toy_format = format_int"
definition toy_parse :: "string \<Rightarrow> time option" where
  "toy_parse s = (case s of
      [] \<Rightarrow> None
    | c # cs \<Rightarrow> Some (if c = CHR ''-'' then - int (digits_value cs) else int (digits_value s)))"

lemma toy_times: "times_read toy_format toy_parse"
proof -
  have "toy_parse (toy_format t) = Some t" for t
  proof (cases "t < 0")
    case True
    then show ?thesis by (simp add: toy_parse_def toy_format_def format_int_def)
  next
    case False
    then obtain c cs where c: "digits (nat t) = c # cs" "c \<noteq> CHR ''-''"
      using digits_no_minus [of "nat t"] by (cases "digits (nat t)") auto
    moreover have "digits_value (c # cs) = nat t" using digits_value [of "nat t"] c(1) by simp
    ultimately show ?thesis using False by (simp add: toy_parse_def toy_format_def format_int_def)
  qed
  then show ?thesis by (simp add: times_read_def)
qed


definition sample_received :: json where
  "sample_received = JObj [(''envelope'', JObj [(''sourceNumber'', JStr ''+47''), (''timestamp'', JNum 5),
     (''dataMessage'', JObj [(''message'', JStr ''hi'')])])]"


theorem received_events_forwarded_witness:
  "\<exists>w. signal_run toy_format [Notice ''receive'' (Some sample_received), Forward, Collect] (new_signal_worker []) = Some w \<and>
     filter is_message (sw_taken w @ sg_events (sw_service w)) @ hand_list (sw_hand w) =
       List.map_filter (notification_event toy_format) [(''receive'', Some sample_received)]"
proof -
  obtain v where "notification_event toy_format (''receive'', Some sample_received) = Some v"
    by (simp add: notification_event_def parse_receive_def sample_received_def fold_key_simps decode_signal_envelope_def
        no_signal_envelope_def decode_data_def no_data_def decode_group_info_def received_message_def
        accepted_message_def Let_def encode_wire_message_def marshal_time_def unix_milli_def unix_epoch_def
        year_0_def year_10000_def second_def new_envelope_def)
  then obtain w where w: "signal_run toy_format [Notice ''receive'' (Some sample_received), Forward, Collect]
      (new_signal_worker []) = Some w" "sw_seen w = [(''receive'', Some sample_received)]"
    by (simp add: new_signal_worker_def new_signal_service_def put_event_def signal_capacity_def)
  from received_events_forwarded [OF w(1)] w show ?thesis by simp
qed

theorem link_calls_valid_witness:
  "\<exists>w j. signal_run toy_format [Command (empty_envelope\<lparr>env_type := TypeLinkStart\<rparr>), Move 0,
       Result 0 (Inr (Some (JObj [(''deviceLinkUri'', JStr ''sgnl://x'')]))), Move 0,
       Command (empty_envelope\<lparr>env_type := TypeLinkFinish, env_payload := Some (JObj [])\<rparr>), Move 1, Result 1 (Inr None)]
       (new_signal_worker []) = Some w \<and>
     (1, ''finishLink'', j) \<in> set (sw_calls w) \<and>
     (\<exists>uri device. valid_link_uri uri \<and> j = JObj (enc ''deviceLinkUri'' uri @ enc ''deviceName'' device))"
proof -
  obtain w j where w: "signal_run toy_format [Command (empty_envelope\<lparr>env_type := TypeLinkStart\<rparr>), Move 0,
       Result 0 (Inr (Some (JObj [(''deviceLinkUri'', JStr ''sgnl://x'')]))), Move 0,
       Command (empty_envelope\<lparr>env_type := TypeLinkFinish, env_payload := Some (JObj [])\<rparr>), Move 1, Result 1 (Inr None)]
       (new_signal_worker []) = Some w" "(1, ''finishLink'', j) \<in> set (sw_calls w)"
    by (simp add: new_signal_worker_def new_signal_service_def job_step_def handle_command_def type_defs start_link_def
        call_value_def decode_link_uri_def fold_key_simps valid_link_uri_def has_prefix_def finish_link_def
        decode_payload_def decode_link_finish_def Let_def)
  with link_calls_valid [OF w(1)] show ?thesis by blast
qed

end
