(* ===== verification/SignalDelivery.thy ===== *)
theory SignalDelivery
  imports Delivery SignalWorker
begin

section \<open>From Signal to the database\<close>

text \<open>
  What the Signal worker (\<^verbatim>\<open>internal/signalworker/service.go\<close>) makes of a notification, and what the
  server's ingest makes of that. Shown: the server reads the very message the worker parsed, and it
  can be stored; but the message's identity at the server is less than its identity in Signal, so
  that two messages can be taken for one.
\<close>

text \<open>
  C12. Signal messages arrive: the event the worker makes of a notification is read by the server as the
  message the worker parsed, whole, and the server can store it - unless its time is the zero time,
  the one timestamp it refuses. No event is made of a time that JSON cannot carry.
\<close>

theorem received_message_read:
  assumes "parse_receive raw = Some m" "times_read format_time parse_time"
  shows "case notification_event format_time (''receive'', raw) of
      None \<Rightarrow> \<not> (year_0 \<le> wm_sent_at m \<and> wm_sent_at m < year_10000)
    | Some v \<Rightarrow> env_type v = TypeMessageNew \<and> env_id v = [] \<and>
        decode_payload (decode_wire_message parse_time empty_wire_message) v = Inr m \<and>
        (acceptable m \<longleftrightarrow> wm_provider_message_id m \<noteq> format_int (- 62135596800000))"
proof -
  from assms(1) obtain direction author name body t g peer where
    m: "accepted_message direction author name body t g peer = Some m" "direction \<in> {''incoming'', ''outgoing''}"
    by (rule parse_receive_cases)
  note facts = accepted_answerable [OF m(1)]
  have "wm_conversation_id m \<noteq> []" using facts by (auto simp: answerable_def)
  moreover have "unix_milli t = 0 \<longleftrightarrow> t = - 62135596800000"
    by (auto simp: unix_milli_def unix_epoch_def second_def)
  ultimately have ok: "acceptable m \<longleftrightarrow> wm_provider_message_id m \<noteq> format_int (- 62135596800000)"
    using facts m(2) by (simp add: acceptable_def)
  show ?thesis
  proof (cases "year_0 \<le> wm_sent_at m \<and> wm_sent_at m < year_10000")
    case False
    then show ?thesis
      using assms(1) by (auto simp: notification_event_def encode_wire_message_def marshal_time_def new_envelope_def)
  next
    case True
    then have "parse_time (format_time (wm_sent_at m)) = Some (wm_sent_at m)"
      using assms(2) by (simp add: times_read_def)
    with True ok show ?thesis
      using assms(1) by (simp add: notification_event_def encode_wire_message_def marshal_time_def new_envelope_def
          empty_envelope_def decode_payload_def empty_wire_message_def enc_def fold_key_simps)
  qed
qed

text \<open>
  C14. Messages of the same millisecond are taken for one: the worker names a message by its timestamp
  alone, which in Signal identifies it only together with its author. When two messages of one
  conversation carry the same timestamp, whoever wrote them, the server takes the second for a
  repetition of the first: it answers with success - so the event is acknowledged and leaves the
  spool - and stores and announces nothing.
\<close>

theorem same_millisecond_lost:
  assumes "parse_receive raw1 = Some m1" "parse_receive raw2 = Some m2"
    and "wm_conversation_id m1 = wm_conversation_id m2" "wm_sent_at m1 = wm_sent_at m2"
    and "db_ok db" "ingest_message e account m1 l db = (Inr (r, new), db1)"
    and "acc_platform account \<noteq> []" "healthy e'"
  shows "\<exists>r' db2. ingest_message e' account m2 l' db1 = (Inr (r', False), db2) \<and>
    db_messages db2 = db_messages db1 \<and> db_outbox db2 = db_outbox db1"
proof -
  have time: "\<exists>t. wm_provider_message_id m = format_int t \<and> wm_sent_at m = unix_milli t \<and>
      wm_direction m \<in> {''incoming'', ''outgoing''} \<and> wm_conversation_id m \<noteq> []"
    if "parse_receive raw = Some m" for raw m
    using that by (cases rule: parse_receive_cases) (auto dest!: accepted_answerable simp: answerable_def)
  from time [OF assms(1)] time [OF assms(2)] assms(4) have same: "wm_provider_message_id m1 = wm_provider_message_id m2"
    by (auto simp: unix_milli_def)
  from ingest_stored [OF assms(6)] have m1: "acceptable m1"
    and "Ingest.stored (acc_id account) (wm_conversation_id m2) (wm_provider_message_id m2) db1"
    using assms(3) same by (auto simp: Ingest.stored_def)
  moreover have "acceptable m2"
    using m1 time [OF assms(2)] assms(3,4) same by (auto simp: acceptable_def)
  moreover have "db_ok db1"
    using message_step_ok [OF ingest_step [of db e account m1 l] assms(5)] assms(6) by simp
  ultimately show ?thesis using ingest_present [of db1 e' m2 account l'] assms(7,8) by blast
qed

definition sample_group_message :: "string \<Rightarrow> string \<Rightarrow> json" where
  "sample_group_message author body = JObj [(''envelope'', JObj [(''sourceNumber'', JStr author),
     (''dataMessage'', JObj [(''timestamp'', JNum 1720000000001), (''message'', JStr body),
       (''groupInfo'', JObj [(''groupId'', JStr ''g1'')])])])]"

abbreviation sample_group_wire :: "string \<Rightarrow> string \<Rightarrow> wire_message" where
  "sample_group_wire author body \<equiv> \<lparr>wm_provider_message_id = format_int 1720000000001,
     wm_conversation_id = ''group:g1'', wm_author_id = author, wm_author_name = author, wm_body = body,
     wm_sent_at = unix_milli 1720000000001, wm_direction = ''incoming''\<rparr>"

lemma parse_sample_group:
  "author \<noteq> [] \<Longrightarrow> body \<noteq> [] \<Longrightarrow>
   parse_receive (Some (sample_group_message author body)) = Some (sample_group_wire author body)"
  by (simp add: parse_receive_def sample_group_message_def fold_key_simps decode_signal_envelope_def no_signal_envelope_def
      decode_data_def no_data_def decode_group_info_def received_message_def accepted_message_def Let_def)

theorem received_message_read_witness:
  "\<exists>v. notification_event toy_format (''receive'', Some (sample_group_message ''+46'' ''hi'')) = Some v \<and>
     decode_payload (decode_wire_message toy_parse empty_wire_message) v = Inr (sample_group_wire ''+46'' ''hi'')"
proof -
  have m: "parse_receive (Some (sample_group_message ''+46'' ''hi'')) = Some (sample_group_wire ''+46'' ''hi'')"
    by (simp add: parse_sample_group)
  from received_message_read [OF m toy_times] show ?thesis
    by (auto simp: unix_milli_def unix_epoch_def second_def year_0_def year_10000_def split: option.splits)
qed

theorem same_millisecond_lost_witness:
  "\<exists>r db1 r' db2. ingest_message (sample_env minute) sample_owner (sample_group_wire ''+46'' ''yes'') True sample_db =
       (Inr (r, True), db1) \<and>
     ingest_message (sample_env (2 * minute)) sample_owner (sample_group_wire ''+47'' ''no'') True db1 = (Inr (r', False), db2) \<and>
     db_messages db2 = db_messages db1"
proof -
  let ?m1 = "sample_group_wire ''+46'' ''yes''" and ?m2 = "sample_group_wire ''+47'' ''no''"
  have parsed: "parse_receive (Some (sample_group_message ''+46'' ''yes'')) = Some ?m1"
    "parse_receive (Some (sample_group_message ''+47'' ''no'')) = Some ?m2"
    by (simp_all add: parse_sample_group)
  obtain r db1 where r: "ingest_message (sample_env minute) sample_owner ?m1 True sample_db = (Inr (r, True), db1)"
    by (simp add: ingest_message_def in_tx_def ingest_tx_def sample_account_def scan_account_def
        opened_conversation_def has_prefix_def upsert_conversation_def insert_conversation_def sample_db_def empty_db_def
        new_conversation_row_def conversation_key_def insert_new_message_def message_check_def new_message_row_def
        identified_def insert_message_def ingest_outcome_def ingest_live_def increment_unread_def new_message_def Let_def
        insert_outbox_def marshal_message_def insert_outbox_row_def update_where_def unix_milli_def unix_epoch_def
        second_def minute_def day_def)
  have "acc_platform sample_owner \<noteq> []" by (simp add: scan_account_def)
  from same_millisecond_lost [OF parsed _ _ pg_ok_schema [OF sample_db_ok] r this, of "sample_env (2 * minute)" True] r
  show ?thesis by fastforce
qed

end
