(* ===== verification/FakeWorker.thy ===== *)
theory FakeWorker
  imports SignalDelivery
begin

section \<open>The fake worker\<close>

text \<open>
  \<^verbatim>\<open>cmd/fake-worker/main.go\<close>: a worker without a provider, for tests of the protocol. \<open>fake_step\<close> is one
  step of its \<open>main\<close> and \<open>run\<close>. Shown: it answers every frame of a connection, in order; and what the
  server makes of its frames: its messages are refused and cost it the connection, and a send to it
  fails.
\<close>

record fake_config =
  fk_platform :: string
  fk_token :: string

definition fake_read_credential :: "string option \<Rightarrow> string" where
  "fake_read_credential file = (case file of None \<Rightarrow> [] | Some content \<Rightarrow> trim_space content)"

subsection \<open>Frames\<close>

definition fake_hello :: "fake_config \<Rightarrow> string \<Rightarrow> envelope" where
  "fake_hello cfg credential = empty_envelope\<lparr>env_version := Version, env_type := TypeHello,
     env_payload := Some (encode_hello \<lparr>hello_token = credential, hello_platform = fk_platform cfg,
       hello_version = ''fake-worker/0.1.0''\<rparr>)\<rparr>"

definition fake_status :: "64 word \<Rightarrow> envelope" where
  "fake_status generation = empty_envelope\<lparr>env_version := Version, env_type := TypeAccountStatus,
     env_generation := generation, env_payload := Some (JObj (enc ''state'' ''live''))\<rparr>"

definition fake_answer :: "64 word \<Rightarrow> envelope \<Rightarrow> envelope" where
  "fake_answer generation v = empty_envelope\<lparr>env_version := Version, env_id := env_id v,
     env_type := env_type v, env_generation := generation, env_status := ''ok'',
     env_payload := Some (JObj [(''fake'', JBool True)])\<rparr>"

definition fake_heartbeat :: "64 word \<Rightarrow> envelope" where
  "fake_heartbeat generation = empty_envelope\<lparr>env_version := Version, env_type := TypeHeartbeat,
     env_generation := generation\<rparr>"

text \<open>\<open>format_time\<close> is what JSON makes of a time.\<close>

definition fake_message :: "(time \<Rightarrow> string) \<Rightarrow> time \<Rightarrow> 64 word \<Rightarrow> envelope" where
  "fake_message format_time at generation = empty_envelope\<lparr>env_version := Version, env_type := TypeMessageNew,
     env_generation := generation, env_payload := Some (JObj
       [(''author'', JStr ''fake-sender''),
        (''body'', JStr ''hello from the fake worker''),
        (''conversation_id'', JStr ''fake-conversation''),
        (''provider_message_id'', JStr (''fake-'' @ format_int (at - unix_epoch))),
        (''sent_at'', JStr (format_time at))])\<rparr>"

subsection \<open>State\<close>

text \<open>
  \<open>fw_written\<close> are the frames of the present connection after its hello, \<open>fw_received\<close> the frames taken
  from it after the ready frame.
\<close>

datatype fake_phase = Dialling | Connected "64 word" | Delaying | Ended

record fake_worker =
  fw_credential :: string
  fw_file :: "string option"
  fw_backoff :: int
  fw_phase :: fake_phase
  fw_written :: "envelope list"
  fw_received :: "envelope list"

text \<open>
  What a connection attempt meets: the dial, the write of the hello frame, the first read, the write
  of the credential file (an error leaves some content behind), the write of the status.
\<close>

record fake_dial =
  fd_dial :: "go_error option"
  fd_hello :: "go_error option"
  fd_ready :: "go_error + envelope"
  fd_file :: "(go_error \<times> string option) option"
  fd_status :: "go_error option"

text \<open>\<open>main\<close> up to its loop.\<close>

definition new_fake_worker :: "fake_config \<Rightarrow> string option \<Rightarrow> fake_worker option" where
  "new_fake_worker cfg file =
     (let stored = fake_read_credential file;
          credential = (if stored = [] then fk_token cfg else stored) in
      if credential = [] then None
      else Some \<lparr>fw_credential = credential, fw_file = file, fw_backoff = second, fw_phase = Dialling,
        fw_written = [], fw_received = []\<rparr>)"

text \<open>The end of \<open>run\<close> in \<open>main\<close>; its error is never \<open>nil\<close>.\<close>

definition run_ended :: "go_error \<Rightarrow> fake_worker \<Rightarrow> fake_worker" where
  "run_ended err w = w\<lparr>fw_phase := if errors_is err ErrContextCanceled then Ended else Delaying\<rparr>"

definition fake_write :: "go_error option \<Rightarrow> envelope \<Rightarrow> fake_worker \<Rightarrow> fake_worker" where
  "fake_write fault v w =
     (case fault of Some err \<Rightarrow> run_ended err w | None \<Rightarrow> w\<lparr>fw_written := fw_written w @ [v]\<rparr>)"

text \<open>\<open>run\<close> up to its loop.\<close>

definition fake_connect :: "fake_dial \<Rightarrow> fake_worker \<Rightarrow> fake_worker" where
  "fake_connect d w =
     (case attempt (failed (fd_dial d)) (\<lambda>_. attempt (failed (fd_hello d)) (\<lambda>_. read_ready (fd_ready d))) of
        Inl err \<Rightarrow> run_ended err w
      | Inr ready \<Rightarrow>
          if ready_credential ready \<noteq> [] \<and> fd_file d \<noteq> None then
            run_ended (Wrapped ''save worker credential'' (fst (the (fd_file d))))
              (w\<lparr>fw_file := snd (the (fd_file d))\<rparr>)
          else
            let w = (if ready_credential ready = [] then w
                     else w\<lparr>fw_file := Some (ready_credential ready @ [CHR 0x0A]),
                            fw_credential := ready_credential ready\<rparr>)
            in fake_write (fd_status d) (fake_status (ready_generation ready))
                 (w\<lparr>fw_phase := Connected (ready_generation ready), fw_written := [], fw_received := []\<rparr>))"

text \<open>
  \<open>Attempt\<close> is \<open>run\<close> up to its loop. The branches of the loop: \<open>Stopped\<close> (the context, or a read error),
  \<open>Incoming\<close>, \<open>Heartbeat\<close>, \<open>Emit\<close>, each with what its write meets. \<open>Retry\<close>: the delay between two
  connections is over; \<open>Interrupt\<close>: the program is told to end between two connections.
\<close>

datatype fake_event =
    Attempt fake_dial
  | Stopped go_error
  | Incoming envelope "go_error option"
  | Heartbeat "go_error option"
  | Emit time "go_error option"
  | Retry
  | Interrupt

fun fake_step :: "(time \<Rightarrow> string) \<Rightarrow> fake_event \<Rightarrow> fake_worker \<Rightarrow> fake_worker option" where
  "fake_step format_time (Attempt d) w = (if fw_phase w = Dialling then Some (fake_connect d w) else None)"
| "fake_step format_time (Stopped err) w =
     (case fw_phase w of Connected g \<Rightarrow> Some (run_ended err w) | _ \<Rightarrow> None)"
| "fake_step format_time (Incoming v fault) w =
     (case fw_phase w of
        Connected g \<Rightarrow> Some (fake_write fault (fake_answer g v) (w\<lparr>fw_received := fw_received w @ [v]\<rparr>))
      | _ \<Rightarrow> None)"
| "fake_step format_time (Heartbeat fault) w =
     (case fw_phase w of Connected g \<Rightarrow> Some (fake_write fault (fake_heartbeat g) w) | _ \<Rightarrow> None)"
| "fake_step format_time (Emit at fault) w =
     (case fw_phase w of Connected g \<Rightarrow> Some (fake_write fault (fake_message format_time at g) w) | _ \<Rightarrow> None)"
| "fake_step format_time Retry w =
     (if fw_phase w = Delaying then
        Some (w\<lparr>fw_phase := Dialling,
          fw_backoff := if fw_backoff w < 30 * second then fw_backoff w * 2 else fw_backoff w\<rparr>)
      else None)"
| "fake_step format_time Interrupt w =
     (if fw_phase w \<in> {Delaying, Dialling} then Some (w\<lparr>fw_phase := Ended\<rparr>) else None)"

abbreviation fake_run :: "(time \<Rightarrow> string) \<Rightarrow> fake_event list \<Rightarrow> fake_worker \<Rightarrow> fake_worker option" where
  "fake_run format_time \<equiv> run_steps (fake_step format_time)"

subsection \<open>Every frame is answered\<close>

definition backoffs :: "int set" where
  "backoffs = {second, 2 * second, 4 * second, 8 * second, 16 * second, 32 * second}"

lemma backoff_next: "b \<in> backoffs \<Longrightarrow> (if b < 30 * second then b * 2 else b) \<in> backoffs"
  by (auto simp: backoffs_def second_def)

lemma backoff_range: "b \<in> backoffs \<Longrightarrow> second \<le> b \<and> b \<le> 32 * second"
  by (auto simp: backoffs_def second_def)

definition fake_ok :: "fake_worker \<Rightarrow> bool" where
  "fake_ok w \<longleftrightarrow> fw_backoff w \<in> backoffs \<and>
     (\<forall>g. fw_phase w = Connected g \<longrightarrow>
        filter (\<lambda>v. env_status v = ''ok'') (fw_written w) = map (fake_answer g) (fw_received w))"

lemma run_ended_ok: "fake_ok w \<Longrightarrow> fake_ok (run_ended err w)"
  by (simp add: fake_ok_def run_ended_def)

lemma fake_write_ok:
  "fake_ok w \<Longrightarrow> env_status v \<noteq> ''ok'' \<Longrightarrow> fake_ok (fake_write fault v w)"
  by (cases fault) (simp_all add: fake_write_def run_ended_ok, simp add: fake_ok_def)

lemma fake_answer_ok:
  assumes "fake_ok w" "fw_phase w = Connected g"
  shows "fake_ok (fake_write fault (fake_answer g v) (w\<lparr>fw_received := fw_received w @ [v]\<rparr>))"
proof (cases fault)
  case None
  with assms show ?thesis by (simp add: fake_write_def fake_ok_def fake_answer_def)
next
  case (Some err)
  with assms show ?thesis by (simp add: fake_write_def fake_ok_def run_ended_def)
qed

lemma fake_status_of_frames:
  "env_status (fake_status g) \<noteq> ''ok''" "env_status (fake_heartbeat g) \<noteq> ''ok''"
  "env_status (fake_message format_time at g) \<noteq> ''ok''"
  by (simp_all add: fake_status_def fake_heartbeat_def fake_message_def empty_envelope_def)

lemma fake_connect_ok:
  assumes "fake_ok w"
  shows "fake_ok (fake_connect d w)"
proof (cases "attempt (failed (fd_dial d)) (\<lambda>_. attempt (failed (fd_hello d)) (\<lambda>_. read_ready (fd_ready d)))")
  case (Inl err)
  with assms show ?thesis by (simp add: fake_connect_def run_ended_ok)
next
  case (Inr ready)
  have "fake_ok (w\<lparr>fw_file := f\<rparr>)" for f using assms by (simp add: fake_ok_def)
  moreover have "fake_ok (v\<lparr>fw_phase := Connected g, fw_written := [], fw_received := []\<rparr>)"
    if "fw_backoff v = fw_backoff w" for v g
    using that assms by (simp add: fake_ok_def)
  ultimately show ?thesis
    using Inr by (simp add: fake_connect_def Let_def run_ended_ok fake_write_ok fake_status_of_frames)
qed

lemma fake_step_ok:
  assumes "fake_ok w" "fake_step format_time e w = Some w'"
  shows "fake_ok w'"
proof (cases e)
  case Retry
  with assms backoff_next [of "fw_backoff w"] show ?thesis by (auto simp: fake_ok_def split: if_splits)
next
  case Interrupt
  with assms show ?thesis by (auto simp: fake_ok_def split: if_splits)
qed (use assms in \<open>auto intro: fake_connect_ok run_ended_ok fake_write_ok fake_answer_ok
      simp: fake_status_of_frames split: fake_phase.splits if_splits\<close>)

interpretation fake: step_invariant "fake_step format_time" fake_ok
  for format_time
  by unfold_locales (rule fake_step_ok)

text \<open>
  On every connection the frames the server has sent are answered, each once, in order, with the id and
  the type of the frame and the connection's generation; and the backoff between two connections is
  from one to 32 seconds.
\<close>

lemma frames_answered:
  assumes "fake_run format_time es w = Some w'" "new_fake_worker cfg file = Some w" "fw_phase w' = Connected g"
  shows "filter (\<lambda>v. env_status v = ''ok'') (fw_written w') = map (fake_answer g) (fw_received w') \<and>
    second \<le> fw_backoff w' \<and> fw_backoff w' \<le> 32 * second"
proof -
  have "fake_ok w" using assms(2) by (auto simp: new_fake_worker_def fake_ok_def backoffs_def Let_def split: if_splits)
  from fake.run_keeps [OF assms(1) this] assms(3) show ?thesis by (simp add: fake_ok_def backoff_range)
qed

subsection \<open>What the server makes of it\<close>

lemma fake_message_unacceptable:
  assumes "decode_payload (decode_wire_message parse_time empty_wire_message) (fake_message format_time at g) = Inr m"
  shows "wm_direction m = [] \<and> wm_author_id m = []"
  using assms
  by (auto simp: fake_message_def decode_payload_def empty_envelope_def empty_wire_message_def fold_key_simps
      bind_eq_Some_conv split: option.splits)

text \<open>
  C29. The server refuses every message the fake worker emits, whatever its time and the state of the
  database: nothing is stored, nothing is published, and the connection is closed. So with \<open>-emit-every\<close>
  the worker loses its connection at every tick, and no message ever reaches a client.
\<close>

theorem fake_message_refused:
  "handle_frame (store_beside (postgres_store sha)) (Some (worker_event parse_time)) e e' ok
     (fake_message format_time at (cn_generation c)) c s = (set_phase conn_phase.Leaving c, s)"
proof -
  let ?v = "fake_message format_time at (cn_generation c)"
  have same: "?v\<lparr>env_generation := cn_generation c\<rparr> = ?v" by (simp add: fake_message_def)
  have "\<exists>err. worker_event parse_time e' (wa_account (cn_auth c)) ?v s = (Inl err, s)"
  proof (cases "decode_payload (decode_wire_message parse_time empty_wire_message) ?v")
    case (Inr m)
    then have "\<not> acceptable m" using fake_message_unacceptable [OF Inr] by (simp add: acceptable_def)
    obtain r db where i: "ingest_message e' (wa_account (cn_auth c)) m True (fst s) = (r, db)" by force
    have "r \<noteq> Inr (a, b)" for a b
      using ingest_stored [of e' "wa_account (cn_auth c)" m True "fst s" a b db] i \<open>\<not> acceptable m\<close> by auto
    then obtain err where r: "r = Inl err" by (cases r) auto
    with i have "db = fst s" by (auto simp: ingest_message_def dest: in_tx_Inl split: if_splits)
    with Inr i r show ?thesis
      by (simp add: worker_event_def IngestMessage_def fake_message_def)
  qed (simp add: worker_event_def fake_message_def)
  moreover have "validate ?v = Inr ()" "env_generation ?v = cn_generation c" "env_status ?v = []"
      "env_error ?v = None" "env_type ?v \<noteq> TypeHeartbeat" "env_type ?v \<noteq> TypeAccountStatus"
    by (simp_all add: fake_message_def validate_def empty_envelope_def type_defs Version_def)
  ultimately show ?thesis
    by (auto simp: handle_frame_def handle_event_def Let_def same)
qed

text \<open>
  A send to the fake worker fails: its answer says \<open>ok\<close>, but has no message id, and the server records
  the send as failed and reports an invalid response.
\<close>

lemma fake_send_fails:
  "response_result (fake_answer g v) = Inr (Some (JObj [(''fake'', JBool True)]))"
  "send_answered A user prepared (response_result (fake_answer g v)) =
     send_failed user (prep_command_id prepared) ''invalid_worker_response''
       (write_error 502 ''invalid_worker_response'' (Plain ''worker returned an invalid send result''))"
  by (simp_all add: response_result_def fake_answer_def empty_envelope_def send_answered_def fold_key_simps)

end
