(* ===== verification/SignalMain.thy ===== *)
theory SignalMain
  imports SignalDelivery
begin

section \<open>The signal-cli process, and the program around it\<close>

text \<open>
  \<^verbatim>\<open>internal/signalcli/daemon.go\<close> and \<^verbatim>\<open>cmd/say-signal/main.go\<close>: the start of the signal-cli process, the
  wait for its socket, its end; and \<open>main\<close>, which starts it, makes the worker client (\<open>WorkerClient\<close>) for
  the service (\<open>SignalWorker\<close>) and waits for one of them to end. Shown: on which way out of the program
  the process is stopped, and that a start that is not ready in time ends and leaves no process.
\<close>

subsection \<open>Paths\<close>

text \<open>\<open>filepath.Clean\<close>, \<open>Dir\<close> and \<open>Join\<close> on Unix. \<open>segments\<close> splits a path at its slashes.\<close>

fun segments :: "string \<Rightarrow> string list" where
  "segments [] = [[]]"
| "segments (c # cs) =
     (if c = CHR ''/'' then [] # segments cs
      else case segments cs of [] \<Rightarrow> [[c]] | s # ss \<Rightarrow> (c # s) # ss)"

fun clean_segments :: "bool \<Rightarrow> string list \<Rightarrow> string list \<Rightarrow> string list" where
  "clean_segments rooted done [] = rev done"
| "clean_segments rooted done (s # ss) =
     (if s = [] \<or> s = ''.'' then clean_segments rooted done ss
      else if s = ''..'' then
        (case done of
           d # ds \<Rightarrow> if d \<noteq> ''..'' then clean_segments rooted ds ss
             else clean_segments rooted (s # done) ss
         | [] \<Rightarrow> clean_segments rooted (if rooted then [] else [s]) ss)
      else clean_segments rooted (s # done) ss)"

fun join_segments :: "string list \<Rightarrow> string" where
  "join_segments [] = []"
| "join_segments [s] = s"
| "join_segments (s # ss) = s @ CHR ''/'' # join_segments ss"

definition clean_path :: "string \<Rightarrow> string" where
  "clean_path p =
     (let rooted = has_prefix p ''/'';
          path = (if rooted then ''/'' else []) @ join_segments (clean_segments rooted [] (segments p)) in
      if path = [] then ''.'' else path)"

definition path_dir :: "string \<Rightarrow> string" where
  "path_dir p = clean_path (rev (dropWhile (\<lambda>c. c \<noteq> CHR ''/'') (rev p)))"

definition path_join :: "string \<Rightarrow> string \<Rightarrow> string" where
  "path_join p q =
     (let parts = filter (\<lambda>s. s \<noteq> []) [p, q] in
      if parts = [] then [] else clean_path (join_segments parts))"

subsection \<open>The process\<close>

text \<open>
  \<open>dm_client\<close>: a connection to the socket is open. \<open>dm_cancelled\<close>: the context of the process is cancelled, which
  kills it. \<open>dm_exit\<close>: what \<open>Wait\<close> has returned, once the process has ended; \<open>dm_received\<close>: this was
  taken from the channel, which is then closed and gives \<open>nil\<close>.
\<close>

record daemon =
  dm_path :: string
  dm_arguments :: "string list"
  dm_client :: bool
  dm_cancelled :: bool
  dm_exit :: "go_error option option"
  dm_received :: bool

record daemon_config =
  dc_path :: string
  dc_data_dir :: string
  dc_socket_path :: string

text \<open>
  The system calls before the process runs: the two directories, the removal of a stale socket (an
  error other than that there is none), the start.
\<close>

record daemon_env =
  dv_data_dir :: "go_error option"
  dv_socket_dir :: "go_error option"
  dv_remove :: "go_error option"
  dv_start :: "go_error option"

definition wrap_fault :: "string \<Rightarrow> go_error option \<Rightarrow> go_error + unit" where
  "wrap_fault msg fault = (case fault of None \<Rightarrow> Inr () | Some err \<Rightarrow> Inl (Wrapped msg err))"

definition launch :: "daemon_env \<Rightarrow> daemon_config \<Rightarrow> go_error + daemon" where
  "launch e cfg =
     attempt (fail_if (dc_data_dir cfg = [] \<or> dc_socket_path cfg = [])
       (NewError ''signal-cli data directory and socket path are required'')) (\<lambda>_.
     attempt (wrap_fault ''create signal data directory'' (dv_data_dir e)) (\<lambda>_.
     attempt (wrap_fault ''create signal socket directory'' (dv_socket_dir e)) (\<lambda>_.
     attempt (wrap_fault ''remove stale signal socket'' (dv_remove e)) (\<lambda>_.
     attempt (wrap_fault ''start signal-cli'' (dv_start e)) (\<lambda>_.
     Inr \<lparr>dm_path = (if dc_path cfg = [] then ''signal-cli'' else dc_path cfg),
       dm_arguments = [''-c'', dc_data_dir cfg, ''daemon'', ''--socket'', dc_socket_path cfg,
         ''--receive-mode'', ''on-start'', ''--no-receive-stdout''],
       dm_client = False, dm_cancelled = False, dm_exit = None, dm_received = False\<rparr>)))))"

text \<open>A receive from the channel \<open>exited\<close>; \<open>None\<close> while it blocks.\<close>

definition receive_exit :: "daemon \<Rightarrow> (go_error option \<times> daemon) option" where
  "receive_exit d =
     (case dm_exit d of
        None \<Rightarrow> None
      | Some r \<Rightarrow> Some (if dm_received d then None else r, d\<lparr>dm_received := True\<rparr>))"

text \<open>
  \<open>Stop\<close>. The process, unless it has ended before, ends within ten seconds with the given result of
  \<open>Wait\<close>; or it does not, and \<open>Kill\<close> gives the given result. \<open>success\<close> is \<open>ProcessState.Success()\<close>.
\<close>

datatype stop_outcome = Ends "go_error option" bool | Lingers "go_error option"

definition process_ends :: "go_error option \<Rightarrow> daemon \<Rightarrow> daemon" where
  "process_ends r d = (if dm_exit d = None then d\<lparr>dm_exit := Some r\<rparr> else d)"

definition stop_daemon :: "stop_outcome \<Rightarrow> daemon \<Rightarrow> go_error option \<times> daemon" where
  "stop_daemon outcome d =
     (let d = d\<lparr>dm_client := False, dm_cancelled := True\<rparr>;
          (d, success, killed) = (case outcome of
             Ends r success \<Rightarrow> (process_ends r d, success, None)
           | Lingers killed \<Rightarrow> (d, False, killed))
      in case receive_exit d of
           Some (err, d) \<Rightarrow> (if err \<noteq> None \<and> \<not> success then err else None, d)
         | None \<Rightarrow> (killed, d))"

text \<open>
  The loop of \<open>StartDaemon\<close>: the branches its \<open>select\<close> takes, one after the other. \<open>None\<close>: none of
  those so far has ended it.
\<close>

datatype start_event =
    ContextDone go_error stop_outcome
  | Exited "go_error option"
  | DeadlineOver stop_outcome
  | DialTick "go_error option"

fun await_socket :: "start_event list \<Rightarrow> daemon \<Rightarrow> ((go_error + unit) \<times> daemon) option" where
  "await_socket [] d = None"
| "await_socket (ContextDone err o' # es) d = Some (Inl err, snd (stop_daemon o' d))"
| "await_socket (Exited r # es) d =
     Some (Inl (case r of
         Some err \<Rightarrow> Wrapped ''signal-cli exited before socket was ready'' err
       | None \<Rightarrow> NewError ''signal-cli exited before socket was ready: %!w(<nil>)''),
       (process_ends r d)\<lparr>dm_received := True, dm_cancelled := True\<rparr>)"
| "await_socket (DeadlineOver o' # es) d =
     Some (Inl (NewError ''signal-cli socket was not ready within 30 seconds''), snd (stop_daemon o' d))"
| "await_socket (DialTick fault # es) d =
     (if fault = None then Some (Inr (), d\<lparr>dm_client := True\<rparr>) else await_socket es d)"

text \<open>\<open>StartDaemon\<close>: its result, and the process if there is one.\<close>

definition start_daemon ::
  "daemon_env \<Rightarrow> daemon_config \<Rightarrow> start_event list \<Rightarrow> ((go_error + unit) \<times> daemon option) option"
where
  "start_daemon e cfg events =
     (case launch e cfg of
        Inl err \<Rightarrow> Some (Inl err, None)
      | Inr d \<Rightarrow> map_option (\<lambda>(r, d). (r, Some d)) (await_socket events d))"

lemma stop_cancels: "dm_cancelled (snd (stop_daemon o' d))"
  by (cases o') (auto simp: stop_daemon_def Let_def receive_exit_def process_ends_def split: option.splits)

lemma await_socket_result:
  "await_socket events d = Some (r, d') \<Longrightarrow> if r = Inr () then dm_client d' \<and> dm_cancelled d' = dm_cancelled d
     else dm_cancelled d'"
  by (induction events d rule: await_socket.induct) (auto simp: stop_cancels split: if_splits option.splits)

lemma await_socket_ends:
  "\<exists>ev \<in> set events. \<forall>err. ev \<noteq> DialTick (Some err) \<Longrightarrow> await_socket events d \<noteq> None"
  by (induction events d rule: await_socket.induct) auto


lemma launch_running: "launch e cfg = Inr d \<Longrightarrow> \<not> dm_cancelled d \<and> dm_exit d = None"
  by (auto simp: launch_def attempt_eq_Inr)

subsection \<open>The program\<close>

definition signal_daemon_config :: "(string \<Rightarrow> string) \<Rightarrow> daemon_config" where
  "signal_daemon_config getenv =
     \<lparr>dc_path = env_or (getenv ''SIGNAL_CLI_PATH'') ''signal-cli'',
      dc_data_dir = env_or (getenv ''SIGNAL_DATA_DIR'') ''/data/signal'',
      dc_socket_path = env_or (getenv ''SIGNAL_SOCKET_PATH'') ''/run/say/signal-cli.sock''\<rparr>"

definition signal_worker_config :: "(string \<Rightarrow> string) \<Rightarrow> string \<Rightarrow> worker_config" where
  "signal_worker_config getenv version =
     (let credential_file = env_or (getenv ''SAY_WORKER_CREDENTIAL_FILE'') ''/data/worker-credential'' in
      \<lparr>cf_server = getenv ''SAY_WORKER_URL'', cf_platform = ''signal'', cf_version = ''say-signal/'' @ version,
       cf_token = getenv ''SAY_ENROLLMENT_TOKEN'', cf_credential_file = credential_file,
       cf_event_spool_dir = env_or (getenv ''SAY_EVENT_SPOOL_DIR'') (path_join (path_dir credential_file) ''events''),
       cf_events = True, cf_handler = True\<rparr>)"

text \<open>
  What the program meets: the environment variables, the start of the process, the credential file and
  the spool, which of the three things \<open>main\<close> waits for happens, and how the process ends.
\<close>

datatype main_end = Interrupted | DaemonDone "go_error option" | ClientDone go_error

record signal_env =
  sv_getenv :: "string \<Rightarrow> string"
  sv_version :: string
  sv_daemon :: daemon_env
  sv_start :: "start_event list"
  sv_io :: io_env
  sv_file :: "string option"
  sv_spool :: "dir option"
  sv_end :: main_end
  sv_stop :: stop_outcome

definition signal_client ::
  "(string \<Rightarrow> (string \<times> string \<times> string) option) \<Rightarrow> (string \<Rightarrow> bool) \<Rightarrow> signal_env \<Rightarrow> go_error + string \<times> dir option"
where
  "signal_client parse_url loopback v =
     new_worker parse_url loopback (sv_io v) (signal_worker_config (sv_getenv v) (sv_version v)) (sv_file v) (sv_spool v)"

text \<open>
  \<open>main\<close>: the exit status and the process as the program leaves it; \<open>None\<close> while \<open>StartDaemon\<close> has not
  returned. \<open>os.Exit\<close> runs no deferred calls.
\<close>

definition signal_main ::
  "(string \<Rightarrow> (string \<times> string \<times> string) option) \<Rightarrow> (string \<Rightarrow> bool) \<Rightarrow> signal_env \<Rightarrow> (nat \<times> daemon option) option"
where
  "signal_main parse_url loopback v =
     Option.bind (start_daemon (sv_daemon v) (signal_daemon_config (sv_getenv v)) (sv_start v)) (\<lambda>(started, d).
     case started of
       Inl err \<Rightarrow> Some (1, d)
     | Inr _ \<Rightarrow>
         (case signal_client parse_url loopback v of
            Inl err \<Rightarrow> Some (1, d)
          | Inr _ \<Rightarrow>
              Some (0, map_option (\<lambda>d.
                let d = (case sv_end v of
                    DaemonDone r \<Rightarrow> (process_ends r d)\<lparr>dm_received := True\<rparr>
                  | _ \<Rightarrow> d)
                in snd (stop_daemon (sv_stop v) d)) d)))"

lemma start_daemon_cases:
  assumes "start_daemon e cfg events = Some (r, Some d)"
  shows "if r = Inr () then dm_client d \<and> \<not> dm_cancelled d else dm_cancelled d"
  using assms launch_running await_socket_result
  by (fastforce simp: start_daemon_def split: sum.splits if_splits)

text \<open>
  C28. signal-cli is not left running: however the program ends that has started it - the socket is not
  ready within the deadline, the process or the client ends, a signal arrives - the process has ended or
  its context is cancelled, which kills it; with one exception: when the configuration of the worker
  client is refused, \<open>main\<close> exits without the deferred \<open>Stop\<close>, and the process it has just started is
  left alone with an open connection.
\<close>

theorem signal_cli_stopped:
  assumes "signal_main parse_url loopback v = Some (status, Some d)"
  shows "(dm_cancelled d \<longleftrightarrow>
      \<not> ((\<exists>d0. start_daemon (sv_daemon v) (signal_daemon_config (sv_getenv v)) (sv_start v) = Some (Inr (), d0)) \<and>
         (\<exists>err. signal_client parse_url loopback v = Inl err))) \<and>
    (\<not> dm_cancelled d \<longrightarrow> status = 1 \<and> dm_client d)"
proof -
  from assms obtain started d0 where
    start: "start_daemon (sv_daemon v) (signal_daemon_config (sv_getenv v)) (sv_start v) = Some (started, d0)"
    by (auto simp: signal_main_def bind_eq_Some_conv)
  show ?thesis
  proof (cases started)
    case (Inl err)
    with start assms have "d0 = Some d" by (simp add: signal_main_def)
    with start Inl show ?thesis using start_daemon_cases [of _ _ _ started d] by auto
  next
    case (Inr u)
    show ?thesis
    proof (cases "signal_client parse_url loopback v")
      case (Inl err)
      with start assms Inr have "d0 = Some d" "status = 1" by (simp_all add: signal_main_def)
      with start Inr Inl show ?thesis using start_daemon_cases [of _ _ _ started d] by auto
    next
      case (Inr c)
      with start assms \<open>started = Inr u\<close> have "dm_cancelled d"
        by (auto simp: signal_main_def Let_def stop_cancels)
      with Inr show ?thesis by simp
    qed
  qed
qed

text \<open>A start that is given a decision ends, with a connection or an error.\<close>

lemma start_daemon_ends:
  "\<exists>ev \<in> set events. \<forall>err. ev \<noteq> DialTick (Some err) \<Longrightarrow> start_daemon e cfg events \<noteq> None"
  using await_socket_ends by (fastforce simp: start_daemon_def split: sum.split)

text \<open>An installation without \<open>SAY_WORKER_URL\<close>: the socket is ready at the second attempt.\<close>

definition sample_installation :: signal_env where
  "sample_installation = \<lparr>sv_getenv = (\<lambda>_. []), sv_version = ''dev'',
     sv_daemon = \<lparr>dv_data_dir = None, dv_socket_dir = None, dv_remove = None, dv_start = None\<rparr>,
     sv_start = [DialTick (Some ErrNotFound), DialTick None],
     sv_io = \<lparr>io_ctx = None, io_fault = (\<lambda>_. None), io_base = sample_env 0\<rparr>,
     sv_file = None, sv_spool = None, sv_end = Interrupted, sv_stop = Ends None True\<rparr>"

theorem signal_cli_stopped_witness:
  "\<exists>d. signal_main (\<lambda>_. None) (\<lambda>_. False) sample_installation = Some (1, Some d) \<and>
     dm_path d = ''signal-cli'' \<and> \<not> dm_cancelled d"
proof -
  have client: "signal_client (\<lambda>_. None) (\<lambda>_. False) sample_installation =
      Inl (NewError ''server, platform, and version are required'')"
    by (simp add: signal_client_def new_worker_def sample_installation_def signal_worker_config_def Let_def)
  obtain d where start: "start_daemon (sv_daemon sample_installation)
      (signal_daemon_config (sv_getenv sample_installation)) (sv_start sample_installation) = Some (Inr (), Some d)"
      "dm_path d = ''signal-cli''"
    by (simp add: sample_installation_def start_daemon_def launch_def wrap_fault_def signal_daemon_config_def env_or_def)
  then have main: "signal_main (\<lambda>_. None) (\<lambda>_. False) sample_installation = Some (1, Some d)"
    using client by (simp add: signal_main_def)
  show ?thesis using signal_cli_stopped [OF main] start client main by auto
qed

text \<open>Where the events are spooled by default.\<close>

lemma default_spool:
  "cf_event_spool_dir (signal_worker_config (\<lambda>_. []) version) = ''/data/events''"
  by (simp add: signal_worker_config_def env_or_def path_dir_def path_join_def clean_path_def has_prefix_def Let_def)

end
